(* ===== verification/Rust_Prelude.thy ===== *)
theory Rust_Prelude
  imports Main "HOL-Library.Word"
begin

text \<open>
  What every other theory shares: the machine integers, the outcome of a fallible Rust
  function (\<open>Ok\<close>, \<open>Err\<close>, a panic, or the end of the process), the state-passing form
  of a method that takes \<open>&mut self\<close> and returns a \<open>Result\<close>, and two contracts: a
  deterministic machine with an invariant, and a codec with its round trip.
\<close>

named_theorems io_simps \<open>evaluation of state-passing operations\<close>
named_theorems no_exit_intros \<open>rules that show that an operation does not end the process\<close>
named_theorems keeps_intros \<open>rules that show that an operation keeps an invariant\<close>

subsection \<open>Machine integers\<close>

type_synonym u8 = "8 word"
type_synonym u16 = "16 word"
type_synonym u32 = "32 word"
type_synonym u64 = "64 word"
type_synonym u128 = "128 word"
type_synonym bytes = "u8 list"

subsection \<open>Outcomes\<close>

text \<open>
  \<open>Ok\<close> and \<open>Err\<close> are Rust's. \<open>Panic\<close> is an unwinding panic (an index or slice out of
  range, an \<open>unwrap\<close> of an error); \<open>Exit\<close> is \<open>std::process::exit\<close> with its code, which
  no \<open>catch_unwind\<close> stops.
\<close>

datatype ('e, 'a) outcome = Ok 'a | Err 'e | Panic | Exit nat

fun and_then :: "('e, 'a) outcome \<Rightarrow> ('a \<Rightarrow> ('e, 'b) outcome) \<Rightarrow> ('e, 'b) outcome" where
  "and_then (Ok x) f = f x"
| "and_then (Err e) f = Err e"
| "and_then Panic f = Panic"
| "and_then (Exit c) f = Exit c"

fun map_err :: "('e \<Rightarrow> 'f) \<Rightarrow> ('e, 'a) outcome \<Rightarrow> ('f, 'a) outcome" where
  "map_err g (Ok x) = Ok x"
| "map_err g (Err e) = Err (g e)"
| "map_err g Panic = Panic"
| "map_err g (Exit c) = Exit c"

fun is_ok :: "('e, 'a) outcome \<Rightarrow> bool" where
  "is_ok (Ok _) = True"
| "is_ok _ = False"

text \<open>\<open>Option::ok_or\<close> and \<open>Option::unwrap\<close>.\<close>

fun ok_or :: "'e \<Rightarrow> 'a option \<Rightarrow> ('e, 'a) outcome" where
  "ok_or e None = Err e"
| "ok_or e (Some x) = Ok x"

fun unwrap_opt :: "'a option \<Rightarrow> ('e, 'a) outcome" where
  "unwrap_opt None = Panic"
| "unwrap_opt (Some x) = Ok x"

fun ensure :: "bool \<Rightarrow> 'e \<Rightarrow> ('e, unit) outcome" where
  "ensure b e = (if b then Ok () else Err e)"

text \<open>A loop over a list whose body may leave early by \<open>return Err\<close>.\<close>

fun for_each :: "('a \<Rightarrow> ('e, unit) outcome) \<Rightarrow> 'a list \<Rightarrow> ('e, unit) outcome" where
  "for_each f [] = Ok ()"
| "for_each f (x # xs) = and_then (f x) (\<lambda>_. for_each f xs)"

lemma and_then_Ok_iff [simp]:
  "and_then r f = Ok y \<longleftrightarrow> (\<exists>x. r = Ok x \<and> f x = Ok y)"
  by (cases r) auto

lemma and_then_Panic_iff:
  "and_then r f = Panic \<longleftrightarrow> r = Panic \<or> (\<exists>x. r = Ok x \<and> f x = Panic)"
  by (cases r) auto

lemma map_err_Ok_iff [simp]: "map_err g r = Ok x \<longleftrightarrow> r = Ok x"
  by (cases r) auto

lemma ok_or_Ok_iff [simp]: "ok_or e v = Ok x \<longleftrightarrow> v = Some x"
  by (cases v) auto

lemma ok_or_not_Panic [simp]: "ok_or e v \<noteq> Panic"
  by (cases v) auto

lemma unwrap_opt_Ok_iff [simp]: "unwrap_opt v = Ok x \<longleftrightarrow> v = Some x"
  by (cases v) auto

lemma ensure_Ok_iff: "ensure b e = Ok u \<longleftrightarrow> b"
  by simp

lemma for_each_Ok_iff [simp]:
  "for_each f xs = Ok u \<longleftrightarrow> (\<forall>x \<in> set xs. f x = Ok ())"
  by (induction xs) auto

lemma for_each_no_Panic:
  "(\<And>x. x \<in> set xs \<Longrightarrow> f x \<noteq> Panic) \<Longrightarrow> for_each f xs \<noteq> Panic"
  by (induction xs) (auto simp: and_then_Panic_iff)

subsection \<open>Methods with \<open>&mut self\<close>\<close>

text \<open>
  A method changes its state even when it ends in an error, so the new state comes with
  every outcome.
\<close>

type_synonym ('s, 'e, 'a) io = "'s \<Rightarrow> ('e, 'a) outcome \<times> 's"

definition io_ok :: "'a \<Rightarrow> ('s, 'e, 'a) io" where
  "io_ok x s = (Ok x, s)"

definition io_lift :: "('e, 'a) outcome \<Rightarrow> ('s, 'e, 'a) io" where
  "io_lift r s = (r, s)"

definition io_mod :: "('s \<Rightarrow> 's) \<Rightarrow> ('s, 'e, unit) io" where
  "io_mod f s = (Ok (), f s)"

definition io_get :: "('s \<Rightarrow> 'a) \<Rightarrow> ('s, 'e, 'a) io" where
  "io_get f s = (Ok (f s), s)"

text \<open>A fallible query of the state, and an operation chosen by the current state.\<close>

definition io_query :: "('s \<Rightarrow> ('e, 'a) outcome) \<Rightarrow> ('s, 'e, 'a) io" where
  "io_query f s = (f s, s)"

definition io_self :: "('s \<Rightarrow> ('s, 'e, 'a) io) \<Rightarrow> ('s, 'e, 'a) io" where
  "io_self f s = f s s"

definition io_bind :: "('s, 'e, 'a) io \<Rightarrow> ('a \<Rightarrow> ('s, 'e, 'b) io) \<Rightarrow> ('s, 'e, 'b) io" where
  "io_bind m f s =
     (case m s of
        (Ok x, s') \<Rightarrow> f x s'
      | (Err e, s') \<Rightarrow> (Err e, s')
      | (Panic, s') \<Rightarrow> (Panic, s')
      | (Exit c, s') \<Rightarrow> (Exit c, s'))"

abbreviation io_then :: "('s, 'e, 'a) io \<Rightarrow> ('s, 'e, 'b) io \<Rightarrow> ('s, 'e, 'b) io" where
  "io_then m n \<equiv> io_bind m (\<lambda>_. n)"

lemma io_ok_run [io_simps]: "io_ok x s = (Ok x, s)"
  by (simp add: io_ok_def)

lemma io_lift_run [io_simps]: "io_lift r s = (r, s)"
  by (simp add: io_lift_def)

lemma io_mod_run [io_simps]: "io_mod f s = (Ok (), f s)"
  by (simp add: io_mod_def)

lemma io_get_run [io_simps]: "io_get f s = (Ok (f s), s)"
  by (simp add: io_get_def)

lemma io_query_run [io_simps]: "io_query f s = (f s, s)"
  by (simp add: io_query_def)

lemma io_self_run [io_simps]: "io_self f s = f s s"
  by (simp add: io_self_def)

lemma io_bind_Ok [io_simps]: "m s = (Ok x, s') \<Longrightarrow> io_bind m f s = f x s'"
  by (simp add: io_bind_def)

lemma io_bind_Err [io_simps]: "m s = (Err e, s') \<Longrightarrow> io_bind m f s = (Err e, s')"
  by (simp add: io_bind_def)

lemma io_bind_Panic [io_simps]: "m s = (Panic, s') \<Longrightarrow> io_bind m f s = (Panic, s')"
  by (simp add: io_bind_def)

lemma io_bind_Exit [io_simps]: "m s = (Exit c, s') \<Longrightarrow> io_bind m f s = (Exit c, s')"
  by (simp add: io_bind_def)

lemma io_bind_OkE:
  assumes "io_bind m f s = (Ok y, t)"
  obtains x s' where "m s = (Ok x, s')" and "f x s' = (Ok y, t)"
  using assms by (auto simp: io_bind_def split: prod.splits outcome.splits)

lemma io_bind_cases:
  assumes "io_bind m f s = (r, t)"
  obtains (ok) x s' where "m s = (Ok x, s')" and "f x s' = (r, t)"
    | (stop) r' where "m s = (r', t)" and "\<And>x. r' \<noteq> Ok x" and "\<And>x. r \<noteq> Ok x"
  using assms by (auto simp: io_bind_def split: prod.splits outcome.splits)

lemma io_bind_assoc: "io_bind (io_bind m f) g = io_bind m (\<lambda>x. io_bind (f x) g)"
  by (rule ext) (simp add: io_bind_def split: prod.splits outcome.splits)

text \<open>A \<open>for\<close> loop whose body is an operation that may fail.\<close>

fun io_for :: "('a \<Rightarrow> ('s, 'e, unit) io) \<Rightarrow> 'a list \<Rightarrow> ('s, 'e, unit) io" where
  "io_for f [] = io_ok ()"
| "io_for f (x # xs) = io_then (f x) (io_for f xs)"

subsection \<open>Invariants of methods\<close>

text \<open>\<open>keeps P m\<close>: whatever the outcome, \<open>m\<close> leaves a state where \<open>P\<close> still holds.\<close>

definition keeps :: "('s \<Rightarrow> bool) \<Rightarrow> ('s, 'e, 'a) io \<Rightarrow> bool" where
  "keeps P m \<longleftrightarrow> (\<forall>s. P s \<longrightarrow> P (snd (m s)))"

lemma keepsI: "(\<And>s. P s \<Longrightarrow> P (snd (m s))) \<Longrightarrow> keeps P m"
  by (simp add: keeps_def)

lemma keepsD: "keeps P m \<Longrightarrow> P s \<Longrightarrow> P (snd (m s))"
  by (simp add: keeps_def)

lemma keeps_run: "keeps P m \<Longrightarrow> m s = (r, s') \<Longrightarrow> P s \<Longrightarrow> P s'"
  by (force simp: keeps_def)

lemma keeps_ok [keeps_intros]: "keeps P (io_ok x)"
  by (simp add: keeps_def io_ok_def)

lemma keeps_lift [keeps_intros]: "keeps P (io_lift r)"
  by (simp add: keeps_def io_lift_def)

lemma keeps_get [keeps_intros]: "keeps P (io_get f)"
  by (simp add: keeps_def io_get_def)

lemma keeps_query [keeps_intros]: "keeps P (io_query f)"
  by (simp add: keeps_def io_query_def)

lemma keeps_self [keeps_intros]: "(\<And>s. keeps P (f s)) \<Longrightarrow> keeps P (io_self f)"
  by (simp add: keeps_def io_self_def)

lemma keeps_mod: "(\<And>s. P s \<Longrightarrow> P (f s)) \<Longrightarrow> keeps P (io_mod f)"
  by (simp add: keeps_def io_mod_def)

lemma keeps_bind [keeps_intros]:
  assumes "keeps P m" and "\<And>x. keeps P (f x)"
  shows "keeps P (io_bind m f)"
proof (rule keepsI)
  fix s assume "P s"
  obtain r s' where m: "m s = (r, s')" by (cases "m s")
  from keeps_run [OF assms(1) m \<open>P s\<close>] have "P s'" .
  with m assms(2) show "P (snd (io_bind m f s))"
    by (auto simp: io_bind_def keeps_def split: outcome.splits)
qed

lemma keeps_if [keeps_intros]: "keeps P m \<Longrightarrow> keeps P n \<Longrightarrow> keeps P (if b then m else n)"
  by simp

lemma keeps_for [keeps_intros]: "(\<And>x. keeps P (f x)) \<Longrightarrow> keeps P (io_for f xs)"
  by (induction xs) (auto intro: keeps_intros)

subsection \<open>The process goes on\<close>

text \<open>\<open>no_exit m\<close>: from no state does \<open>m\<close> end the process.\<close>

definition no_exit :: "('s, 'e, 'a) io \<Rightarrow> bool" where
  "no_exit m \<longleftrightarrow> (\<forall>s x. fst (m s) \<noteq> Exit x)"

lemma no_exitI: "(\<And>s x. fst (m s) \<noteq> Exit x) \<Longrightarrow> no_exit m"
  by (simp add: no_exit_def)

lemma no_exit_run: "no_exit m \<Longrightarrow> m s \<noteq> (Exit x, s')"
  by (metis no_exit_def fst_conv)

lemma no_exit_basic [no_exit_intros]:
  "no_exit (io_ok y)" "no_exit (io_mod g)" "no_exit (io_get h)"
  by (simp_all add: no_exit_def io_ok_def io_mod_def io_get_def)

lemma no_exit_self [no_exit_intros]: "(\<And>s. no_exit (f s)) \<Longrightarrow> no_exit (io_self f)"
  by (simp add: no_exit_def io_self_def)

lemma no_exit_lift: "(\<And>x. r \<noteq> Exit x) \<Longrightarrow> no_exit (io_lift r)"
  by (simp add: no_exit_def io_lift_def)

lemma no_exit_query: "(\<And>s x. f s \<noteq> Exit x) \<Longrightarrow> no_exit (io_query f)"
  by (simp add: no_exit_def io_query_def)

lemma no_exit_bind [no_exit_intros]: "no_exit m \<Longrightarrow> (\<And>x. no_exit (f x)) \<Longrightarrow> no_exit (io_bind m f)"
  by (auto simp: no_exit_def io_bind_def split: prod.split outcome.split) (metis fst_conv)

lemma no_exit_if [no_exit_intros]: "no_exit m \<Longrightarrow> no_exit n \<Longrightarrow> no_exit (if b then m else n)"
  by simp

lemma io_bind_ExitE:
  assumes "io_bind m f s = (Exit x, t)" and "no_exit m"
  obtains a s' where "m s = (Ok a, s')" and "f a s' = (Exit x, t)"
  using assms by (auto simp: io_bind_def no_exit_def split: prod.splits outcome.splits) (metis fst_conv)

lemma and_then_Exit: "and_then r f = Exit x \<longleftrightarrow> r = Exit x \<or> (\<exists>a. r = Ok a \<and> f a = Exit x)"
  by (cases r) auto

subsection \<open>Contract: a machine that reacts to events\<close>

text \<open>
  The program's long-lived threads read events from a channel and update their state. The
  contract names the step and an invariant it keeps; a run over any list of events keeps it.
\<close>

locale event_machine =
  fixes step :: "'s \<Rightarrow> 'e \<Rightarrow> 's"
    and inv :: "'s \<Rightarrow> bool"
  assumes step_inv: "inv s \<Longrightarrow> inv (step s e)"
begin

lemma run_inv: "inv s \<Longrightarrow> inv (foldl step s es)"
  by (induction es arbitrary: s) (auto intro: step_inv)

lemma run_prefix_inv: "inv s \<Longrightarrow> inv (foldl step s (take n es))"
  by (rule run_inv)

end

subsection \<open>Contract: a codec\<close>

locale codec =
  fixes enc :: "'a \<Rightarrow> 'b"
    and dec :: "'b \<Rightarrow> 'a option"
    and dom_ok :: "'a \<Rightarrow> bool"
  assumes dec_enc: "dom_ok x \<Longrightarrow> dec (enc x) = Some x"
begin

lemma enc_inj: "dom_ok x \<Longrightarrow> dom_ok y \<Longrightarrow> enc x = enc y \<Longrightarrow> x = y"
  by (metis dec_enc option.inject)

lemma enc_inj_on: "inj_on enc {x. dom_ok x}"
  by (rule inj_onI) (auto intro: enc_inj)

end

end
