(* ===== verification/Rust_Strings.thy ===== *)
theory Rust_Strings
  imports Rust_Prelude "HOL-Library.Sublist" "HOL-Library.Char_ord" "HOL-Library.List_Lexorder"
begin

text \<open>
  The part of Rust's standard library on strings and paths that the program uses. A Rust
  \<open>String\<close> is its UTF-8 bytes, here a \<open>string\<close> (a \<open>char\<close> is one byte), so \<open>length\<close> is
  \<open>len()\<close> and \<open>as_bytes\<close> only changes the type. The order on \<open>string\<close> is the byte order,
  which is Rust's. Paths are Unix paths.
\<close>

subsection \<open>Bytes and text\<close>

definition as_bytes :: "string \<Rightarrow> bytes" where
  "as_bytes s = map of_char s"

definition of_bytes :: "bytes \<Rightarrow> string" where
  "of_bytes bs = map (\<lambda>b. char_of (unat b)) bs"

lemma char_of_word: "(of_char (char_of (unat (w :: u8)) :: char) :: u8) = w"
proof -
  have "unat w < 256" using unsigned_less [of w, where ?'a = nat] by simp
  then have "(of_char (char_of (unat w) :: char) :: nat) = unat w" by simp
  then have "(of_nat (of_char (char_of (unat w) :: char)) :: u8) = of_nat (unat w)" by simp
  then show ?thesis by (simp only: of_nat_of_char of_nat_unat ucast_id)
qed

lemma char_of_unat: "char_of (unat (of_char c :: u8)) = c"
proof -
  have b: "(of_char c :: nat) < 256" by simp
  have "unat (of_nat (of_char c) :: u8) = of_char c mod 256"
    by (simp only: unat_of_nat len_num1 len_bit0) simp
  then have "unat (of_char c :: u8) = of_char c"
    using b by (simp only: of_nat_of_char) simp
  then show ?thesis by simp
qed

lemma of_bytes_as_bytes [simp]: "of_bytes (as_bytes s) = s"
  by (simp add: of_bytes_def as_bytes_def comp_def char_of_unat)

lemma as_bytes_of_bytes [simp]: "as_bytes (of_bytes bs) = bs"
  by (simp add: of_bytes_def as_bytes_def comp_def char_of_word)

lemma length_as_bytes [simp]: "length (as_bytes s) = length s"
  by (simp add: as_bytes_def)

lemma length_of_bytes [simp]: "length (of_bytes s) = length s"
  by (simp add: of_bytes_def)

lemma as_bytes_Nil [simp]: "as_bytes [] = []" "as_bytes s = [] \<longleftrightarrow> s = []"
  by (simp_all add: as_bytes_def)

lemma as_bytes_append [simp]: "as_bytes (s @ t) = as_bytes s @ as_bytes t"
  by (simp add: as_bytes_def)

lemma as_bytes_inj [simp]: "as_bytes s = as_bytes t \<longleftrightarrow> s = t"
  by (metis of_bytes_as_bytes)

subsection \<open>Searching, replacing, splitting\<close>

definition starts_with :: "string \<Rightarrow> string \<Rightarrow> bool" where
  "starts_with p s \<longleftrightarrow> take (length p) s = p"

definition ends_with :: "string \<Rightarrow> string \<Rightarrow> bool" where
  "ends_with p s \<longleftrightarrow> starts_with (rev p) (rev s)"

fun contains_str :: "string \<Rightarrow> string \<Rightarrow> bool" where
  "contains_str p [] = (p = [])"
| "contains_str p (c # cs) = (starts_with p (c # cs) \<or> contains_str p cs)"

abbreviation contains_char :: "char \<Rightarrow> string \<Rightarrow> bool" where
  "contains_char c s \<equiv> c \<in> set s"

definition replace_char :: "char \<Rightarrow> char \<Rightarrow> string \<Rightarrow> string" where
  "replace_char a b s = map (\<lambda>c. if c = a then b else c) s"

text \<open>\<open>str::replace\<close>: matches are taken from the left and do not overlap.\<close>

fun replace_pair :: "char \<Rightarrow> char \<Rightarrow> string \<Rightarrow> string \<Rightarrow> string" where
  "replace_pair a b t (x # y # s) =
     (if x = a \<and> y = b then t @ replace_pair a b t s else x # replace_pair a b t (y # s))"
| "replace_pair a b t s = s"

fun split_on :: "char \<Rightarrow> string \<Rightarrow> string list" where
  "split_on c [] = [[]]"
| "split_on c (x # xs) =
     (if x = c then [] # split_on c xs
      else (case split_on c xs of [] \<Rightarrow> [[x]] | p # ps \<Rightarrow> (x # p) # ps))"

fun join_with :: "char \<Rightarrow> string list \<Rightarrow> string" where
  "join_with c [] = []"
| "join_with c [p] = p"
| "join_with c (p # q # ps) = p @ c # join_with c (q # ps)"

lemma starts_with_iff_prefix: "starts_with p s \<longleftrightarrow> prefix p s"
  unfolding starts_with_def prefix_def by (metis append_eq_conv_conj)

lemma split_on_nonempty [simp]: "split_on c s \<noteq> []"
  by (induction s) (auto split: list.splits)

lemma join_split [simp]: "join_with c (split_on c s) = s"
proof (induction s)
  case Nil
  then show ?case by simp
next
  case (Cons x s)
  obtain p ps where s: "split_on c s = p # ps"
    by (cases "split_on c s") auto
  with Cons show ?case by (cases ps) auto
qed

lemma split_on_parts: "p \<in> set (split_on c s) \<Longrightarrow> c \<notin> set p"
proof (induction s arbitrary: p)
  case Nil
  then show ?case by simp
next
  case (Cons x s)
  obtain q qs where "split_on c s = q # qs"
    by (cases "split_on c s") auto
  with Cons show ?case by (auto split: if_splits)
qed

lemma split_on_subset: "p \<in> set (split_on c s) \<Longrightarrow> set p \<subseteq> set s"
proof (induction s arbitrary: p)
  case Nil
  then show ?case by simp
next
  case (Cons x s)
  obtain q qs where "split_on c s = q # qs"
    by (cases "split_on c s") auto
  with Cons show ?case by (fastforce split: if_splits)
qed

lemma split_on_covers: "set s \<subseteq> insert c (\<Union>p \<in> set (split_on c s). set p)"
proof (induction s)
  case Nil
  then show ?case by simp
next
  case (Cons x s)
  obtain q qs where "split_on c s = q # qs"
    by (cases "split_on c s") auto
  with Cons show ?case by auto
qed

lemma split_on_append: "split_on c (s @ c # t) = split_on c s @ split_on c t"
proof (induction s)
  case Nil
  then show ?case by simp
next
  case (Cons x s)
  obtain q qs where "split_on c s = q # qs"
    by (cases "split_on c s") auto
  with Cons show ?case by simp
qed

lemma split_on_map:
  assumes "\<And>x. f x = c \<longleftrightarrow> x = c"
  shows "split_on c (map f s) = map (map f) (split_on c s)"
proof (induction s)
  case Nil
  then show ?case by simp
next
  case (Cons x s)
  obtain q qs where "split_on c s = q # qs"
    by (cases "split_on c s") auto
  with Cons assms [of x] show ?case by simp
qed

lemma split_on_none: "c \<notin> set s \<Longrightarrow> split_on c s = [s]"
  by (induction s) auto

lemma split_on_first: "c \<notin> set p \<Longrightarrow> split_on c (p @ c # s) = p # split_on c s"
  by (induction p) auto

lemma replace_char_id: "a \<notin> set s \<Longrightarrow> replace_char a b s = s"
  unfolding replace_char_def by (induction s) auto

lemma replace_char_fixpoint: "replace_char a b s = s \<Longrightarrow> a \<noteq> b \<Longrightarrow> a \<notin> set s"
  unfolding replace_char_def by (induction s) (auto split: if_splits)

lemma set_replace_char: "set (replace_char a b s) \<subseteq> (set s - {a}) \<union> {b}"
  unfolding replace_char_def by auto

subsection \<open>Trimming\<close>

text \<open>
  The UTF-8 encodings of the characters with the Unicode property White_Space, which
  \<open>str::trim\<close> removes at both ends.
\<close>

definition ws_seqs :: "string list" where
  "ws_seqs = map (map char_of :: nat list \<Rightarrow> string)
     ([[9], [10], [11], [12], [13], [32], [0xC2, 0x85], [0xC2, 0xA0], [0xE1, 0x9A, 0x80]]
      @ map (\<lambda>k. [0xE2, 0x80, 0x80 + k]) [0..<11]
      @ [[0xE2, 0x80, 0xA8], [0xE2, 0x80, 0xA9], [0xE2, 0x80, 0xAF],
         [0xE2, 0x81, 0x9F], [0xE3, 0x80, 0x80]])"

text \<open>Strip, from the front, any of the sequences as long as one of them is there.\<close>

fun strip_front :: "string list \<Rightarrow> nat \<Rightarrow> string \<Rightarrow> string" where
  "strip_front ws 0 s = s"
| "strip_front ws (Suc n) s =
     (case find (\<lambda>w. starts_with w s) ws of
        None \<Rightarrow> s
      | Some w \<Rightarrow> strip_front ws n (drop (length w) s))"

definition trim_start :: "string \<Rightarrow> string" where
  "trim_start s = strip_front ws_seqs (length s) s"

definition trim_end :: "string \<Rightarrow> string" where
  "trim_end s = rev (strip_front (map rev ws_seqs) (length s) (rev s))"

definition trim :: "string \<Rightarrow> string" where
  "trim s = trim_end (trim_start s)"

definition no_ws_front :: "string list \<Rightarrow> string \<Rightarrow> bool" where
  "no_ws_front ws s \<longleftrightarrow> (\<forall>w \<in> set ws. \<not> starts_with w s)"

lemma ws_seqs_nonempty: "w \<in> set ws_seqs \<Longrightarrow> w \<noteq> []"
  by (auto simp: ws_seqs_def)

lemma strip_front_id: "no_ws_front ws s \<Longrightarrow> strip_front ws n s = s"
proof (cases n)
  case (Suc m)
  assume "no_ws_front ws s"
  then have "find (\<lambda>w. starts_with w s) ws = None"
    by (simp add: find_None_iff no_ws_front_def)
  with Suc show ?thesis by simp
qed simp

lemma strip_front_suffix: "suffix (strip_front ws n s) s"
proof (induction n arbitrary: s)
  case 0
  then show ?case by simp
next
  case (Suc n)
  have "suffix (strip_front ws n (drop k s)) s" for k
    using Suc.IH [of "drop k s"] suffix_drop suffix_order.trans by blast
  then show ?case by (simp split: option.split)
qed

lemma strip_front_done:
  assumes "\<And>w. w \<in> set ws \<Longrightarrow> w \<noteq> []" and "length s \<le> n"
  shows "no_ws_front ws (strip_front ws n s)"
  using assms(2)
proof (induction n arbitrary: s)
  case 0
  with assms(1) show ?case by (auto simp: no_ws_front_def starts_with_def)
next
  case (Suc n)
  show ?case
  proof (cases "find (\<lambda>w. starts_with w s) ws")
    case None
    moreover from this have "no_ws_front ws s" by (simp add: find_None_iff no_ws_front_def)
    ultimately show ?thesis by simp
  next
    case (Some w)
    then have w: "w \<in> set ws" by (auto simp: find_Some_iff in_set_conv_nth)
    with assms(1) have "0 < length w" by auto
    with Suc.prems have "length (drop (length w) s) \<le> n" by (simp only: length_drop)
    with Some Suc.IH show ?thesis by simp
  qed
qed

lemma trim_end_prefix: "prefix (trim_end s) s"
  using strip_front_suffix [of "map rev ws_seqs" "length s" "rev s"]
  by (simp add: trim_end_def suffix_to_prefix)

lemma trim_start_suffix: "suffix (trim_start s) s"
  by (simp add: trim_start_def strip_front_suffix)

lemma trim_subset: "set (trim s) \<subseteq> set s"
  using set_mono_prefix [OF trim_end_prefix [of "trim_start s"]]
    set_mono_suffix [OF trim_start_suffix [of s]] by (auto simp: trim_def)

definition trimmed :: "string \<Rightarrow> bool" where
  "trimmed s \<longleftrightarrow> no_ws_front ws_seqs s \<and> no_ws_front (map rev ws_seqs) (rev s)"

lemma trimmed_id: "trimmed s \<Longrightarrow> trim s = s"
  by (simp add: trimmed_def trim_def trim_start_def trim_end_def strip_front_id)

lemma trimmed_trim: "trimmed (trim s)"
proof -
  have a: "no_ws_front ws_seqs (trim_start s)"
    unfolding trim_start_def by (rule strip_front_done) (auto dest: ws_seqs_nonempty)
  have "no_ws_front ws_seqs (trim s)"
    unfolding no_ws_front_def
  proof
    fix w assume "w \<in> set ws_seqs"
    with a have "\<not> prefix w (trim_start s)"
      by (simp add: no_ws_front_def starts_with_iff_prefix)
    then show "\<not> starts_with w (trim s)"
      using trim_end_prefix prefix_order.trans by (auto simp: trim_def starts_with_iff_prefix)
  qed
  moreover have "no_ws_front (map rev ws_seqs) (rev (trim s))"
    unfolding trim_def trim_end_def rev_rev_ident
    by (rule strip_front_done) (auto dest: ws_seqs_nonempty)
  ultimately show ?thesis by (simp add: trimmed_def)
qed

lemma trim_idem [simp]: "trim (trim s) = trim s"
  by (rule trimmed_id [OF trimmed_trim])

text \<open>Text of printable ASCII characters needs no trimming.\<close>

definition printable :: "char \<Rightarrow> bool" where
  "printable c \<longleftrightarrow> 32 < (of_char c :: nat) \<and> (of_char c :: nat) < 127"

lemma ws_ends: "list_all (\<lambda>w. w \<noteq> [] \<and> \<not> printable (hd w) \<and> \<not> printable (last w)) ws_seqs"
  by code_simp

lemma no_ws_printable:
  assumes "list_all (\<lambda>w. w \<noteq> [] \<and> \<not> printable (hd w)) ws" and "list_all printable s"
  shows "no_ws_front ws s"
  unfolding no_ws_front_def
proof
  fix w assume "w \<in> set ws"
  with assms(1) obtain c w' where w: "w = c # w'" "\<not> printable c"
    by (cases w) (auto simp: list_all_iff)
  with assms(2) show "\<not> starts_with w s"
    by (cases s) (auto simp: starts_with_def)
qed

lemma trim_printable: "list_all printable s \<Longrightarrow> trim s = s"
proof (rule trimmed_id)
  assume s: "list_all printable s"
  have "no_ws_front ws_seqs s"
    using ws_ends by (intro no_ws_printable s) (auto simp: list_all_iff)
  moreover have "no_ws_front (map rev ws_seqs) (rev s)"
    using ws_ends s by (intro no_ws_printable) (auto simp: list_all_iff hd_rev)
  ultimately show "trimmed s" by (simp add: trimmed_def)
qed

subsection \<open>Case\<close>

text \<open>
  \<open>str::to_lowercase\<close>: on ASCII text it changes the letters A to Z only. For text with other
  characters the Unicode tables decide, which are the parameter \<open>uni\<close>.
\<close>

definition ascii_lower :: "char \<Rightarrow> char" where
  "ascii_lower c = (if 65 \<le> (of_char c :: nat) \<and> (of_char c :: nat) \<le> 90
                    then char_of ((of_char c :: nat) + 32) else c)"

definition is_ascii :: "string \<Rightarrow> bool" where
  "is_ascii s \<longleftrightarrow> (\<forall>c \<in> set s. (of_char c :: nat) < 128)"

definition to_lowercase :: "(string \<Rightarrow> string) \<Rightarrow> string \<Rightarrow> string" where
  "to_lowercase uni s = (if is_ascii s then map ascii_lower s else uni s)"

subsection \<open>Decimal numbers\<close>

definition digit :: "nat \<Rightarrow> char" where
  "digit d = char_of (48 + d)"

fun show_nat :: "nat \<Rightarrow> string" where
  "show_nat n = (if n < 10 then [digit n] else show_nat (n div 10) @ [digit (n mod 10)])"

declare show_nat.simps [simp del]

definition digit_val :: "char \<Rightarrow> nat option" where
  "digit_val c = (let k = (of_char c :: nat) in if 48 \<le> k \<and> k \<le> 57 then Some (k - 48) else None)"

fun parse_digits :: "nat \<Rightarrow> string \<Rightarrow> nat option" where
  "parse_digits acc [] = Some acc"
| "parse_digits acc (c # cs) =
     (case digit_val c of None \<Rightarrow> None | Some d \<Rightarrow> parse_digits (10 * acc + d) cs)"

definition parse_nat :: "string \<Rightarrow> nat option" where
  "parse_nat s = (if s = [] then None else parse_digits 0 s)"

text \<open>
  \<open>str::parse\<close> for an unsigned integer with largest value \<open>m\<close>: an optional \<open>+\<close>, at least one
  digit, only digits, no overflow. For \<open>i32\<close> also an optional \<open>-\<close>.
\<close>

definition parse_unsigned :: "nat \<Rightarrow> string \<Rightarrow> nat option" where
  "parse_unsigned m s =
     (case (case s of [] \<Rightarrow> None | c # cs \<Rightarrow> parse_nat (if c = CHR ''+'' then cs else s)) of
        None \<Rightarrow> None
      | Some n \<Rightarrow> if n \<le> m then Some n else None)"

definition parse_i32 :: "string \<Rightarrow> int option" where
  "parse_i32 s =
     (case s of
        [] \<Rightarrow> None
      | c # cs \<Rightarrow>
          if c = CHR ''-'' then
            (case parse_nat cs of None \<Rightarrow> None
             | Some n \<Rightarrow> if n \<le> 2 ^ 31 then Some (- int n) else None)
          else map_option int (parse_unsigned (2 ^ 31 - 1) s))"

lemma of_char_digit: "d < 10 \<Longrightarrow> (of_char (digit d) :: nat) = 48 + d"
  by (simp add: digit_def)

lemma digit_val_digit [simp]: "d < 10 \<Longrightarrow> digit_val (digit d) = Some d"
  by (simp add: digit_val_def of_char_digit)

lemma parse_digits_append:
  "parse_digits acc (s @ t) =
     (case parse_digits acc s of None \<Rightarrow> None | Some a \<Rightarrow> parse_digits a t)"
  by (induction acc s rule: parse_digits.induct) (auto split: option.split)

lemma parse_digits_show: "parse_digits 0 (show_nat n) = Some n"
proof (induction n rule: show_nat.induct)
  case (1 n)
  show ?case
  proof (cases "n < 10")
    case True
    then show ?thesis by (subst show_nat.simps) simp
  next
    case False
    with 1 show ?thesis by (subst show_nat.simps) (simp add: parse_digits_append)
  qed
qed

lemma show_nat_nonempty [simp]: "show_nat n \<noteq> []"
  by (subst show_nat.simps) simp

lemma show_nat_chars: "c \<in> set (show_nat n) \<Longrightarrow> 48 \<le> (of_char c :: nat) \<and> (of_char c :: nat) \<le> 57"
proof (induction n arbitrary: c rule: show_nat.induct)
  case (1 n)
  show ?case
  proof (cases "n < 10")
    case True
    with "1.prems" show ?thesis by (subst (asm) show_nat.simps) (auto simp: of_char_digit)
  next
    case False
    from "1.prems" False have "c \<in> set (show_nat (n div 10)) \<or> c = digit (n mod 10)"
      by (subst (asm) show_nat.simps) auto
    with "1.IH" [OF False] show ?thesis by (auto simp: of_char_digit)
  qed
qed

lemma parse_unsigned_show: "n \<le> m \<Longrightarrow> parse_unsigned m (show_nat n) = Some n"
proof -
  assume "n \<le> m"
  obtain c cs where s: "show_nat n = c # cs" by (cases "show_nat n") auto
  then have "c \<noteq> CHR ''+''" using show_nat_chars [of c n] by auto
  then show ?thesis
    using s parse_digits_show [of n] \<open>n \<le> m\<close> by (simp add: parse_unsigned_def parse_nat_def)
qed

lemma parse_unsigned_bound: "parse_unsigned m s = Some n \<Longrightarrow> n \<le> m"
  by (auto simp: parse_unsigned_def split: option.splits if_splits)

lemma colon_not_in_show: "CHR '':'' \<notin> set (show_nat n)"
  using show_nat_chars by fastforce

interpretation decimal: codec show_nat "parse_unsigned (2 ^ 64 - 1)" "\<lambda>n. n \<le> 2 ^ 64 - 1"
  by unfold_locales (rule parse_unsigned_show)

subsection \<open>Lines\<close>

text \<open>\<open>str::lines\<close>: split at \<open>\n\<close>, drop one \<open>\r\<close> before it, no empty last line.\<close>

definition newline :: char where
  "newline = char_of (10 :: nat)"

definition strip_cr :: "string \<Rightarrow> string" where
  "strip_cr s = (if s \<noteq> [] \<and> last s = char_of (13 :: nat) then butlast s else s)"

definition str_lines :: "string \<Rightarrow> string list" where
  "str_lines s =
     (let ps = split_on newline s
      in map strip_cr (butlast ps) @ (if last ps = [] then [] else [last ps]))"

lemma split_on_unlines:
  "\<forall>l \<in> set ls. c \<notin> set l \<Longrightarrow> split_on c (concat (map (\<lambda>l. l @ [c]) ls)) = ls @ [[]]"
  by (induction ls) (auto simp: split_on_first)

lemma str_lines_unlines:
  assumes "\<forall>l \<in> set ls. newline \<notin> set l"
  shows "str_lines (concat (map (\<lambda>l. l @ [newline]) ls)) = map strip_cr ls"
  using split_on_unlines [OF assms] by (simp add: str_lines_def Let_def)

subsection \<open>Unix paths\<close>

definition path_sep :: char where
  "path_sep = CHR ''/''"

text \<open>
  \<open>Path::iter\<close>: the root, then the parts between separators without empty parts and without
  \<open>.\<close>, except a leading \<open>.\<close> of a relative path.
\<close>

definition path_iter :: "string \<Rightarrow> string list" where
  "path_iter s =
     (let parts = split_on path_sep s;
          normal = filter (\<lambda>p. p \<noteq> [] \<and> p \<noteq> ''.'')
      in if starts_with [path_sep] s then [path_sep] # normal parts
         else (if hd parts = ''.'' then [''.''] else []) @ normal parts)"

text \<open>\<open>Path::file_name\<close>: the last component, if it is a normal one.\<close>

definition path_file_name :: "string \<Rightarrow> string option" where
  "path_file_name s =
     (let cs = path_iter s
      in if cs = [] \<or> last cs \<in> {[path_sep], ''.'', ''..''} then None else Some (last cs))"

text \<open>\<open>PathBuf::push\<close>.\<close>

definition path_push :: "string \<Rightarrow> string \<Rightarrow> string" where
  "path_push base name =
     (if starts_with [path_sep] name then name
      else if base = [] \<or> ends_with [path_sep] base then base @ name
      else base @ [path_sep] @ name)"

lemma path_iter_parts:
  "p \<in> set (path_iter s) \<Longrightarrow> p = [path_sep] \<or> path_sep \<notin> set p"
  using split_on_parts [of p path_sep s]
  by (auto simp: path_iter_def Let_def path_sep_def split: if_splits)

lemma path_iter_map:
  assumes sep: "\<And>x. f x = path_sep \<longleftrightarrow> x = path_sep"
    and dot: "\<And>x. f x = CHR ''.'' \<longleftrightarrow> x = CHR ''.''"
  shows "path_iter (map f s) = map (map f) (path_iter s)"
proof -
  have d: "map f p = ''.'' \<longleftrightarrow> p = ''.''" for p by (auto simp: dot)
  have fix_sep: "f path_sep = path_sep" and fix_dot: "f (CHR ''.'') = CHR ''.''"
    by (simp_all add: sep dot)
  have flt: "filter (\<lambda>p. p \<noteq> [] \<and> p \<noteq> ''.'') (map (map f) ps)
      = map (map f) (filter (\<lambda>p. p \<noteq> [] \<and> p \<noteq> ''.'') ps)" for ps
    by (induction ps) (simp_all add: d)
  have st: "starts_with [path_sep] (map f s) = starts_with [path_sep] s"
    by (cases s) (auto simp: starts_with_def sep)
  show ?thesis
    unfolding path_iter_def Let_def split_on_map [of f, OF sep] flt st
    by (simp add: hd_map d fix_sep fix_dot)
qed

lemma path_file_name_single:
  assumes "path_file_name s = Some n"
  shows "path_sep \<notin> set n" and "n \<noteq> ''..''" and "n \<noteq> ''.''" and "n \<noteq> []"
proof -
  from assms have n: "n \<in> set (path_iter s)" "n \<noteq> [path_sep]" "n \<noteq> ''..''" "n \<noteq> ''.''"
    by (auto simp: path_file_name_def Let_def split: if_splits)
  then show "n \<noteq> ''..''" "n \<noteq> ''.''" by simp_all
  from n path_iter_parts show "path_sep \<notin> set n" by blast
  from n show "n \<noteq> []"
    by (auto simp: path_iter_def Let_def split: if_splits)
qed

lemma path_iter_append_sep:
  assumes "d \<noteq> []" and "path_sep \<notin> set n" and "n \<noteq> []" and "n \<noteq> ''.''"
  shows "path_iter (d @ path_sep # n) = path_iter d @ [n]"
proof -
  have "split_on path_sep (d @ path_sep # n) = split_on path_sep d @ [n]"
    by (simp add: split_on_append split_on_none assms(2))
  moreover have "starts_with [path_sep] (d @ path_sep # n) = starts_with [path_sep] d"
    using assms(1) by (cases d) (simp_all add: starts_with_def)
  ultimately show ?thesis
    using assms by (simp add: path_iter_def Let_def)
qed

lemma path_iter_trailing_sep:
  assumes "d \<noteq> []"
  shows "path_iter (d @ [path_sep]) = path_iter d"
proof -
  have "split_on path_sep (d @ [path_sep]) = split_on path_sep d @ [[]]"
    by (simp add: split_on_append)
  moreover have "starts_with [path_sep] (d @ [path_sep]) = starts_with [path_sep] d"
    using assms by (cases d) (simp_all add: starts_with_def)
  ultimately show ?thesis by (simp add: path_iter_def Let_def)
qed

lemma path_iter_single:
  "path_sep \<notin> set n \<Longrightarrow> n \<noteq> [] \<Longrightarrow> n \<noteq> ''.'' \<Longrightarrow> path_iter n = [n]"
  by (cases n) (auto simp: path_iter_def Let_def split_on_none starts_with_def)

lemma ends_with_sep: "ends_with [c] s \<longleftrightarrow> (\<exists>t. s = t @ [c])"
proof (cases s rule: rev_cases)
  case (snoc t x)
  then show ?thesis by (auto simp: ends_with_def starts_with_def)
qed (simp add: ends_with_def starts_with_def)

text \<open>Pushing one component adds it to the components.\<close>

lemma path_iter_push:
  assumes "path_sep \<notin> set n" and "n \<noteq> []" and "n \<noteq> ''.''"
  shows "path_iter (path_push d n) = path_iter d @ [n]"
proof -
  have rel: "\<not> starts_with [path_sep] n" using assms by (cases n) (auto simp: starts_with_def)
  show ?thesis
  proof (cases "ends_with [path_sep] d")
    case True
    then obtain t where d: "d = t @ [path_sep]" by (auto simp: ends_with_sep)
    show ?thesis
    proof (cases "t = []")
      case True
      have "path_iter (path_sep # n) = [path_sep] # [n]"
        using assms by (simp add: path_iter_def Let_def starts_with_def split_on_none)
      moreover have "path_iter [path_sep] = [[path_sep]]"
        by (simp add: path_iter_def Let_def starts_with_def)
      ultimately show ?thesis using True d rel by (simp add: path_push_def ends_with_def starts_with_def)
    next
      case False
      with True d rel show ?thesis
        using path_iter_append_sep [OF False assms] path_iter_trailing_sep [OF False]
        by (simp add: path_push_def)
    qed
  next
    case False
    show ?thesis
    proof (cases "d = []")
      case True
      then show ?thesis using rel path_iter_single [OF assms]
        by (simp add: path_push_def) (simp add: path_iter_def starts_with_def)
    next
      case dn: False
      then show ?thesis using rel False path_iter_append_sep [OF dn assms]
        by (simp add: path_push_def)
    qed
  qed
qed

end
