(* ===== verification/Rust_Bytes.thy ===== *)
theory Rust_Bytes
  imports Rust_Strings
begin

text \<open>
  Byte buffers: big-endian integers (\<open>to_be_bytes\<close>, \<open>from_be_bytes\<close>), slices with their
  panics (\<open>buf[a..b]\<close>) and \<open>copy_from_slice\<close> into a fixed buffer.
\<close>

subsection \<open>Big-endian integers\<close>

fun be_enc :: "nat \<Rightarrow> nat \<Rightarrow> bytes" where
  "be_enc 0 n = []"
| "be_enc (Suc k) n = of_nat (n div 256 ^ k) # be_enc k n"

fun be_dec :: "bytes \<Rightarrow> nat" where
  "be_dec [] = 0"
| "be_dec (b # bs) = unat b * 256 ^ length bs + be_dec bs"

lemma length_be_enc [simp]: "length (be_enc k n) = k"
  by (induction k) auto

lemma be_dec_bound: "be_dec bs < 256 ^ length bs"
proof (induction bs)
  case Nil
  then show ?case by simp
next
  case (Cons b bs)
  have "unat b \<le> 255" using unsigned_less [of b, where ?'a = nat] by simp
  then have "unat b * 256 ^ length bs \<le> 255 * 256 ^ length bs" by (rule mult_le_mono1)
  with Cons have "unat b * 256 ^ length bs + be_dec bs < 255 * 256 ^ length bs + 256 ^ length bs"
    by linarith
  then show ?case by simp
qed

lemma be_dec_enc_mod: "be_dec (be_enc k n) = n mod 256 ^ k"
proof (induction k)
  case 0
  then show ?case by simp
next
  case (Suc k)
  have "unat (of_nat (n div 256 ^ k) :: u8) = n div 256 ^ k mod 256"
    by (simp add: unat_of_nat)
  moreover have "n mod (256 ^ k * 256) = 256 ^ k * (n div 256 ^ k mod 256) + n mod 256 ^ k"
    by (rule mod_mult2_eq)
  ultimately show ?case using Suc by (simp add: mult.commute)
qed

lemma be_dec_enc [simp]: "n < 256 ^ k \<Longrightarrow> be_dec (be_enc k n) = n"
  by (simp add: be_dec_enc_mod)

lemma be_enc_inj: "m < 256 ^ k \<Longrightarrow> n < 256 ^ k \<Longrightarrow> be_enc k m = be_enc k n \<Longrightarrow> m = n"
  by (metis be_dec_enc)

interpretation be_u16: codec "be_enc 2" "\<lambda>bs. if length bs = 2 then Some (be_dec bs) else None"
    "\<lambda>n. n < 2 ^ 16"
  by unfold_locales simp

interpretation be_u32: codec "be_enc 4" "\<lambda>bs. if length bs = 4 then Some (be_dec bs) else None"
    "\<lambda>n. n < 2 ^ 32"
  by unfold_locales simp

interpretation be_u64: codec "be_enc 8" "\<lambda>bs. if length bs = 8 then Some (be_dec bs) else None"
    "\<lambda>n. n < 2 ^ 64"
  by unfold_locales simp

subsection \<open>Slices\<close>

definition slice :: "nat \<Rightarrow> nat \<Rightarrow> 'a list \<Rightarrow> ('e, 'a list) outcome" where
  "slice a b xs = (if a \<le> b \<and> b \<le> length xs then Ok (take (b - a) (drop a xs)) else Panic)"

text \<open>\<open>buf[off..off + src.len()].copy_from_slice(src)\<close>.\<close>

definition copy_at :: "nat \<Rightarrow> 'a list \<Rightarrow> 'a list \<Rightarrow> ('e, 'a list) outcome" where
  "copy_at off src buf =
     (if off + length src \<le> length buf
      then Ok (take off buf @ src @ drop (off + length src) buf) else Panic)"

lemma length_copy_at: "copy_at off src buf = Ok buf' \<Longrightarrow> length buf' = length buf"
  by (auto simp: copy_at_def split: if_splits)

lemma take_copy_at: "copy_at 0 src buf = Ok buf' \<Longrightarrow> take (length src) buf' = src"
  by (auto simp: copy_at_def split: if_splits)

lemma copy_at_Ok:
  "off + length src \<le> length buf \<Longrightarrow>
     copy_at off src buf = Ok (take off buf @ src @ drop (off + length src) buf)"
  by (simp add: copy_at_def)

lemma copy_at_Panic_iff: "copy_at off src buf = Panic \<longleftrightarrow> length buf < off + length src"
  by (auto simp: copy_at_def)

lemma slice_Ok: "a \<le> b \<Longrightarrow> b \<le> length xs \<Longrightarrow> slice a b xs = Ok (take (b - a) (drop a xs))"
  by (simp add: slice_def)

lemma slice_front: "n \<le> length xs \<Longrightarrow> slice 0 n xs = Ok (take n xs)"
  by (simp add: slice_def)

subsection \<open>Wire constants (core_consts.rs)\<close>

definition TRAN_MAGIC_NUMBER :: bytes where
  "TRAN_MAGIC_NUMBER = as_bytes ''TRAQ''"

definition TRAN_API_MAJOR :: nat where "TRAN_API_MAJOR = 10"
definition TRAN_API_MINOR :: nat where "TRAN_API_MINOR = 0"

definition MSG_TYPE_SIZE :: nat where "MSG_TYPE_SIZE = 2"
definition PAYLOAD_SIZE_LEN :: nat where "PAYLOAD_SIZE_LEN = 4"
definition CRC_SIZE :: nat where "CRC_SIZE = 4"

definition MSG_FILE_LIST :: u16 where "MSG_FILE_LIST = 1"
definition MSG_FILE_LIST_PIECE :: u16 where "MSG_FILE_LIST_PIECE = 2"
definition MSG_FILE_LIST_FINAL :: u16 where "MSG_FILE_LIST_FINAL = 3"
definition MSG_FILE_CHUNK :: u16 where "MSG_FILE_CHUNK = 4"
definition MSG_FILE_FINISHED :: u16 where "MSG_FILE_FINISHED = 5"
definition MSG_FILE_INVALID_FILE :: u16 where "MSG_FILE_INVALID_FILE = 6"
definition MSG_CANNOT_SELECT_DIRECTORY :: u16 where "MSG_CANNOT_SELECT_DIRECTORY = 7"
definition MSG_FILE_SELECTION_CONTINUE :: u16 where "MSG_FILE_SELECTION_CONTINUE = 8"
definition MSG_REVERSE :: u16 where "MSG_REVERSE = 9"
definition MSG_REVERSE_NO_LIST :: u16 where "MSG_REVERSE_NO_LIST = 10"

definition CRC_MESSAGES :: "u16 list" where
  "CRC_MESSAGES =
     [MSG_FILE_LIST_PIECE, MSG_FILE_LIST_FINAL, MSG_FILE_CHUNK, MSG_FILE_SELECTION_CONTINUE]"

definition MAX_DATA_SIZE :: nat where "MAX_DATA_SIZE = 100000"
definition CRYPTO_EXTENSION_SIZE :: nat where "CRYPTO_EXTENSION_SIZE = 16"

definition TOTAL_BUFFER_SIZE :: nat where
  "TOTAL_BUFFER_SIZE = MSG_TYPE_SIZE + PAYLOAD_SIZE_LEN + MAX_DATA_SIZE + CRC_SIZE"

definition TOTAL_CRYPTO_BUFFER_SIZE :: nat where
  "TOTAL_CRYPTO_BUFFER_SIZE = TOTAL_BUFFER_SIZE + CRYPTO_EXTENSION_SIZE"

definition PAYLOAD_OFFSET :: nat where
  "PAYLOAD_OFFSET = MSG_TYPE_SIZE + PAYLOAD_SIZE_LEN"

text \<open>\<open>dbg\<close> is \<open>cfg!(debug_assertions)\<close>: the build profile.\<close>

definition DENIED_SLEEP :: "bool \<Rightarrow> nat" where
  "DENIED_SLEEP dbg = (if dbg then 5 else 30)"

lemmas msg_consts =
  MSG_FILE_LIST_def MSG_FILE_LIST_PIECE_def MSG_FILE_LIST_FINAL_def MSG_FILE_CHUNK_def
  MSG_FILE_FINISHED_def MSG_FILE_INVALID_FILE_def MSG_CANNOT_SELECT_DIRECTORY_def
  MSG_FILE_SELECTION_CONTINUE_def MSG_REVERSE_def MSG_REVERSE_NO_LIST_def

lemmas size_consts =
  MSG_TYPE_SIZE_def PAYLOAD_SIZE_LEN_def CRC_SIZE_def MAX_DATA_SIZE_def
  CRYPTO_EXTENSION_SIZE_def TOTAL_BUFFER_SIZE_def TOTAL_CRYPTO_BUFFER_SIZE_def PAYLOAD_OFFSET_def

end
