(* ===== verification/Base64.thy ===== *)
theory Base64
  imports Rust_Bytes
begin

unbundle bit_operations_syntax

text \<open>
  \<open>base64.rs\<close>: the tables, \<open>encode\<close> and \<open>decode\<close> with every error branch and the one index
  that can be out of range, and the round trip with and without padding.
\<close>

subsection \<open>Tables\<close>

definition PADDING_CHAR :: u8 where "PADDING_CHAR = 61"
definition BIT_GROUP_LEN :: nat where "BIT_GROUP_LEN = 6"
definition BAD_IDX :: u8 where "BAD_IDX = 255"

definition TABLE :: bytes where
  "TABLE = as_bytes ''ABCDEFGHIJKLMNOPQRSTUVWXYZabcdefghijklmnopqrstuvwxyz0123456789+/''"

definition TABLE_REVERSE :: bytes where
  "TABLE_REVERSE =
     replicate 43 BAD_IDX @ [62, BAD_IDX, BAD_IDX, BAD_IDX, 63]
     @ [52, 53, 54, 55, 56, 57, 58, 59, 60, 61] @ replicate 7 BAD_IDX
     @ [0, 1, 2, 3, 4, 5, 6, 7, 8, 9, 10, 11, 12, 13, 14, 15, 16, 17, 18, 19, 20, 21, 22, 23, 24, 25]
     @ replicate 6 BAD_IDX
     @ [26, 27, 28, 29, 30, 31, 32, 33, 34, 35, 36, 37, 38, 39, 40, 41, 42, 43, 44, 45, 46, 47, 48,
        49, 50, 51]"

record InvalidBase64String =
  invalid_byte :: "u8 option"
  index :: nat

subsection \<open>Encoding\<close>

text \<open>
  The four six-bit values of a group of three bytes. A missing byte is \<open>unwrap_or(&0)\<close>.
\<close>

definition sextet1 :: "u8 \<Rightarrow> u8" where
  "sextet1 a = drop_bit 2 a"

definition sextet2 :: "u8 \<Rightarrow> u8 \<Rightarrow> u8" where
  "sextet2 a b = push_bit 4 (a AND 3) + drop_bit 4 b"

definition sextet3 :: "u8 \<Rightarrow> u8 \<Rightarrow> u8" where
  "sextet3 b c = push_bit 2 (b AND 15) + drop_bit 6 c"

definition sextet4 :: "u8 \<Rightarrow> u8" where
  "sextet4 c = c AND 63"

text \<open>
  The loop over groups of three bytes: a missing second or third byte counts as 0 in the
  character that straddles it, and then the loop breaks. Every table index is below 64
  (\<open>sextets_small\<close>), so \<open>!\<close> is the source's indexing.
\<close>

fun encode_loop :: "bytes \<Rightarrow> bytes" where
  "encode_loop [] = []"
| "encode_loop [a] = [TABLE ! unat (sextet1 a), TABLE ! unat (sextet2 a 0)]"
| "encode_loop [a, b] =
     [TABLE ! unat (sextet1 a), TABLE ! unat (sextet2 a b), TABLE ! unat (sextet3 b 0)]"
| "encode_loop (a # b # c # rest) =
     [TABLE ! unat (sextet1 a), TABLE ! unat (sextet2 a b), TABLE ! unat (sextet3 b c),
      TABLE ! unat (sextet4 c)] @ encode_loop rest"

definition get_encode_capacity :: "bytes \<Rightarrow> nat" where
  "get_encode_capacity bs =
     (let capacity = (length bs * 8 + (BIT_GROUP_LEN - 1)) div BIT_GROUP_LEN;
          modd = capacity mod 4
      in if modd \<noteq> 0 then capacity + (4 - modd) else capacity)"

definition encode :: "bytes \<Rightarrow> string" where
  "encode bs =
     (if bs = [] then []
      else (let output = encode_loop bs
            in of_bytes (output @ replicate (get_encode_capacity bs - length output) PADDING_CHAR)))"

subsection \<open>Decoding\<close>

definition get_index_of_byte :: "u8 \<Rightarrow> nat \<Rightarrow> (InvalidBase64String, u8) outcome" where
  "get_index_of_byte byte i =
     (if unat byte < length TABLE_REVERSE then
        (let idx = TABLE_REVERSE ! unat byte
         in if idx = BAD_IDX then Err \<lparr>invalid_byte = Some byte, index = i\<rparr> else Ok idx)
      else Err \<lparr>invalid_byte = Some byte, index = i\<rparr>)"

text \<open>The three bytes of a group of four table indices.\<close>

definition octet1 :: "u8 \<Rightarrow> u8 \<Rightarrow> u8" where
  "octet1 index_one index_two = push_bit 2 index_one + drop_bit 4 index_two"

definition octet2 :: "u8 \<Rightarrow> u8 \<Rightarrow> u8" where
  "octet2 index_two index_three = push_bit 4 (index_two AND 15) + drop_bit 2 index_three"

definition octet3 :: "u8 \<Rightarrow> u8 \<Rightarrow> u8" where
  "octet3 index_three index_four = push_bit 6 (index_three AND 3) + index_four"

text \<open>
  The loop of \<open>decode\<close> at index \<open>i\<close>, with the bytes from \<open>i\<close> on. \<open>string_bytes[i + 1]\<close> is
  read without a check; the third and fourth byte may be missing, and \<open>break\<close> leaves the loop.
\<close>

fun decode_loop :: "nat \<Rightarrow> nat \<Rightarrow> bytes \<Rightarrow> (InvalidBase64String, bytes) outcome" where
  "decode_loop bytes_len i [] = Ok []"
| "decode_loop bytes_len i (b0 # r0) =
     and_then (get_index_of_byte b0 i) (\<lambda>index_one.
       (case r0 of
          [] \<Rightarrow> Panic
        | b1 # r1 \<Rightarrow>
            and_then (get_index_of_byte b1 (i + 1)) (\<lambda>index_two.
              let out1 = octet1 index_one index_two in
              (case r1 of
                 [] \<Rightarrow> Ok [out1]
               | b2 # r2 \<Rightarrow>
                   if b2 = PADDING_CHAR then
                     (if i + 2 < bytes_len - 2
                      then Err \<lparr>invalid_byte = Some b2, index = i + 2\<rparr> else Ok [out1])
                   else and_then (get_index_of_byte b2 (i + 2)) (\<lambda>index_three.
                     let out2 = octet2 index_two index_three in
                     (case r2 of
                        [] \<Rightarrow> Ok [out1, out2]
                      | b3 # r3 \<Rightarrow>
                          if b3 = PADDING_CHAR then
                            (if i + 3 < bytes_len - 2
                             then Err \<lparr>invalid_byte = Some b3, index = i + 3\<rparr>
                             else Ok [out1, out2])
                          else and_then (get_index_of_byte b3 (i + 3)) (\<lambda>index_four.
                            let out3 = octet3 index_three index_four in
                            and_then (decode_loop bytes_len (i + 4) r3) (\<lambda>rest.
                              Ok (out1 # out2 # out3 # rest)))))))))"

definition decode :: "string \<Rightarrow> (InvalidBase64String, bytes) outcome" where
  "decode s =
     (let bs = as_bytes s in
      if bs = [] then Ok []
      else if length bs = 1 then Err \<lparr>invalid_byte = None, index = 0\<rparr>
      else if length bs < 4 \<and> bs ! (length bs - 1) = PADDING_CHAR \<and> bs ! (length bs - 2) = PADDING_CHAR
        then Err \<lparr>invalid_byte = None, index = 0\<rparr>
      else decode_loop (length bs) 0 bs)"

definition get_decode_capacity :: "bytes \<Rightarrow> nat" where
  "get_decode_capacity bs =
     length bs * BIT_GROUP_LEN div 8
     - (if bs ! (length bs - 1) = PADDING_CHAR then 1 else 0)
     - (if bs ! (length bs - 2) = PADDING_CHAR then 1 else 0)"

subsection \<open>Tables agree\<close>

lemma length_TABLE [simp]: "length TABLE = 64"
  by (simp add: TABLE_def)

lemma length_TABLE_REVERSE [simp]: "length TABLE_REVERSE = 123"
  by (simp add: TABLE_REVERSE_def)

lemma TABLE_codes:
  "TABLE = [65, 66, 67, 68, 69, 70, 71, 72, 73, 74, 75, 76, 77, 78, 79, 80, 81, 82, 83, 84, 85,
     86, 87, 88, 89, 90, 97, 98, 99, 100, 101, 102, 103, 104, 105, 106, 107, 108, 109, 110, 111,
     112, 113, 114, 115, 116, 117, 118, 119, 120, 121, 122, 48, 49, 50, 51, 52, 53, 54, 55, 56,
     57, 43, 47]"
  by (simp add: TABLE_def as_bytes_def of_char_def)

lemma table_reverse_table: "map (\<lambda>b. TABLE_REVERSE ! unat b) TABLE = map of_nat [0..<64]"
  by (simp add: TABLE_codes TABLE_REVERSE_def nth_append BAD_IDX_def upt_rec)

lemma table_codes_ok:
  "\<forall>b \<in> set TABLE. b \<noteq> PADDING_CHAR \<and> unat b < length TABLE_REVERSE"
  by (simp add: TABLE_codes PADDING_CHAR_def)

lemma table_entry:
  assumes "unat (w :: u8) < 64"
  shows "get_index_of_byte (TABLE ! unat w) i = Ok w" and "TABLE ! unat w \<noteq> PADDING_CHAR"
proof -
  have m: "TABLE ! unat w \<in> set TABLE" using assms by simp
  then show "TABLE ! unat w \<noteq> PADDING_CHAR" using table_codes_ok by blast
  have "TABLE_REVERSE ! unat (TABLE ! unat w) = map (\<lambda>b. TABLE_REVERSE ! unat b) TABLE ! unat w"
    using assms by simp
  also have "\<dots> = w"
    unfolding table_reverse_table using assms by (simp del: upt_rec_numeral)
  finally have "TABLE_REVERSE ! unat (TABLE ! unat w) = w" .
  moreover have "w \<noteq> BAD_IDX" using assms by (auto simp: BAD_IDX_def)
  ultimately show "get_index_of_byte (TABLE ! unat w) i = Ok w"
    using m table_codes_ok by (simp add: get_index_of_byte_def Let_def)
qed

lemma get_index_not_Panic [simp]: "get_index_of_byte b i \<noteq> Panic"
  by (simp add: get_index_of_byte_def Let_def)

lemma get_index_not_Exit [simp]: "get_index_of_byte b i \<noteq> Exit c"
  by (simp add: get_index_of_byte_def Let_def)

lemma get_index_Err:
  "get_index_of_byte b i = Err e \<Longrightarrow> e = \<lparr>invalid_byte = Some b, index = i\<rparr>"
  by (auto simp: get_index_of_byte_def Let_def split: if_splits)

subsection \<open>The sextets of a group\<close>

lemma and_masks:
  fixes a :: u8
  shows "a AND 3 = take_bit 2 a" "a AND 15 = take_bit 4 a" "a AND 63 = take_bit 6 a"
  by (simp_all add: take_bit_eq_mask mask_eq_exp_minus_1)

lemmas u8_arith = and_masks unat_word_ariths unsigned_push_bit_eq unsigned_drop_bit_eq
  unsigned_take_bit_eq take_bit_eq_mod push_bit_eq_mult drop_bit_eq_div mod_add_left_eq

lemma u8_bound: "unat (a :: u8) < 256"
  using unsigned_less [of a, where ?'a = nat] by simp

lemma sextet_values:
  "unat (sextet1 a) = unat a div 4"
  "unat (sextet2 a b) = (unat a mod 4) * 16 + unat b div 16"
  "unat (sextet3 a b) = (unat a mod 16) * 4 + unat b div 64"
  "unat (sextet4 a) = unat a mod 64"
  using u8_bound [of a] u8_bound [of b]
  by (simp_all add: sextet1_def sextet2_def sextet3_def sextet4_def u8_arith)

lemma octet_values:
  "unat (octet1 a b) = (unat a * 4 + unat b div 16) mod 256"
  "unat (octet2 a b) = ((unat a mod 16) * 16 + unat b div 4) mod 256"
  "unat (octet3 a b) = ((unat a mod 4) * 64 + unat b) mod 256"
  using u8_bound [of a] u8_bound [of b]
  by (simp_all add: octet1_def octet2_def octet3_def u8_arith)

lemma sextets_small:
  "unat (sextet1 a) < 64" "unat (sextet2 a b) < 64" "unat (sextet3 b c) < 64" "unat (sextet4 c) < 64"
  unfolding sextet_values using u8_bound [of a] u8_bound [of b] u8_bound [of c] by arith+

lemma u8_eqI: "unat (a :: u8) = unat b \<Longrightarrow> a = b"
  by (rule unsigned_word_eqI)

lemma digit_arith:
  "y < 16 \<Longrightarrow> (x * 16 + y) div 16 = (x :: nat)" "y < 16 \<Longrightarrow> (x * 16 + y) mod 16 = y"
  "z < 4 \<Longrightarrow> (x * 4 + z) div 4 = x" "z < 4 \<Longrightarrow> (x * 4 + z) mod 4 = z"
  by simp_all

lemma sextets_bytes [simp]:
  "octet1 (sextet1 a) (sextet2 a b) = a"
  "octet2 (sextet2 a b) (sextet3 b c) = b"
  "octet3 (sextet3 b c) (sextet4 c) = c"
proof -
  have small: "unat b div 16 < 16" "unat c div 64 < 4"
    using u8_bound [of b] u8_bound [of c] by arith+
  show "octet1 (sextet1 a) (sextet2 a b) = a"
    using u8_bound [of a] by (intro u8_eqI) (simp add: octet_values sextet_values digit_arith small)
  show "octet2 (sextet2 a b) (sextet3 b c) = b"
    using u8_bound [of b] by (intro u8_eqI) (simp add: octet_values sextet_values digit_arith small)
  show "octet3 (sextet3 b c) (sextet4 c) = c"
    using u8_bound [of c] by (intro u8_eqI) (simp add: octet_values sextet_values digit_arith small)
qed

lemmas group_simps [simp] = table_entry [OF sextets_small(1)] table_entry [OF sextets_small(2)]
  table_entry [OF sextets_small(3)] table_entry [OF sextets_small(4)]

subsection \<open>Lengths\<close>

definition pad_count :: "nat \<Rightarrow> nat" where
  "pad_count n = (3 - n mod 3) mod 3"

lemma length_encode_loop:
  "length (encode_loop bs) + pad_count (length bs) = 4 * ((length bs + 2) div 3)"
proof (induction bs rule: encode_loop.induct)
  case (4 a b c rest)
  have "pad_count (length (a # b # c # rest)) = pad_count (length rest)"
    by (simp add: pad_count_def)
  moreover have "(length (a # b # c # rest) + 2) div 3 = Suc ((length rest + 2) div 3)"
    by simp
  ultimately show ?case using 4 by simp
qed (simp_all add: pad_count_def)

lemma encode_capacity: "get_encode_capacity bs = 4 * ((length bs + 2) div 3)"
proof -
  define k where "k = length bs div 3"
  consider "length bs = 3 * k" | "length bs = 3 * k + 1" | "length bs = 3 * k + 2"
    unfolding k_def by linarith
  then show ?thesis
  proof cases
    case 1
    have "(3 * k * 8 + 5) div 6 = 4 * k" by simp
    with 1 show ?thesis by (simp add: get_encode_capacity_def BIT_GROUP_LEN_def)
  next
    case 2
    have "((3 * k + 1) * 8 + 5) div 6 = 4 * k + 2" by simp
    with 2 show ?thesis by (simp add: get_encode_capacity_def BIT_GROUP_LEN_def mod_Suc)
  next
    case 3
    have "((3 * k + 2) * 8 + 5) div 6 = 4 * k + 3" by simp
    with 3 show ?thesis by (simp add: get_encode_capacity_def BIT_GROUP_LEN_def mod_Suc)
  qed
qed

lemma encode_padding: "get_encode_capacity bs - length (encode_loop bs) = pad_count (length bs)"
  using length_encode_loop [of bs] by (simp add: encode_capacity)

lemma encode_bytes:
  "as_bytes (encode bs) = encode_loop bs @ replicate (pad_count (length bs)) PADDING_CHAR"
  by (simp add: encode_def encode_padding pad_count_def)

lemma length_encode: "length (encode bs) = 4 * ((length bs + 2) div 3)"
proof -
  have "length (encode bs) = length (as_bytes (encode bs))" by simp
  also have "\<dots> = 4 * ((length bs + 2) div 3)"
    unfolding encode_bytes by (simp add: length_encode_loop)
  finally show ?thesis .
qed

subsection \<open>Round trip\<close>

lemma decode_loop_encode:
  assumes "p = 0 \<or> p = pad_count (length bs)" and "len = i + length (encode_loop bs) + p"
  shows "decode_loop len i (encode_loop bs @ replicate p PADDING_CHAR) = Ok bs"
  using assms
proof (induction bs arbitrary: i rule: encode_loop.induct)
  case 1
  then show ?case by (simp add: pad_count_def)
next
  case (2 a)
  then show ?case
    by (auto simp: pad_count_def numeral_2_eq_2)
next
  case (3 a b)
  then show ?case
    by (auto simp: pad_count_def)
next
  case (4 a b c rest)
  have "pad_count (length (a # b # c # rest)) = pad_count (length rest)"
    by (simp add: pad_count_def)
  with "4.prems" have "decode_loop len (i + 4) (encode_loop rest @ replicate p PADDING_CHAR) = Ok rest"
    by (intro "4.IH") auto
  then show ?case by simp
qed

text \<open>Every group reads at least two characters, so an input decodes past the length checks.\<close>

lemma decode_eq_loop:
  assumes "2 \<le> length s" and "\<not> (length s < 4 \<and> last (as_bytes s) = PADDING_CHAR)"
  shows "decode s = decode_loop (length s) 0 (as_bytes s)"
proof -
  have "as_bytes s \<noteq> []" using assms(1) by auto
  then show ?thesis
    using assms by (auto simp: decode_def Let_def last_conv_nth)
qed

lemma last_encode_loop: "bs \<noteq> [] \<Longrightarrow> last (encode_loop bs) \<noteq> PADDING_CHAR \<and> 2 \<le> length (encode_loop bs)"
proof (induction bs rule: encode_loop.induct)
  case (4 a b c rest)
  then show ?case by (cases rest) auto
qed simp_all

lemma decode_encode: "decode (encode bs) = Ok bs"
proof (cases "bs = []")
  case True
  then show ?thesis by (simp add: encode_def decode_def)
next
  case False
  then have "1 \<le> (length bs + 2) div 3" by (cases bs) auto
  then have "4 \<le> length (encode bs)" unfolding length_encode by linarith
  then have "decode (encode bs) = decode_loop (length (encode bs)) 0 (as_bytes (encode bs))"
    by (intro decode_eq_loop) auto
  also have "\<dots> = Ok bs"
    unfolding encode_bytes
    by (rule decode_loop_encode) (simp_all add: length_encode length_encode_loop)
  finally show ?thesis .
qed

text \<open>C40. Encoding bytes and decoding the text gives the bytes back.\<close>

theorem base64_roundtrip: "decode (encode bs) = Ok bs"
  by (rule decode_encode)

text \<open>
  Decoding does not need the padding: the text without its \<open>=\<close> signs decodes to the same
  bytes.
\<close>

theorem base64_unpadded: "decode (of_bytes (encode_loop bs)) = Ok bs"
proof (cases "bs = []")
  case True
  then show ?thesis by (simp add: decode_def of_bytes_def)
next
  case False
  then have "decode (of_bytes (encode_loop bs))
      = decode_loop (length (encode_loop bs)) 0 (encode_loop bs)"
    using last_encode_loop [OF False] by (subst decode_eq_loop) simp_all
  also have "\<dots> = Ok bs"
    using decode_loop_encode [of 0 bs "length (encode_loop bs)" 0] by simp
  finally show ?thesis .
qed

lemma encode_loop_table: "set (encode_loop bs) \<subseteq> set TABLE"
  by (induction bs rule: encode_loop.induct) (auto intro!: nth_mem simp: sextets_small)

text \<open>
  The text of \<open>encode\<close> has four characters per started group of three bytes, all from the
  table but for at most two \<open>=\<close> at the end.
\<close>

theorem base64_encode_shape:
  "length (encode bs) = 4 * ((length bs + 2) div 3) \<and>
   (\<exists>body p. as_bytes (encode bs) = body @ replicate p PADDING_CHAR \<and> p \<le> 2 \<and> set body \<subseteq> set TABLE)"
  using length_encode [of bs] encode_bytes [of bs] encode_loop_table [of bs]
  by (force simp: pad_count_def)

subsection \<open>Errors and panics\<close>

text \<open>Case analysis along the groups of four characters that the loop reads.\<close>

fun quads :: "'a list \<Rightarrow> nat" where
  "quads (a # b # c # d # rest) = Suc (quads rest)"
| "quads _ = 0"

lemma decode_loop_Panic: "decode_loop len i bs = Panic \<Longrightarrow> length bs mod 4 = 1"
  by (induction bs arbitrary: i rule: quads.induct)
    (auto simp: and_then_Panic_iff Let_def split: if_splits)

text \<open>
  \<open>decode\<close> can only panic on a text whose length is 1 modulo 4 (its last group has one
  character); on every other text it returns bytes or an error.
\<close>

theorem base64_decode_safe:
  assumes "length s mod 4 \<noteq> 1"
  shows "decode s \<noteq> Panic"
  using assms decode_loop_Panic [of "length s" 0 "as_bytes s"] by (auto simp: decode_def Let_def)

theorem base64_decode_safe_witness: "decode ''cnVzdA'' \<noteq> Panic"
  by (rule base64_decode_safe) simp

text \<open>
  The single-character check of \<open>decode\<close> covers only texts of length 1: the well-formed
  group \<open>Zm9v\<close> followed by one more character of the alphabet reads past the end of the text
  and panics.
\<close>

theorem base64_decode_panics: "decode ''Zm9vY'' = Panic"
  by code_simp

lemma and_then_Err_iff: "and_then r f = Err e \<longleftrightarrow> r = Err e \<or> (\<exists>x. r = Ok x \<and> f x = Err e)"
  by (cases r) auto

lemma decode_loop_Err:
  "decode_loop len i bs = Err e \<Longrightarrow>
     i \<le> index e \<and> index e - i < length bs \<and> invalid_byte e = Some (bs ! (index e - i))"
proof (induction bs arbitrary: i rule: quads.induct)
  case (1 a b c d rest)
  show ?case
  proof (cases "decode_loop len (i + 4) rest = Err e")
    case True
    with "1.IH" have "i + 4 \<le> index e" "index e - (i + 4) < length rest"
      "invalid_byte e = Some (rest ! (index e - (i + 4)))" by blast+
    moreover from this have "index e - i = Suc (Suc (Suc (Suc (index e - (i + 4)))))" by simp
    ultimately show ?thesis by simp
  next
    case False
    with "1.prems" show ?thesis
      by (auto simp: and_then_Err_iff Let_def dest!: get_index_Err split: if_splits)
  qed
qed (auto simp: and_then_Err_iff Let_def dest!: get_index_Err split: if_splits)

text \<open>
  A decoding error names what is wrong: either the text is too short to hold a byte (no
  byte is named), or the error holds an index inside the text and the byte found there.
\<close>

theorem base64_error_location:
  assumes "decode s = Err e"
  shows "(invalid_byte e = None \<and> length s < 4) \<or>
         (index e < length s \<and> invalid_byte e = Some (as_bytes s ! index e))"
proof -
  from assms consider "invalid_byte e = None" "length s < 4"
    | "decode_loop (length s) 0 (as_bytes s) = Err e"
    by (fastforce simp: decode_def Let_def split: if_splits)
  then show ?thesis
    by cases (auto dest: decode_loop_Err)
qed

theorem base64_error_location_witness:
  "(invalid_byte \<lparr>invalid_byte = Some 64, index = 8\<rparr> = None \<and> length ''cnVzdGFj@@@@'' < 4) \<or>
   (index \<lparr>invalid_byte = Some 64, index = 8\<rparr> < length ''cnVzdGFj@@@@'' \<and>
    invalid_byte \<lparr>invalid_byte = Some 64, index = 8\<rparr> = Some (as_bytes ''cnVzdGFj@@@@'' ! 8))"
proof -
  have "decode ''cnVzdGFj@@@@'' = Err \<lparr>invalid_byte = Some 64, index = 8\<rparr>"
    by code_simp
  from base64_error_location [OF this] show ?thesis by simp
qed

text \<open>
  The padding check accepts a \<open>=\<close> that is not at the end of the text, although its error
  message and comment say that it rejects one: in \<open>AA=A\<close> the last character is dropped.
\<close>

theorem base64_padding_not_at_end: "decode ''AA=A'' = Ok [0]"
  by code_simp

lemma decode_loop_length: "decode_loop len i bs = Ok out \<Longrightarrow> 4 * length out \<le> 3 * length bs"
proof (induction bs arbitrary: i out rule: quads.induct)
  case (1 a b c d rest)
  show ?case
  proof (cases "\<exists>r. decode_loop len (i + 4) rest = Ok r \<and> length out = 3 + length r")
    case True
    with "1.IH" show ?thesis by force
  next
    case False
    with "1.prems" show ?thesis by (auto simp: Let_def split: if_splits)
  qed
qed (auto simp: Let_def split: if_splits)

text \<open>Decoding never returns more than three bytes per four characters.\<close>

theorem base64_decode_bound:
  assumes "decode s = Ok out"
  shows "4 * length out \<le> 3 * length s"
  using assms decode_loop_length [of "length s" 0 "as_bytes s" out]
  by (auto simp: decode_def Let_def split: if_splits)

theorem base64_decode_bound_witness: "4 * length [102 :: u8] \<le> 3 * length ''Zg==''"
proof -
  have "decode ''Zg=='' = Ok [102]" by code_simp
  from base64_decode_bound [OF this] show ?thesis .
qed

text \<open>
  The debug assertion at the end of \<open>decode\<close> (output length against capacity) holds for every
  text that \<open>encode\<close> produced, so the two build profiles agree there.
\<close>

lemma pad_count_cases:
  obtains "pad_count n = 0" "n mod 3 = 0" | "pad_count n = 1" "n mod 3 = 2" | "pad_count n = 2" "n mod 3 = 1"
proof -
  have "n mod 3 < 3" by simp
  then consider "n mod 3 = 0" | "n mod 3 = 1" | "n mod 3 = 2" by linarith
  then show ?thesis using that by cases (simp_all add: pad_count_def)
qed

lemma decode_capacity_encode:
  assumes "bs \<noteq> []"
  shows "get_decode_capacity (as_bytes (encode bs)) = length bs"
proof -
  let ?e = "encode_loop bs" and ?p = "pad_count (length bs)"
  let ?b = "?e @ replicate ?p PADDING_CHAR"
  have l: "length ?e + ?p = 4 * ((length bs + 2) div 3)" by (rule length_encode_loop)
  have e: "2 \<le> length ?e" using last_encode_loop [OF assms] by auto
  have n: "?e ! k \<noteq> PADDING_CHAR" if "k < length ?e" for k
    using that encode_loop_table [of bs] table_codes_ok nth_mem by blast
  have s: "length bs + ?p = 3 * ((length bs + 2) div 3)"
    by (rule pad_count_cases [of "length bs"]) arith+
  have "length ?b * BIT_GROUP_LEN div 8 = length bs + ?p"
    using l s by (simp add: BIT_GROUP_LEN_def)
  moreover have "?b ! (length ?b - 1) = PADDING_CHAR \<longleftrightarrow> ?p \<noteq> 0"
    using e n [of "length ?e - 1"]
    by (rule_tac pad_count_cases [of "length bs"]) (auto simp: nth_append)
  moreover have "?b ! (length ?b - 2) = PADDING_CHAR \<longleftrightarrow> ?p = 2"
    using e n [of "length ?e - 1"] n [of "length ?e - 2"]
    by (rule_tac pad_count_cases [of "length bs"]) (auto simp: nth_append)
  ultimately show ?thesis
    unfolding get_decode_capacity_def encode_bytes
    by (rule_tac pad_count_cases [of "length bs"]) simp_all
qed

interpretation b64: codec encode "\<lambda>s. (case decode s of Ok bs \<Rightarrow> Some bs | _ \<Rightarrow> None)" "\<lambda>_. True"
  by unfold_locales (simp add: decode_encode)

end
