(* ===== verification/Core_Types.thy ===== *)
theory Core_Types
  imports Base64
begin

text \<open>
  The data that several components share: users and shared files of the configuration, the
  errors, the exit codes, and the queue between two threads. Rust's \<open>Box<dyn Error>\<close> is the
  datatype \<open>error\<close>: one constructor per place that makes an error, with what its message shows,
  grouped by component.
\<close>

subsection \<open>Records of config.rs\<close>

record shared_user =
  su_nickname :: string
  su_public_id :: string
  su_ip :: string
  su_port :: string
  su_allowed :: bool

record config_shared_file =
  csf_path :: string
  csf_shared_with :: "string list"

subsection \<open>Errors and exit codes\<close>

datatype io_error = UnexpectedEof | NotFound | AddrInUse | OtherIo

text \<open>Errors of the encrypted stream and of the handshake.\<close>

datatype stream_error =
    NonceMaxed | DecryptMessage | DecryptPayload | EncryptMessage | EncryptPayload
  | ChecksumMismatch u32 u32
  | MagicMismatch bytes | ApiMajorMismatch nat | RemoteIdNotFound

text \<open>Errors of the verification of a configuration.\<close>

datatype verify_error =
    PortNotANumber | PortTooHigh | UserPort string verify_error
  | PrivateIdNotBase64 InvalidBase64String | PrivateIdRejected
  | NicknameRepeated string nat | PublicIdRepeated string nat
  | NicknameEmpty | NicknameChar string char | NicknameReserved
  | PortEmpty string | PublicIdEmpty string | PublicIdEncoding string InvalidBase64String
  | IpEmpty string
  | FileRepeated string nat | FileUnknownUser string string | FileInConfigDir string
  | FileChar string char | FileInvalid string
  | IgnoreAndReverse

text \<open>Errors of the other operations on the configuration.\<close>

datatype config_error =
    NotEncrypted | AlreadyEncrypted
  | ShareUserUnknown string string | ShareFileUnknown string string
  | AllowedUserUnknown string bool | UpdateUserUnknown string
  | ConfigMissing string | ConfigInvalid string | ZeroIterations nat
  | ConfigEncrypt | ConfigDecrypt | NotUtf8 | SaltFailed | KeyGenFailed
  | NonceNotANumber | JsonError | NoHomeDir | PasswordEmpty | PasswordMismatch

text \<open>Errors of downloads and uploads.\<close>

datatype transfer_error =
    ReceiverDisconnected
  | FileListTooLarge string | CacheMissing string
  | InvalidFileOnFirstRead string string
  | UnexpectedFirstMessage string u16 | UnexpectedMidMessage string u16
  | DirectoryTooLarge | FinishDisagreement bool bool
  | QueueLineInvalid string string | QueueSizeInvalid string string
  | PathNotSanitized string
  | ResolveFailed string | ConnectTimeout | RefreshTimeout
  | InvalidClientSelection string u16 | AllListenersFailed
  | UserUnknown string | SendFailed

datatype error =
    IoError io_error
  | BadBase64 InvalidBase64String
  | StreamError stream_error
  | VerifyError verify_error
  | ConfigError config_error
  | TransferError transfer_error

text \<open>\<open>ExitCodes\<close>: the value that the process ends with.\<close>

datatype exit_code =
    ExitAppLoopRecFailed | ExitAppFailedKill | ExitRevConnOutgoingLock | ExitEncStreamNoUser
  | ExitUploadManRunEnd | ExitUploadManSendFailed | ExitUploadManRecvDisconnected
  | ExitInvalidStateIgnoreAndRev

fun exit_value :: "exit_code \<Rightarrow> nat" where
  "exit_value ExitAppLoopRecFailed = 2"
| "exit_value ExitAppFailedKill = 3"
| "exit_value ExitRevConnOutgoingLock = 4"
| "exit_value ExitEncStreamNoUser = 5"
| "exit_value ExitUploadManRunEnd = 6"
| "exit_value ExitUploadManSendFailed = 7"
| "exit_value ExitUploadManRecvDisconnected = 8"
| "exit_value ExitInvalidStateIgnoreAndRev = 9"

lemma exit_value_inj: "exit_value a = exit_value b \<Longrightarrow> a = b"
  by (cases a; cases b) simp_all

subsection \<open>Queues between threads\<close>

text \<open>
  The sending end of an \<open>mpsc\<close> channel: the messages not yet received, oldest first, and
  whether the receiver still exists. \<open>send\<close> fails exactly when it does not.
\<close>

record 'm channel =
  ch_queue :: "'m list"
  ch_alive :: bool

definition new_channel :: "'m channel" where
  "new_channel = \<lparr>ch_queue = [], ch_alive = True\<rparr>"

definition ch_send :: "'m \<Rightarrow> 'm channel \<Rightarrow> 'm channel option" where
  "ch_send m c = (if ch_alive c then Some (c\<lparr>ch_queue := ch_queue c @ [m]\<rparr>) else None)"

lemma ch_send_Some_iff:
  "ch_send m c = Some c' \<longleftrightarrow> ch_alive c \<and> c' = c\<lparr>ch_queue := ch_queue c @ [m]\<rparr>"
  by (auto simp: ch_send_def)

lemma ch_send_None_iff: "ch_send m c = None \<longleftrightarrow> \<not> ch_alive c"
  by (simp add: ch_send_def)

subsection \<open>TCP streams\<close>

text \<open>
  One end of a connection: the bytes that the peer has sent or will send, the bytes written so
  far, and how many more bytes the connection takes before it breaks (\<open>None\<close>: it does not).
  \<open>read_exact\<close> of more bytes than the peer ever sends ends with an error; \<open>write_all\<close> may
  write a part before it fails.
\<close>

record tcp_stream =
  t_in :: bytes
  t_out :: bytes
  t_room :: "nat option"

definition read_exact :: "nat \<Rightarrow> (tcp_stream, error, bytes) io" where
  "read_exact n t =
     (if n \<le> length (t_in t) then (Ok (take n (t_in t)), t\<lparr>t_in := drop n (t_in t)\<rparr>)
      else (Err (IoError UnexpectedEof), t\<lparr>t_in := []\<rparr>))"

definition write_all :: "bytes \<Rightarrow> (tcp_stream, error, unit) io" where
  "write_all bs t =
     (case t_room t of
        None \<Rightarrow> (Ok (), t\<lparr>t_out := t_out t @ bs\<rparr>)
      | Some k \<Rightarrow>
          if length bs \<le> k then (Ok (), t\<lparr>t_out := t_out t @ bs, t_room := Some (k - length bs)\<rparr>)
          else (Err (IoError OtherIo), t\<lparr>t_out := t_out t @ take k bs, t_room := Some 0\<rparr>))"

lemma read_exact_Ok:
  "t_in t = a @ b \<Longrightarrow> n = length a \<Longrightarrow> read_exact n t = (Ok a, t\<lparr>t_in := b\<rparr>)"
  by (simp add: read_exact_def)

lemma read_exact_length:
  "read_exact n t = (Ok bs, t') \<Longrightarrow>
     length bs = n \<and> t_in t = bs @ t_in t' \<and> t_out t' = t_out t \<and> t_room t' = t_room t"
  by (auto simp: read_exact_def split: if_splits)

lemma write_all_Ok: "t_room t = None \<Longrightarrow> write_all bs t = (Ok (), t\<lparr>t_out := t_out t @ bs\<rparr>)"
  by (simp add: write_all_def)

lemma write_all_in: "t_in (snd (write_all bs t)) = t_in t"
  by (simp add: write_all_def split: option.split)

lemma write_all_prefix: "\<exists>bs'. t_out (snd (write_all bs t)) = t_out t @ bs' \<and> prefix bs' bs"
  by (auto simp: write_all_def take_is_prefix split: option.split)

end
