(* ===== verification/Path_Checks.thy ===== *)
theory Path_Checks
  imports Core_Types
begin

text \<open>
  The checks on paths: which paths may be shared or listed (\<open>config.rs\<close>) and which local name a
  remote path gets (\<open>outgoing_downloader.rs\<close>). The checked build is a Unix build, so
  \<open>Path\<close> is a Unix path; \<open>sanitize_disk_path\<close>, which does not parse paths, takes the
  \<open>cfg!(target_family)\<close> test as an argument.
\<close>

subsection \<open>Blocked characters\<close>

definition get_blocked_file_path_chars :: string where
  "get_blocked_file_path_chars = [CHR ''*'', CHR ''?'', CHR 0x22, CHR ''<'', CHR ''>'', CHR ''|'']"

definition get_blocked_file_name_chars :: string where
  "get_blocked_file_name_chars = get_blocked_file_path_chars @ [CHR 0x5C, CHR '':'', CHR ''/'']"

definition get_blocked_user_name_chars :: string where
  "get_blocked_user_name_chars = get_blocked_file_name_chars @ [CHR ''.'', CHR 0x7B, CHR 0x7D]"

text \<open>The loop over the parts with their index: a drive (\<open>c:\<close>) and a separator are skipped.\<close>

fun parts_have_valid_chars :: "nat \<Rightarrow> string list \<Rightarrow> bool" where
  "parts_have_valid_chars i [] = True"
| "parts_have_valid_chars i (s # rest) =
     (if i = 0 \<and> length s = 2 \<and> s ! 1 = CHR '':'' then parts_have_valid_chars (Suc i) rest
      else if s = ''/'' \<or> s = [CHR 0x5C] then parts_have_valid_chars (Suc i) rest
      else if \<exists>c \<in> set get_blocked_file_name_chars. contains_char c s then False
      else parts_have_valid_chars (Suc i) rest)"

definition file_contains_only_valid_chars :: "string \<Rightarrow> bool" where
  "file_contains_only_valid_chars path0 =
     (let path = replace_char (CHR 0x5C) (CHR ''/'') path0 in
      if \<exists>c \<in> set get_blocked_file_path_chars. contains_char c path then False
      else if \<not> parts_have_valid_chars 0 (path_iter path) then False
      else list_all (\<lambda>s. \<exists>c \<in> set s. c \<noteq> CHR ''.'') (path_iter path))"

subsection \<open>Local names\<close>

text \<open>The loop of \<open>sanitize_disk_path\<close>, with the attempts that are left.\<close>

fun sanitize_loop :: "nat \<Rightarrow> string \<Rightarrow> string option" where
  "sanitize_loop 0 new_path = None"
| "sanitize_loop (Suc left) new_path =
     (let compare_path = new_path; p1 = replace_char (CHR 0x00) (CHR ''0'') new_path in
      if p1 \<noteq> compare_path then sanitize_loop left p1
      else (let p2 = replace_pair (CHR 0x5C) (CHR 0x5C) [CHR 0x5C] p1 in
            if p2 \<noteq> compare_path then sanitize_loop left p2 else Some p2))"

definition sanitize_disk_path :: "bool \<Rightarrow> string \<Rightarrow> (error, string) outcome" where
  "sanitize_disk_path is_unix path =
     ok_or (TransferError (PathNotSanitized path))
       (sanitize_loop 10 (if is_unix then replace_char (CHR 0x5C) (CHR ''/'') path else path))"

definition get_sanitized_disk_file_name :: "string \<Rightarrow> (error, string) outcome" where
  "get_sanitized_disk_file_name path =
     and_then (sanitize_disk_path True path) (\<lambda>sanitized. unwrap_opt (path_file_name sanitized))"

subsection \<open>What a sanitized path looks like\<close>

text \<open>A text that \<open>replace_pair\<close> leaves alone has no such pair: every replacement shortens it.\<close>

lemma replace_pair_grows_not: "length t \<le> 2 \<Longrightarrow> length (replace_pair a b t s) \<le> length s"
  by (induction a b t s rule: replace_pair.induct) auto

lemma replace_pair_length: "length (replace_pair a b [c] s) \<le> length s"
  by (rule replace_pair_grows_not) simp

lemma replace_pair_shortens: "length (replace_pair a b [c] (u @ a # b # v)) < length u + 2 + length v"
proof (induction u)
  case Nil
  show ?case using replace_pair_length [of a b c v] by simp
next
  case (Cons x u)
  obtain y s where rest: "u @ a # b # v = y # s" by (cases u) auto
  then have len: "length u + 2 + length v = Suc (length s)"
    by (metis add.commute add_Suc_right add_2_eq_Suc' length_Cons length_append)
  from Cons rest len replace_pair_length [of a b c s] show ?case by auto
qed

lemma replace_pair_fixpoint:
  assumes "replace_pair a b [c] s = s"
  shows "s \<noteq> u @ [a, b] @ v"
proof
  assume s: "s = u @ [a, b] @ v"
  with assms replace_pair_shortens [of a b c u v] show False by simp
qed

lemma replace_pair_id: "a \<notin> set s \<Longrightarrow> replace_pair a b t s = s"
  by (induction a b t s rule: replace_pair.induct) auto

lemma sanitize_loop_Some:
  "sanitize_loop n s = Some r \<Longrightarrow>
     replace_char (CHR 0x00) (CHR ''0'') r = r \<and> replace_pair (CHR 0x5C) (CHR 0x5C) [CHR 0x5C] r = r"
  by (induction n arbitrary: s) (auto simp: Let_def split: if_splits)

lemma replace_char_idem: "a \<noteq> b \<Longrightarrow> replace_char a b (replace_char a b s) = replace_char a b s"
  by (simp add: replace_char_def)

lemma sanitize_loop_no_backslash:
  assumes "CHR 0x5C \<notin> set s"
  shows "sanitize_loop (Suc (Suc n)) s = Some (replace_char (CHR 0x00) (CHR ''0'') s)"
proof -
  let ?r = "replace_char (CHR 0x00) (CHR ''0'') s"
  have "CHR 0x5C \<notin> set ?r" using assms by (auto simp: replace_char_def)
  with assms show ?thesis
    by (simp add: Let_def replace_pair_id replace_char_idem)
qed

lemma sanitize_unix:
  "sanitize_disk_path True path
     = Ok (replace_char (CHR 0x00) (CHR ''0'') (replace_char (CHR 0x5C) (CHR ''/'') path))"
proof -
  have "CHR 0x5C \<notin> set (replace_char (CHR 0x5C) (CHR ''/'') path)"
    by (auto simp: replace_char_def)
  then show ?thesis
    using sanitize_loop_no_backslash [of "replace_char (CHR 0x5C) (CHR ''/'') path" 8]
    by (simp add: sanitize_disk_path_def eval_nat_numeral)
qed

lemma local_name_parts:
  assumes "get_sanitized_disk_file_name path = Ok n"
  shows "n \<noteq> []" and "path_sep \<notin> set n" and "n \<noteq> ''.''" and "n \<noteq> ''..''"
    and "CHR 0x5C \<notin> set n" and "CHR 0x00 \<notin> set n"
proof -
  let ?s = "replace_char (CHR 0x00) (CHR ''0'') (replace_char (CHR 0x5C) (CHR ''/'') path)"
  from assms have f: "path_file_name ?s = Some n"
    by (simp add: get_sanitized_disk_file_name_def sanitize_unix)
  note parts = path_file_name_single [OF f]
  then show "n \<noteq> []" "path_sep \<notin> set n" "n \<noteq> ''.''" "n \<noteq> ''..''" by simp_all
  have "n \<in> set (path_iter ?s)" using f by (auto simp: path_file_name_def Let_def split: if_splits)
  then have "n \<in> set (split_on path_sep ?s) \<or> n = [path_sep] \<or> n = ''.''"
    by (auto simp: path_iter_def Let_def split: if_splits)
  with parts have "n \<in> set (split_on path_sep ?s)" by auto
  then have "set n \<subseteq> set ?s" by (rule split_on_subset)
  then show "CHR 0x5C \<notin> set n" "CHR 0x00 \<notin> set n" by (auto simp: replace_char_def)
qed

text \<open>
  \<open>sanitize_disk_path\<close> on either platform: a returned path has no NUL and no double
  backslash; and the Unix build never gives up: it returns the path with every backslash turned
  into a slash and every NUL into the digit 0.
\<close>

theorem sanitize_disk_path_result:
  "(\<forall>r. sanitize_disk_path w path = Ok r \<longrightarrow>
      CHR 0x00 \<notin> set r \<and> (\<forall>u v. r \<noteq> u @ [CHR 0x5C, CHR 0x5C] @ v))
   \<and> sanitize_disk_path True path
       = Ok (replace_char (CHR 0x00) (CHR ''0'') (replace_char (CHR 0x5C) (CHR ''/'') path))"
proof (intro conjI allI impI)
  fix r assume "sanitize_disk_path w path = Ok r"
  then have fix_r: "replace_char (CHR 0x00) (CHR ''0'') r = r"
    "replace_pair (CHR 0x5C) (CHR 0x5C) [CHR 0x5C] r = r"
    by (auto simp: sanitize_disk_path_def dest!: sanitize_loop_Some)
  then show "CHR 0x00 \<notin> set r" by (auto dest: replace_char_fixpoint)
  show "r \<noteq> u @ [CHR 0x5C, CHR 0x5C] @ v" for u v
    using replace_pair_fixpoint [OF fix_r(2)] .
qed (rule sanitize_unix)

theorem sanitize_disk_path_result_witness:
  "sanitize_disk_path True [CHR ''a'', CHR 0x5C, CHR 0x00] = Ok ''a/0''"
  using sanitize_disk_path_result [of True "[CHR ''a'', CHR 0x5C, CHR 0x00]"]
  by (simp add: replace_char_def)

text \<open>
  C38. A local name cannot leave its directory: whatever path the remote user sent, the name
  taken from it is one non-empty component without slash, backslash or NUL, and is neither
  \<open>.\<close> nor \<open>..\<close>.
\<close>

theorem local_name_is_one_component:
  assumes "get_sanitized_disk_file_name path = Ok n"
  shows "n \<noteq> [] \<and> path_sep \<notin> set n \<and> n \<noteq> ''.'' \<and> n \<noteq> ''..''
     \<and> CHR 0x5C \<notin> set n \<and> CHR 0x00 \<notin> set n"
  using local_name_parts [OF assms] by simp

theorem local_name_is_one_component_witness:
  "get_sanitized_disk_file_name ''../etc/passwd'' = Ok ''passwd'' \<and> path_sep \<notin> set ''passwd''"
proof -
  have "get_sanitized_disk_file_name ''../etc/passwd'' = Ok ''passwd''" by code_simp
  from this local_name_is_one_component [OF this] show ?thesis by simp
qed

subsection \<open>Listed paths have local names\<close>

lemma path_iter_only_dots:
  assumes dots: "set q \<subseteq> {path_sep, CHR ''.''}"
    and keep: "\<forall>p \<in> set (path_iter q). \<exists>c \<in> set p. c \<noteq> CHR ''.''"
  shows "\<forall>p \<in> set (path_iter q). p = [path_sep]"
proof
  fix p assume p: "p \<in> set (path_iter q)"
  then have "p = [path_sep] \<or> p = ''.'' \<or> p \<in> set (split_on path_sep q)"
    by (auto simp: path_iter_def Let_def split: if_splits)
  moreover have "\<forall>c \<in> set p. c = CHR ''.''" if "p \<in> set (split_on path_sep q)"
    using split_on_subset [OF that] split_on_parts [OF that] dots by auto
  moreover obtain c where "c \<in> set p" "c \<noteq> CHR ''.''" using keep p by blast
  ultimately show "p = [path_sep]" by auto
qed

lemma path_iter_shape:
  "\<exists>xs. path_iter q = xs @ filter (\<lambda>p. p \<noteq> [] \<and> p \<noteq> ''.'') (split_on path_sep q)"
proof (cases "starts_with [path_sep] q")
  case True
  then have "path_iter q = [[path_sep]] @ filter (\<lambda>p. p \<noteq> [] \<and> p \<noteq> ''.'') (split_on path_sep q)"
    by (simp add: path_iter_def Let_def)
  then show ?thesis ..
next
  case False
  then show ?thesis unfolding path_iter_def Let_def by simp
qed

lemma path_iter_last_normal:
  assumes c: "c \<in> set q" "c \<notin> {path_sep, CHR ''.''}"
  shows "path_iter q \<noteq> [] \<and> last (path_iter q) \<noteq> [path_sep]"
proof -
  define normal where "normal = filter (\<lambda>p. p \<noteq> [] \<and> p \<noteq> ''.'') (split_on path_sep q)"
  obtain p where p: "p \<in> set (split_on path_sep q)" "c \<in> set p"
    using c split_on_covers [of q path_sep] by auto
  with c have "p \<in> set normal" by (auto simp: normal_def)
  then have ne: "normal \<noteq> []" by auto
  then have "last normal \<in> set normal" by (rule last_in_set)
  then have "path_sep \<notin> set (last normal)"
    by (auto simp: normal_def dest: split_on_parts)
  moreover obtain xs where "path_iter q = xs @ normal"
    using path_iter_shape [of q] by (auto simp: normal_def)
  ultimately show ?thesis using ne by auto
qed

text \<open>
  Exactly which paths of a peer get a local name: a path that passed the character check is
  either nothing but slashes, backslashes and periods, and then taking its name panics, or it
  has a local name.
\<close>

theorem listed_path_local_name:
  assumes "file_contains_only_valid_chars path"
  shows "if set path \<subseteq> {path_sep, CHR 0x5C, CHR ''.''} then get_sanitized_disk_file_name path = Panic
         else is_ok (get_sanitized_disk_file_name path)"
proof -
  let ?q = "replace_char (CHR 0x5C) (CHR ''/'') path"
  let ?f = "\<lambda>c. if c = CHR 0x00 then CHR ''0'' else c"
  have nul: "replace_char (CHR 0x00) (CHR ''0'') ?q = map ?f ?q"
    by (simp add: replace_char_def)
  have iter: "path_iter (map ?f ?q) = map (map ?f) (path_iter ?q)"
    by (rule path_iter_map) (simp_all add: path_sep_def)
  have san: "sanitize_disk_path True path = Ok (map ?f ?q)"
    using sanitize_unix nul by metis
  have keep: "\<forall>p \<in> set (path_iter ?q). \<exists>c \<in> set p. c \<noteq> CHR ''.''"
    using assms by (simp add: file_contains_only_valid_chars_def Let_def list_all_iff split: if_splits)
  show ?thesis
  proof (cases "set path \<subseteq> {path_sep, CHR 0x5C, CHR ''.''}")
    case True
    then have "set ?q \<subseteq> {path_sep, CHR ''.''}"
      by (auto simp: replace_char_def path_sep_def)
    from path_iter_only_dots [OF this keep] have only: "p \<in> set (path_iter ?q) \<Longrightarrow> p = [path_sep]" for p
      by blast
    have "map (map ?f) (path_iter ?q) = [] \<or> last (map (map ?f) (path_iter ?q)) = [path_sep]"
    proof (cases "path_iter ?q = []")
      case False
      then have "last (path_iter ?q) = [path_sep]" using only last_in_set by blast
      with False show ?thesis by (simp add: last_map path_sep_def)
    qed simp
    then have "path_file_name (map ?f ?q) = None"
      unfolding path_file_name_def Let_def iter by auto
    with True san show ?thesis by (simp add: get_sanitized_disk_file_name_def)
  next
    case False
    then obtain c where c: "c \<in> set path" "c \<notin> {path_sep, CHR 0x5C, CHR ''.''}" by blast
    then have "c \<in> set ?q" by (auto simp: replace_char_def image_iff)
    with c have l: "path_iter ?q \<noteq> []" "last (path_iter ?q) \<noteq> [path_sep]"
      using path_iter_last_normal [of c ?q] by auto
    then obtain d where d: "d \<in> set (last (path_iter ?q))" "d \<noteq> CHR ''.''"
      using keep last_in_set by blast
    then have fd: "?f d \<in> set (map ?f (last (path_iter ?q)))" "?f d \<noteq> CHR ''.''" by auto
    have "map ?f (last (path_iter ?q)) \<noteq> [path_sep]"
      using l by (auto simp: path_sep_def split: if_splits)
    moreover have "map ?f (last (path_iter ?q)) \<notin> {''.'', ''..''}"
      using fd by fastforce
    ultimately have "path_file_name (map ?f ?q) = Some (map ?f (last (path_iter ?q)))"
      unfolding path_file_name_def Let_def iter using l(1) by (simp add: last_map)
    with False san show ?thesis by (simp add: get_sanitized_disk_file_name_def)
  qed
qed

theorem listed_path_local_name_witness:
  "get_sanitized_disk_file_name '''' = Panic \<and> is_ok (get_sanitized_disk_file_name ''/home/a'')"
proof -
  have "file_contains_only_valid_chars ''''" "file_contains_only_valid_chars ''/home/a''"
    by code_simp+
  from listed_path_local_name [OF this(1)] listed_path_local_name [OF this(2)] show ?thesis
    by (simp add: path_sep_def)
qed

end
