(* ===== verification/Shared_Files.thy ===== *)
theory Shared_Files
  imports Path_Checks
begin

text \<open>
  \<open>shared_file.rs\<close> and the tree search of \<open>utils.rs\<close>: the tree of files that one user offers
  to another, the text shown for a size, and what the receiving side does with a tree before it
  trusts it. \<open>f64\<close> arithmetic is written out: a \<open>u64\<close> becomes the nearest number with a 53-bit
  significand (ties to even), dividing it by a power of two is exact, and \<open>{:.2}\<close> rounds the
  exact value to hundredths (ties to even).
\<close>

subsection \<open>Sizes as text\<close>

definition half_even_div :: "nat \<Rightarrow> nat \<Rightarrow> nat" where
  "half_even_div a b =
     (let q = a div b; r = a mod b
      in if 2 * r < b then q else if b < 2 * r then q + 1 else if even q then q else q + 1)"

text \<open>How many low bits of a number do not fit the significand.\<close>

fun f64_excess :: "nat \<Rightarrow> nat" where
  "f64_excess n = (if n < 2 ^ 53 then 0 else Suc (f64_excess (n div 2)))"

declare f64_excess.simps [simp del]

definition u64_as_f64 :: "nat \<Rightarrow> nat" where
  "u64_as_f64 n = half_even_div n (2 ^ f64_excess n) * 2 ^ f64_excess n"

definition show_hundredths :: "nat \<Rightarrow> string" where
  "show_hundredths h = show_nat (h div 100) @ ''.'' @ [digit (h div 10 mod 10), digit (h mod 10)]"

definition size_unit :: "nat \<Rightarrow> nat \<times> string" where
  "size_unit bytes =
     (if 1099511627776 \<le> bytes then (1099511627776, ''TB'')
      else if 1073741824 \<le> bytes then (1073741824, ''GB'')
      else if 1048576 \<le> bytes then (1048576, ''MB'')
      else if 1024 \<le> bytes then (1024, ''KB'')
      else (1, ''bytes''))"

definition get_file_size_string :: "u64 \<Rightarrow> string" where
  "get_file_size_string bytes =
     (case size_unit (unat bytes) of
        (divisor, unit) \<Rightarrow>
          (if unit = ''bytes'' then show_nat (u64_as_f64 (unat bytes))
           else show_hundredths (half_even_div (100 * u64_as_f64 (unat bytes)) divisor))
          @ '' '' @ unit)"

lemma half_even_div_near:
  assumes "0 < b"
  shows "2 * a \<le> (2 * half_even_div a b + 1) * b \<and> 2 * half_even_div a b * b \<le> 2 * a + b"
proof -
  have a: "a = a div b * b + a mod b" by simp
  have r: "a mod b < b" using assms by simp
  have "half_even_div a b = a div b \<and> 2 * (a mod b) \<le> b
      \<or> half_even_div a b = a div b + 1 \<and> b \<le> 2 * (a mod b)"
    by (auto simp: half_even_div_def Let_def)
  then show ?thesis
  proof (elim disjE conjE)
    assume h: "half_even_div a b = a div b" "2 * (a mod b) \<le> b"
    have "2 * a = 2 * (a div b * b) + 2 * (a mod b)" by (metis a distrib_left)
    then show ?thesis using h by (simp add: algebra_simps)
  next
    assume h: "half_even_div a b = a div b + 1" "b \<le> 2 * (a mod b)"
    have "2 * a = 2 * (a div b * b) + 2 * (a mod b)" by (metis a distrib_left)
    then show ?thesis using h r by (simp add: algebra_simps)
  qed
qed

lemma half_even_div_one [simp]: "half_even_div a (Suc 0) = a"
  by (simp add: half_even_div_def)

lemma u64_as_f64_exact: "n < 2 ^ 53 \<Longrightarrow> u64_as_f64 n = n"
  using f64_excess.simps [of n] by (simp add: u64_as_f64_def)

lemma size_unit_pos: "size_unit n = (d, u) \<Longrightarrow> 0 < d"
  by (auto simp: size_unit_def split: if_splits)

text \<open>
  The shown size is right to half a hundredth of its unit, for every size that \<open>f64\<close> holds
  exactly (below 8192 TB): a small size is shown in bytes without a fraction, any other as the
  number of hundredths nearest to the true quotient.
\<close>

theorem size_string_accurate:
  assumes "unat bytes < 2 ^ 53" and "size_unit (unat bytes) = (d, u)"
  shows "if unat bytes < 1024 then get_file_size_string bytes = show_nat (unat bytes) @ '' bytes''
         else \<exists>h. get_file_size_string bytes = show_hundredths h @ '' '' @ u
                \<and> 2 * h * d \<le> 200 * unat bytes + d \<and> 200 * unat bytes \<le> 2 * h * d + d"
proof -
  have f: "u64_as_f64 (unat bytes) = unat bytes" by (rule u64_as_f64_exact [OF assms(1)])
  show ?thesis
  proof (cases "unat bytes < 1024")
    case True
    then have "size_unit (unat bytes) = (1, ''bytes'')" by (simp add: size_unit_def)
    with True f show ?thesis by (simp add: get_file_size_string_def)
  next
    case False
    let ?h = "half_even_div (100 * unat bytes) d"
    have "u \<noteq> ''bytes''" using assms(2) False by (auto simp: size_unit_def split: if_splits)
    then have "get_file_size_string bytes = show_hundredths ?h @ '' '' @ u"
      using assms(2) f by (simp add: get_file_size_string_def)
    moreover have "2 * (100 * unat bytes) \<le> (2 * ?h + 1) * d \<and> 2 * ?h * d \<le> 2 * (100 * unat bytes) + d"
      by (rule half_even_div_near [OF size_unit_pos [OF assms(2)]])
    ultimately show ?thesis using False by (intro if_not_P [THEN iffD2] exI [of _ ?h]) (simp_all add: algebra_simps)
  qed
qed

theorem size_string_accurate_witness:
  "get_file_size_string 512 = ''512 bytes'' \<and> get_file_size_string 1536 = ''1.50 KB''"
proof -
  have n: "unat (512 :: u64) = 512" by simp
  have u: "size_unit (unat (512 :: u64)) = (1, ''bytes'')" unfolding n by (simp add: size_unit_def)
  have b: "unat (512 :: u64) < 2 ^ 53" unfolding n by simp
  have "get_file_size_string 512 = show_nat 512 @ '' bytes''"
    using size_string_accurate [OF b u] unfolding n by (simp only: if_True less_numeral_simps less_num_simps)
  moreover have "show_nat 512 = ''512''"
    by code_simp
  moreover have "get_file_size_string 1536 = ''1.50 KB''"
  proof -
    have m: "unat (1536 :: u64) = 1536" by simp
    have f: "u64_as_f64 1536 = 1536" by (rule u64_as_f64_exact) simp
    show ?thesis
      unfolding get_file_size_string_def m f
      by (simp add: size_unit_def half_even_div_def) code_simp
  qed
  ultimately show ?thesis by simp
qed

subsection \<open>Trees of shared files\<close>

datatype shared_file =
  SharedFile (sf_path: string) (sf_is_directory: bool) (sf_files: "shared_file list")
    (sf_file_size: u64) (sf_size_string: string)

definition new_shared_file :: "string \<Rightarrow> bool \<Rightarrow> shared_file list \<Rightarrow> u64 \<Rightarrow> shared_file" where
  "new_shared_file path is_directory files file_size =
     SharedFile path is_directory files file_size (get_file_size_string file_size)"

fun set_file_size_string :: "shared_file \<Rightarrow> shared_file" where
  "set_file_size_string (SharedFile p d fs n s) = SharedFile p d fs n (get_file_size_string n)"

fun reset_file_size_string :: "shared_file \<Rightarrow> shared_file" where
  "reset_file_size_string (SharedFile p d fs n s) =
     (if \<not> d then set_file_size_string (SharedFile p d fs n s)
      else set_file_size_string
        (SharedFile p d
          (map (\<lambda>f. set_file_size_string
             (if sf_is_directory f then reset_file_size_string f else f)) fs) n s))"

fun remove_invalid_files :: "shared_file \<Rightarrow> shared_file" where
  "remove_invalid_files (SharedFile p d fs n s) =
     (if d then SharedFile p d
        (map remove_invalid_files (filter (\<lambda>x. file_contains_only_valid_chars (sf_path x)) fs)) n s
      else SharedFile p d fs n s)"

text \<open>The lines that \<open>print_shared_files\<close> prints.\<close>

fun print_shared_files :: "shared_file \<Rightarrow> string \<Rightarrow> string list" where
  "print_shared_files (SharedFile p d fs n s) spacer =
     (spacer @ p @ '' | ('' @ s @ '') ('' @ (if d then ''dir'' else ''file'') @ '')'')
     # (if d then concat (map (\<lambda>f. print_shared_files f (spacer @ ''    '')) fs) else [])"

text \<open>The fields of sizes in JSON: a decimal text, read back by \<open>parse\<close>.\<close>

definition u64_to_string :: "u64 \<Rightarrow> string" where
  "u64_to_string x = show_nat (unat x)"

definition string_to_u64 :: "string \<Rightarrow> u64 option" where
  "string_to_u64 s = map_option of_nat (parse_unsigned (2 ^ 64 - 1) s)"

lemma unat_u64_bound: "unat (x :: u64) \<le> 2 ^ 64 - 1"
  using unsigned_less [of x, where ?'a = nat] by simp

interpretation json_size: codec u64_to_string string_to_u64 "\<lambda>_. True"
  by unfold_locales
    (simp only: u64_to_string_def string_to_u64_def parse_unsigned_show [OF unat_u64_bound]
      option.map of_nat_unat ucast_id)

text \<open>\<open>utils::get_file_by_path\<close>: the node itself, or the first hit below it.\<close>

fun first_some :: "'a option list \<Rightarrow> 'a option" where
  "first_some [] = None"
| "first_some (None # rest) = first_some rest"
| "first_some (Some x # rest) = Some x"

fun get_file_by_path :: "string \<Rightarrow> shared_file \<Rightarrow> shared_file option" where
  "get_file_by_path file_choice (SharedFile p d fs n s) =
     (if p = file_choice then Some (SharedFile p d fs n s)
      else first_some (map (get_file_by_path file_choice) fs))"

subsection \<open>Lookup\<close>

text \<open>All nodes in preorder, and the nodes that are reached through directories only.\<close>

fun all_nodes :: "shared_file \<Rightarrow> shared_file list" where
  "all_nodes (SharedFile p d fs n s) = SharedFile p d fs n s # concat (map all_nodes fs)"

fun listed_nodes :: "shared_file \<Rightarrow> shared_file list" where
  "listed_nodes (SharedFile p d fs n s) =
     SharedFile p d fs n s # (if d then concat (map listed_nodes fs) else [])"

text \<open>A tree as the server builds it: only a directory has files.\<close>

definition tree_ok :: "shared_file \<Rightarrow> bool" where
  "tree_ok f \<longleftrightarrow> (\<forall>g \<in> set (all_nodes f). sf_is_directory g \<or> sf_files g = [])"

lemma first_some_find:
  "(\<And>x. x \<in> set xs \<Longrightarrow> g x = find P (h x)) \<Longrightarrow>
     first_some (map g xs) = find P (concat (map h xs))"
proof (induction xs)
  case Nil
  then show ?case by simp
next
  case (Cons x xs)
  have app: "find P (as @ bs) = (case find P as of None \<Rightarrow> find P bs | Some r \<Rightarrow> Some r)" for as bs
    by (induction as) auto
  from Cons show ?case by (cases "find P (h x)") (simp_all add: app)
qed

lemma find_mem: "find P xs = Some x \<Longrightarrow> x \<in> set xs \<and> P x"
  by (auto simp: find_Some_iff in_set_conv_nth)

lemma get_file_by_path_find:
  "get_file_by_path path f = find (\<lambda>g. sf_path g = path) (all_nodes f)"
proof (induction path f rule: get_file_by_path.induct)
  case (1 path p d fs n s)
  then show ?case
    by (cases "p = path") (auto intro!: first_some_find)
qed

lemma get_file_by_path_SomeD:
  "get_file_by_path path f = Some g \<Longrightarrow> g \<in> set (all_nodes f) \<and> sf_path g = path"
  unfolding get_file_by_path_find by (rule find_mem)

text \<open>
  \<open>get_file_by_path\<close> finds a file exactly when the tree has one with that path, and then the
  first in preorder: it is a search over all nodes.
\<close>

theorem get_file_by_path_preorder:
  "get_file_by_path path f = find (\<lambda>g. sf_path g = path) (all_nodes f)"
  by (rule get_file_by_path_find)

subsection \<open>What a received tree is after the checks\<close>

lemma listed_subset_all: "set (listed_nodes f) \<subseteq> set (all_nodes f)"
  by (induction f rule: listed_nodes.induct) auto

lemma tree_ok_child:
  "tree_ok (SharedFile p d fs n s) \<Longrightarrow> f \<in> set fs \<Longrightarrow> tree_ok f"
  by (auto simp: tree_ok_def)

lemma listed_all: "tree_ok f \<Longrightarrow> listed_nodes f = all_nodes f"
proof (induction f rule: listed_nodes.induct)
  case (1 p d fs n s)
  show ?case
  proof (cases d)
    case True
    with 1 show ?thesis by (auto intro!: arg_cong [where f = concat] map_cong dest: tree_ok_child)
  next
    case False
    with "1.prems" have "fs = []" by (simp add: tree_ok_def)
    then show ?thesis by simp
  qed
qed

lemma remove_invalid_fields [simp]:
  "sf_path (remove_invalid_files f) = sf_path f"
  "sf_is_directory (remove_invalid_files f) = sf_is_directory f"
  "sf_file_size (remove_invalid_files f) = sf_file_size f"
  "sf_size_string (remove_invalid_files f) = sf_size_string f"
  by (cases f, simp)+

lemma set_file_size_string_fields [simp]:
  "sf_path (set_file_size_string f) = sf_path f"
  "sf_is_directory (set_file_size_string f) = sf_is_directory f"
  "sf_file_size (set_file_size_string f) = sf_file_size f"
  "sf_files (set_file_size_string f) = sf_files f"
  "sf_size_string (set_file_size_string f) = get_file_size_string (sf_file_size f)"
  by (cases f, simp)+

lemma reset_fields [simp]:
  "sf_path (reset_file_size_string f) = sf_path f"
  "sf_is_directory (reset_file_size_string f) = sf_is_directory f"
  "sf_file_size (reset_file_size_string f) = sf_file_size f"
  by (cases f, simp)+

lemma tree_ok_remove: "tree_ok f \<Longrightarrow> tree_ok (remove_invalid_files f)"
  by (induction f rule: remove_invalid_files.induct) (fastforce simp: tree_ok_def)

text \<open>What a node is, apart from the text for its size and from its files.\<close>

definition node_key :: "shared_file \<Rightarrow> string \<times> bool \<times> u64" where
  "node_key f = (sf_path f, sf_is_directory f, sf_file_size f)"

lemma listed_set_size: "listed_nodes (set_file_size_string f) = set_file_size_string f # tl (listed_nodes f)"
  by (cases f) simp

lemma listed_Cons: "listed_nodes f = f # tl (listed_nodes f)"
  by (cases f) simp

lemma node_key_set_size [simp]: "node_key (set_file_size_string f) = node_key f"
  by (simp add: node_key_def)

lemma keys_set_size: "map node_key (listed_nodes (set_file_size_string f)) = map node_key (listed_nodes f)"
  by (metis listed_Cons listed_set_size list.simps(9) node_key_set_size)

lemma reset_keys: "map node_key (listed_nodes (reset_file_size_string f)) = map node_key (listed_nodes f)"
proof (induction f rule: reset_file_size_string.induct)
  case (1 p d fs n s)
  have child: "map node_key (listed_nodes (set_file_size_string
       (if sf_is_directory f then reset_file_size_string f else f))) = map node_key (listed_nodes f)"
    if "d" "f \<in> set fs" for f
    using 1 that by (simp add: keys_set_size)
  show ?case
    by (cases d) (auto simp: node_key_def [of "SharedFile _ _ _ _ _"] map_concat child comp_def
        intro!: arg_cong [where f = concat])
qed

lemma reset_sizes:
  "g \<in> set (listed_nodes (reset_file_size_string f)) \<Longrightarrow>
     sf_size_string g = get_file_size_string (sf_file_size g)"
proof (induction f arbitrary: g rule: reset_file_size_string.induct)
  case (1 p d fs n s)
  have child: "sf_size_string g = get_file_size_string (sf_file_size g)"
    if "d" "f \<in> set fs" and g: "g \<in> set (listed_nodes (set_file_size_string
       (if sf_is_directory f then reset_file_size_string f else f)))" for f
  proof (cases "sf_is_directory f")
    case True
    from g have "g = set_file_size_string (if sf_is_directory f then reset_file_size_string f else f)
        \<or> g \<in> set (tl (listed_nodes (reset_file_size_string f)))"
      unfolding listed_set_size using True by simp
    with 1(1) [OF _ that(2) True] that(1) show ?thesis
      by (metis list.set_sel(2) listed_Cons list.distinct(1) set_file_size_string_fields(3,5))
  next
    case False
    with g show ?thesis by (cases f) simp
  qed
  show ?case using "1.prems" child by (cases d) auto
qed

text \<open>
  What the receiver keeps of a listing: after \<open>reset_file_size_string\<close> every node that is
  reached through directories shows the text of its own size, and no node is lost, added or
  changed otherwise.
\<close>

theorem reset_listing:
  "map node_key (listed_nodes (reset_file_size_string f)) = map node_key (listed_nodes f)
   \<and> list_all (\<lambda>g. sf_size_string g = get_file_size_string (sf_file_size g))
       (listed_nodes (reset_file_size_string f))"
  by (simp add: reset_keys list_all_iff reset_sizes)

text \<open>The nodes that stay: those below the root whose whole chain of directories is valid.\<close>

fun valid_nodes :: "shared_file \<Rightarrow> shared_file list" where
  "valid_nodes (SharedFile p d fs n s) =
     SharedFile p d fs n s
     # (if d then concat (map valid_nodes (filter (\<lambda>x. file_contains_only_valid_chars (sf_path x)) fs))
        else [])"

lemma remove_keeps_valid:
  "map node_key (listed_nodes (remove_invalid_files f)) = map node_key (valid_nodes f)"
  by (induction f rule: remove_invalid_files.induct)
    (auto simp: node_key_def map_concat comp_def intro!: arg_cong [where f = concat])

lemma remove_all_valid:
  "g \<in> set (tl (listed_nodes (remove_invalid_files f))) \<Longrightarrow> file_contains_only_valid_chars (sf_path g)"
proof (induction f rule: remove_invalid_files.induct)
  case (1 p d fs n s)
  then obtain f where f: "d" "f \<in> set fs" "file_contains_only_valid_chars (sf_path f)"
    "g \<in> set (listed_nodes (remove_invalid_files f))"
    by (auto split: if_splits)
  from f(4) have "g = remove_invalid_files f \<or> g \<in> set (tl (listed_nodes (remove_invalid_files f)))"
    using listed_Cons [of "remove_invalid_files f"] by (metis set_ConsD)
  with f 1 show ?case by auto
qed



text \<open>
  A hole in that filter: the files of a node that is not marked as a directory are not looked
  at, although the lookup descends into them, so a peer can keep any path in its list.
\<close>

theorem hidden_child_survives:
  assumes "file_contains_only_valid_chars v" and "q \<notin> {r, v}"
  shows "get_file_by_path q (remove_invalid_files
     (SharedFile r True [SharedFile v False [SharedFile q False [] n s] m t] k u))
     = Some (SharedFile q False [] n s)"
  using assms by auto

theorem hidden_child_survives_witness:
  "\<not> file_contains_only_valid_chars ''../x''
   \<and> get_file_by_path ''../x'' (remove_invalid_files
     (SharedFile ''r'' True [SharedFile ''/a'' False [SharedFile ''../x'' False [] 0 ''''] 0 ''''] 0 ''''))
     = Some (SharedFile ''../x'' False [] 0 '''')"
proof -
  have "file_contains_only_valid_chars ''/a''" "\<not> file_contains_only_valid_chars ''../x''"
    by code_simp+
  with hidden_child_survives [of "''/a''" "''../x''" "''r''"] show ?thesis by simp
qed

end
