(* ===== verification/Host_Files.thy ===== *)
theory Host_Files
  imports Shared_Files
begin

text \<open>
  The part of \<open>std::fs\<close> that the program uses, on an explicit file system, and the UTF-8 check of
  \<open>std::str::from_utf8\<close>. A path names a file by its components, so \<open>a/b\<close> and \<open>a//b/\<close> are one
  file; a component \<open>..\<close> is a name like any other. A file system may refuse a path (permissions)
  and may run out of room, which leaves a part of a write on the disk.
\<close>

subsection \<open>UTF-8\<close>

fun cont_bytes :: "nat \<Rightarrow> nat list \<Rightarrow> bool" where
  "cont_bytes 0 bs = True"
| "cont_bytes (Suc n) [] = False"
| "cont_bytes (Suc n) (b # bs) = (128 \<le> b \<and> b \<le> 191 \<and> cont_bytes n bs)"

text \<open>
  How long the character that starts with \<open>b\<close> is, and the bounds of its second byte: no overlong
  forms, no surrogates, nothing above U+10FFFF.
\<close>

definition utf8_head :: "nat \<Rightarrow> (nat \<times> nat \<times> nat) option" where
  "utf8_head b =
     (if b < 128 then Some (0, 0, 0)
      else if 194 \<le> b \<and> b \<le> 223 then Some (1, 128, 191)
      else if b = 224 then Some (2, 160, 191)
      else if b = 237 then Some (2, 128, 159)
      else if 225 \<le> b \<and> b \<le> 239 then Some (2, 128, 191)
      else if b = 240 then Some (3, 144, 191)
      else if 241 \<le> b \<and> b \<le> 243 then Some (3, 128, 191)
      else if b = 244 then Some (3, 128, 143)
      else None)"

function utf8_valid :: "nat list \<Rightarrow> bool" where
  "utf8_valid [] = True"
| "utf8_valid (b # bs) =
     (case utf8_head b of
        None \<Rightarrow> False
      | Some (n, lo, hi) \<Rightarrow>
          (n = 0 \<or> (bs \<noteq> [] \<and> lo \<le> hd bs \<and> hd bs \<le> hi \<and> cont_bytes n bs))
          \<and> utf8_valid (drop n bs))"
  by pat_completeness auto
termination
  by (relation "measure length") auto

definition is_utf8 :: "bytes \<Rightarrow> bool" where
  "is_utf8 bs \<longleftrightarrow> utf8_valid (map unat bs)"

text \<open>\<open>std::str::from_utf8\<close>.\<close>

definition from_utf8 :: "bytes \<Rightarrow> (error, string) outcome" where
  "from_utf8 bs = (if is_utf8 bs then Ok (of_bytes bs) else Err (ConfigError NotUtf8))"

lemma utf8_valid_ascii: "\<forall>b \<in> set bs. b < 128 \<Longrightarrow> utf8_valid bs"
  by (induction bs) (auto simp: utf8_head_def)

lemma is_utf8_ascii: "is_ascii s \<Longrightarrow> is_utf8 (as_bytes s)"
proof -
  assume a: "is_ascii s"
  have "unat (of_char c :: u8) = of_char c" for c
  proof -
    have "(of_char c :: nat) < 256" by simp
    moreover have "unat (of_nat (of_char c) :: u8) = of_char c mod 256"
      by (simp only: unat_of_nat len_num1 len_bit0) simp
    ultimately show ?thesis by (simp only: of_nat_of_char) simp
  qed
  with a show ?thesis
    unfolding is_utf8_def as_bytes_def is_ascii_def
    by (intro utf8_valid_ascii) auto
qed

subsection \<open>The file system\<close>

type_synonym fpath = "string list"

record file_sys =
  fs_files :: "fpath \<Rightarrow> bytes option"
  fs_is_dir :: "fpath \<Rightarrow> bool"
  fs_denied :: "fpath \<Rightarrow> bool"
  fs_room :: "nat option"

type_synonym 'a fs_op = "(file_sys, error, 'a) io"

definition fs_exists :: "string \<Rightarrow> file_sys \<Rightarrow> bool" where
  "fs_exists p fs \<longleftrightarrow> fs_files fs (path_iter p) \<noteq> None \<or> fs_is_dir fs (path_iter p)"

definition fs_metadata_len :: "string \<Rightarrow> nat fs_op" where
  "fs_metadata_len p fs =
     (case fs_files fs (path_iter p) of
        Some bs \<Rightarrow> (Ok (length bs), fs)
      | None \<Rightarrow> if fs_is_dir fs (path_iter p) then (Ok 4096, fs) else (Err (IoError NotFound), fs))"

definition fs_read_to_string :: "string \<Rightarrow> string fs_op" where
  "fs_read_to_string p fs =
     (case fs_files fs (path_iter p) of
        None \<Rightarrow> (Err (IoError NotFound), fs)
      | Some bs \<Rightarrow> if fs_denied fs (path_iter p) \<or> \<not> is_utf8 bs then (Err (IoError OtherIo), fs)
                   else (Ok (of_bytes bs), fs))"

text \<open>Whether a file may be opened for writing, and the bytes put behind what it has.\<close>

definition fs_may_write :: "fpath \<Rightarrow> file_sys \<Rightarrow> bool" where
  "fs_may_write k fs \<longleftrightarrow> k \<noteq> [] \<and> \<not> fs_denied fs k \<and> \<not> fs_is_dir fs k
     \<and> (butlast k = [] \<or> fs_is_dir fs (butlast k))"

definition fs_put :: "fpath \<Rightarrow> bytes \<Rightarrow> bytes \<Rightarrow> unit fs_op" where
  "fs_put k old bs fs =
     (case fs_room fs of
        None \<Rightarrow> (Ok (), fs\<lparr>fs_files := (fs_files fs)(k := Some (old @ bs))\<rparr>)
      | Some r \<Rightarrow>
          (if length bs \<le> r then Ok () else Err (IoError OtherIo),
           fs\<lparr>fs_files := (fs_files fs)(k := Some (old @ take r bs)),
              fs_room := Some (r - length bs)\<rparr>))"

text \<open>\<open>fs::write\<close>, and opening with \<open>create\<close> and \<open>truncate\<close> before \<open>write_all\<close>.\<close>

definition fs_write :: "string \<Rightarrow> bytes \<Rightarrow> unit fs_op" where
  "fs_write p bs fs =
     (if fs_may_write (path_iter p) fs then fs_put (path_iter p) [] bs fs
      else (Err (IoError OtherIo), fs))"

text \<open>Opening with \<open>append\<close> and \<open>create\<close> before \<open>write_all\<close>.\<close>

definition fs_append_create :: "string \<Rightarrow> bytes \<Rightarrow> unit fs_op" where
  "fs_append_create p bs fs =
     (if fs_may_write (path_iter p) fs
      then fs_put (path_iter p) (case fs_files fs (path_iter p) of None \<Rightarrow> [] | Some b \<Rightarrow> b) bs fs
      else (Err (IoError OtherIo), fs))"

definition fs_remove_file :: "string \<Rightarrow> unit fs_op" where
  "fs_remove_file p fs =
     (case fs_files fs (path_iter p) of
        None \<Rightarrow> (Err (IoError (if fs_is_dir fs (path_iter p) then OtherIo else NotFound)), fs)
      | Some _ \<Rightarrow> if fs_denied fs (path_iter p) then (Err (IoError OtherIo), fs)
                  else (Ok (), fs\<lparr>fs_files := (fs_files fs)(path_iter p := None)\<rparr>))"

definition fs_create_dir_all :: "string \<Rightarrow> unit fs_op" where
  "fs_create_dir_all p fs =
     (let ks = prefixes (path_iter p) in
      if \<exists>k \<in> set ks. fs_files fs k \<noteq> None \<or> fs_denied fs k then (Err (IoError OtherIo), fs)
      else (Ok (), fs\<lparr>fs_is_dir := (\<lambda>k. k \<in> set ks \<or> fs_is_dir fs k)\<rparr>))"

subsection \<open>What the operations leave alone\<close>

lemma fs_put_file:
  "fs_files (snd (fs_put k old bs fs)) k' =
     (if k' = k then Some (old @ (case fs_room fs of None \<Rightarrow> bs | Some r \<Rightarrow> take r bs)) else fs_files fs k')"
  by (auto simp: fs_put_def split: option.split)

lemma fs_put_dirs [simp]:
  "fs_is_dir (snd (fs_put k old bs fs)) = fs_is_dir fs"
  "fs_denied (snd (fs_put k old bs fs)) = fs_denied fs"
  by (auto simp: fs_put_def split: option.split)

lemma fs_put_Ok:
  "fs_put k old bs fs = (Ok u, fs') \<Longrightarrow>
     fs_files fs' = (fs_files fs)(k := Some (old @ bs)) \<and> fs_is_dir fs' = fs_is_dir fs
     \<and> fs_denied fs' = fs_denied fs"
  by (auto simp: fs_put_def split: option.splits if_splits)

lemma fs_write_Ok:
  "fs_write p bs fs = (Ok u, fs') \<Longrightarrow>
     fs_files fs' = (fs_files fs)(path_iter p := Some bs) \<and> fs_is_dir fs' = fs_is_dir fs
     \<and> fs_denied fs' = fs_denied fs \<and> \<not> fs_denied fs (path_iter p) \<and> \<not> fs_is_dir fs (path_iter p)"
  by (auto simp: fs_write_def fs_may_write_def split: if_splits dest!: fs_put_Ok)

lemma fs_write_other: "k \<noteq> path_iter p \<Longrightarrow> fs_files (snd (fs_write p bs fs)) k = fs_files fs k"
  by (simp add: fs_write_def fs_put_file)

lemma fs_read_written:
  assumes "fs_write p bs fs = (Ok u, fs')" and "is_utf8 bs"
  shows "fs_read_to_string p fs' = (Ok (of_bytes bs), fs')"
  using fs_write_Ok [OF assms(1)] assms(2) by (simp add: fs_read_to_string_def)

lemma fs_remove_other: "k \<noteq> path_iter p \<Longrightarrow> fs_files (snd (fs_remove_file p fs)) k = fs_files fs k"
  by (simp add: fs_remove_file_def split: option.split)

lemma fs_read_keeps: "snd (fs_read_to_string p fs) = fs"
  by (simp add: fs_read_to_string_def split: option.split)

lemma fs_create_dir_files [simp]: "fs_files (snd (fs_create_dir_all p fs)) = fs_files fs"
  by (simp add: fs_create_dir_all_def Let_def)

text \<open>A disk with one empty directory, for examples.\<close>

definition demo_fs :: file_sys where
  "demo_fs = \<lparr>fs_files = (\<lambda>_. None), fs_is_dir = (\<lambda>k. k \<in> {[''/''], [''/'', ''c'']}),
     fs_denied = (\<lambda>_. False), fs_room = None\<rparr>"

end
