(* ===== verification/Encrypted_Stream.thy ===== *)
theory Encrypted_Stream
  imports Core_Types
begin

text \<open>
  \<open>encrypted_stream.rs\<close>: frames of a message number and a payload, each half encrypted on its
  own under the next nonce. The cipher (AES-256-GCM) and the checksum (crc32fast) are not code of
  the repository: they are the fields of \<open>crypto_env\<close>, and \<open>aead_ok\<close> states what the cipher's
  documentation says of them.
\<close>

record crypto_env =
  aead_encrypt :: "bytes \<Rightarrow> bytes \<Rightarrow> bytes \<Rightarrow> bytes option"
  aead_decrypt :: "bytes \<Rightarrow> bytes \<Rightarrow> bytes \<Rightarrow> bytes option"
  crc32 :: "bytes \<Rightarrow> u32"

text \<open>
  A plaintext that fits the stream's buffer encrypts, to a text 16 bytes longer, which decrypts
  to the plaintext under the same key and nonce.
\<close>

definition aead_ok :: "crypto_env \<Rightarrow> bool" where
  "aead_ok env \<longleftrightarrow>
     (\<forall>k n p. length p \<le> TOTAL_BUFFER_SIZE \<longrightarrow>
        (\<exists>c. aead_encrypt env k n p = Some c \<and> length c = length p + CRYPTO_EXTENSION_SIZE
             \<and> aead_decrypt env k n c = Some p))"

subsection \<open>State\<close>

definition NONCE_MAX :: u128 where "NONCE_MAX = 79228162514264337593543950335"
definition NONCE_INIT :: u128 where "NONCE_INIT = 0"

record encrypted_stream =
  es_stream :: tcp_stream
  es_key :: bytes
  es_nonce :: u128
  es_crypto_buffer :: bytes
  es_buffer :: bytes
  es_shared_user :: shared_user
  es_private_id_bytes :: bytes
  es_reverse_message :: u16

definition new_encrypted_stream ::
  "tcp_stream \<Rightarrow> bytes \<Rightarrow> shared_user \<Rightarrow> bytes \<Rightarrow> encrypted_stream" where
  "new_encrypted_stream stream encryption_key user private_id_bytes =
     \<lparr>es_stream = stream, es_key = encryption_key, es_nonce = NONCE_INIT,
      es_crypto_buffer = replicate TOTAL_CRYPTO_BUFFER_SIZE 0,
      es_buffer = replicate TOTAL_BUFFER_SIZE 0, es_shared_user = user,
      es_private_id_bytes = private_id_bytes, es_reverse_message = 0\<rparr>"

type_synonym 'a es_op = "(encrypted_stream, error, 'a) io"

subsection \<open>Nonce\<close>

definition increment_nonce :: "unit es_op" where
  "increment_nonce es =
     (if NONCE_MAX \<le> es_nonce es then (Err (StreamError NonceMaxed), es)
      else (Ok (), es\<lparr>es_nonce := es_nonce es + 1\<rparr>))"

text \<open>\<open>to_be_bytes()[4..]\<close>: the low 12 of the 16 bytes.\<close>

definition nonce_bytes :: "u128 \<Rightarrow> bytes" where
  "nonce_bytes n = drop 4 (be_enc 16 (unat n))"

definition get_nonce_bytes :: "encrypted_stream \<Rightarrow> bytes" where
  "get_nonce_bytes es = nonce_bytes (es_nonce es)"

subsection \<open>Reading\<close>

definition is_crc_payload :: "u16 \<Rightarrow> bool" where
  "is_crc_payload message \<longleftrightarrow> message \<in> set CRC_MESSAGES"

text \<open>\<open>read_exact\<close> into \<open>crypto_buffer[..read_size]\<close>: the slice panics when it is too long.\<close>

definition es_read_stream :: "nat \<Rightarrow> unit es_op" where
  "es_read_stream read_size es =
     (if length (es_crypto_buffer es) < read_size then (Panic, es)
      else (case read_exact read_size (es_stream es) of
              (Ok bs, t) \<Rightarrow>
                (Ok (), es\<lparr>es_stream := t, es_crypto_buffer := bs @ drop read_size (es_crypto_buffer es)\<rparr>)
            | (Err e, t) \<Rightarrow> (Err e, es\<lparr>es_stream := t\<rparr>)
            | (Panic, t) \<Rightarrow> (Panic, es\<lparr>es_stream := t\<rparr>)
            | (Exit c, t) \<Rightarrow> (Exit c, es\<lparr>es_stream := t\<rparr>)))"

definition get_message :: "encrypted_stream \<Rightarrow> (error, u16) outcome" where
  "get_message es = and_then (slice 0 2 (es_buffer es)) (\<lambda>bs. Ok (of_nat (be_dec bs)))"

definition payload_size :: "encrypted_stream \<Rightarrow> (error, nat) outcome" where
  "payload_size es = and_then (slice MSG_TYPE_SIZE PAYLOAD_OFFSET (es_buffer es)) (\<lambda>bs. Ok (be_dec bs))"

definition get_payload :: "crypto_env \<Rightarrow> encrypted_stream \<Rightarrow> (error, bytes) outcome" where
  "get_payload env es =
     and_then (payload_size es) (\<lambda>size.
     and_then (slice PAYLOAD_OFFSET (PAYLOAD_OFFSET + size) (es_buffer es)) (\<lambda>payload.
     and_then (get_message es) (\<lambda>message.
       if is_crc_payload message \<and> 0 < size then
         and_then (slice (PAYLOAD_OFFSET + size) (PAYLOAD_OFFSET + size + CRC_SIZE) (es_buffer es))
           (\<lambda>expected_bytes.
              let expected = of_nat (be_dec expected_bytes); actual = crc32 env payload in
              if expected \<noteq> actual then Err (StreamError (ChecksumMismatch actual expected)) else Ok payload)
       else Ok payload)))"

text \<open>Decrypt \<open>crypto_buffer[..read_size]\<close> into the buffer at \<open>off\<close>; the plaintext's length is returned.\<close>

definition es_decrypt_to :: "crypto_env \<Rightarrow> nat \<Rightarrow> nat \<Rightarrow> error \<Rightarrow> nat es_op" where
  "es_decrypt_to env read_size off err es =
     (case aead_decrypt env (es_key es) (get_nonce_bytes es) (take read_size (es_crypto_buffer es)) of
        None \<Rightarrow> (Err err, es)
      | Some plaintext \<Rightarrow>
          (case (copy_at off plaintext (es_buffer es) :: (error, bytes) outcome) of
             Ok buffer \<Rightarrow> (Ok (length plaintext), es\<lparr>es_buffer := buffer\<rparr>)
           | _ \<Rightarrow> (Panic, es)))"

definition es_read :: "crypto_env \<Rightarrow> unit es_op" where
  "es_read env =
     (let read_size = PAYLOAD_OFFSET + CRYPTO_EXTENSION_SIZE in
      io_then (es_read_stream read_size)
      (io_bind (es_decrypt_to env read_size 0 (StreamError DecryptMessage)) (\<lambda>msg_len.
       io_then increment_nonce
       (io_bind (io_query payload_size) (\<lambda>size.
        io_bind (io_query get_message) (\<lambda>msg.
        if size = 0 then io_ok ()
        else
          (let read_size = size + CRYPTO_EXTENSION_SIZE + (if is_crc_payload msg then CRC_SIZE else 0) in
           io_then (es_read_stream read_size)
           (io_then (es_decrypt_to env read_size msg_len (StreamError DecryptPayload))
            increment_nonce))))))))"

subsection \<open>Writing\<close>

definition es_write_stream :: "bytes \<Rightarrow> unit es_op" where
  "es_write_stream bs es =
     (case write_all bs (es_stream es) of (r, t) \<Rightarrow> (r, es\<lparr>es_stream := t\<rparr>))"

definition es_copy :: "nat \<Rightarrow> bytes \<Rightarrow> unit es_op" where
  "es_copy off src es =
     (case (copy_at off src (es_buffer es) :: (error, bytes) outcome) of
        Ok buffer \<Rightarrow> (Ok (), es\<lparr>es_buffer := buffer\<rparr>)
      | _ \<Rightarrow> (Panic, es))"

text \<open>Encrypt \<open>buffer[..n]\<close> under the current nonce and write it out.\<close>

definition es_encrypt_out :: "crypto_env \<Rightarrow> nat \<Rightarrow> error \<Rightarrow> unit es_op" where
  "es_encrypt_out env n err es =
     (case aead_encrypt env (es_key es) (get_nonce_bytes es) (take n (es_buffer es)) of
        None \<Rightarrow> (Err err, es)
      | Some cipher_text \<Rightarrow> es_write_stream cipher_text es)"

text \<open>The size field is \<open>payload.len() as u32\<close>, which keeps the low 32 bits.\<close>

definition es_write_message :: "crypto_env \<Rightarrow> u16 \<Rightarrow> bytes \<Rightarrow> unit es_op" where
  "es_write_message env msg payload =
     io_then (es_copy 0 (be_enc 2 (unat msg)))
     (io_then (es_copy MSG_TYPE_SIZE (be_enc PAYLOAD_SIZE_LEN (length payload mod 2 ^ 32)))
     (io_then (es_encrypt_out env PAYLOAD_OFFSET (StreamError EncryptMessage))
      increment_nonce))"

definition es_write_payload :: "crypto_env \<Rightarrow> u16 \<Rightarrow> bytes \<Rightarrow> unit es_op" where
  "es_write_payload env msg payload =
     io_then (es_copy 0 payload)
     (if is_crc_payload msg then
        io_then (es_copy (length payload) (be_enc CRC_SIZE (unat (crc32 env payload))))
        (io_then (es_encrypt_out env (length payload + CRC_SIZE) (StreamError EncryptPayload))
         increment_nonce)
      else
        io_then (es_encrypt_out env (length payload) (StreamError EncryptPayload))
        increment_nonce)"

definition es_write :: "crypto_env \<Rightarrow> u16 \<Rightarrow> bytes \<Rightarrow> unit es_op" where
  "es_write env msg payload =
     io_then (es_write_message env msg payload)
     (if payload \<noteq> [] then es_write_payload env msg payload else io_ok ())"

subsection \<open>Buffers keep their size\<close>

definition es_wf :: "encrypted_stream \<Rightarrow> bool" where
  "es_wf es \<longleftrightarrow> length (es_crypto_buffer es) = TOTAL_CRYPTO_BUFFER_SIZE
              \<and> length (es_buffer es) = TOTAL_BUFFER_SIZE"

lemma es_wf_new: "es_wf (new_encrypted_stream stream key user pid)"
  by (simp add: es_wf_def new_encrypted_stream_def)

lemma keeps_read_stream [keeps_intros]: "keeps es_wf (es_read_stream n)"
  by (auto simp: keeps_def es_wf_def es_read_stream_def read_exact_def)

lemma keeps_decrypt_to [keeps_intros]: "keeps es_wf (es_decrypt_to env n off err)"
  by (auto simp: keeps_def es_wf_def es_decrypt_to_def copy_at_def split: option.split)

lemma keeps_increment [keeps_intros]: "keeps es_wf increment_nonce"
  by (simp add: keeps_def es_wf_def increment_nonce_def)

lemma keeps_write_stream [keeps_intros]: "keeps es_wf (es_write_stream bs)"
  by (simp add: keeps_def es_wf_def es_write_stream_def split: prod.split)

lemma keeps_copy [keeps_intros]: "keeps es_wf (es_copy off src)"
  by (simp add: keeps_def es_wf_def es_copy_def copy_at_def)

lemma keeps_encrypt_out [keeps_intros]: "keeps es_wf (es_encrypt_out env n err)"
  using keeps_write_stream by (auto simp: keeps_def es_encrypt_out_def split: option.split)

lemma keeps_read: "keeps es_wf (es_read env)"
  unfolding es_read_def Let_def
  by (intro keeps_intros)

lemma keeps_write: "keeps es_wf (es_write env msg payload)"
  unfolding es_write_def es_write_message_def es_write_payload_def
  by (intro keeps_intros)

subsection \<open>Frames on the wire\<close>

text \<open>
  What one \<open>write\<close> puts on the wire, as a function of the key, the nonce and the frame: the
  specification that writer and reader are both compared with.
\<close>

type_synonym frame = "u16 \<times> bytes"

definition seal :: "crypto_env \<Rightarrow> bytes \<Rightarrow> u128 \<Rightarrow> bytes \<Rightarrow> bytes" where
  "seal env k n pt = the (aead_encrypt env k (nonce_bytes n) pt)"

definition head_plain :: "frame \<Rightarrow> bytes" where
  "head_plain f = be_enc 2 (unat (fst f)) @ be_enc 4 (length (snd f))"

definition body_plain :: "crypto_env \<Rightarrow> frame \<Rightarrow> bytes" where
  "body_plain env f =
     snd f @ (if is_crc_payload (fst f) then be_enc 4 (unat (crc32 env (snd f))) else [])"

definition frame_nonces :: "frame \<Rightarrow> nat" where
  "frame_nonces f = (if snd f = [] then 1 else 2)"

definition frame_wire :: "crypto_env \<Rightarrow> bytes \<Rightarrow> u128 \<Rightarrow> frame \<Rightarrow> bytes" where
  "frame_wire env k n f =
     seal env k n (head_plain f) @ (if snd f = [] then [] else seal env k (n + 1) (body_plain env f))"

definition frame_ok :: "frame \<Rightarrow> bool" where
  "frame_ok f \<longleftrightarrow> length (snd f) \<le> MAX_DATA_SIZE"

lemma length_head_plain [simp]: "length (head_plain f) = 6"
  by (simp add: head_plain_def)

lemma length_body_plain:
  "length (body_plain env f) = length (snd f) + (if is_crc_payload (fst f) then 4 else 0)"
  by (simp add: body_plain_def)

lemma seal_ok:
  assumes "aead_ok env" and "length pt \<le> TOTAL_BUFFER_SIZE"
  shows "aead_encrypt env k (nonce_bytes n) pt = Some (seal env k n pt)"
    and "length (seal env k n pt) = length pt + 16"
    and "aead_decrypt env k (nonce_bytes n) (seal env k n pt) = Some pt"
proof -
  from assms obtain c where c: "aead_encrypt env k (nonce_bytes n) pt = Some c"
    "length c = length pt + CRYPTO_EXTENSION_SIZE" "aead_decrypt env k (nonce_bytes n) c = Some pt"
    unfolding aead_ok_def by blast
  then show "aead_encrypt env k (nonce_bytes n) pt = Some (seal env k n pt)"
    "length (seal env k n pt) = length pt + 16"
    "aead_decrypt env k (nonce_bytes n) (seal env k n pt) = Some pt"
    by (simp_all add: seal_def CRYPTO_EXTENSION_SIZE_def)
qed

lemma unat_NONCE_MAX: "unat NONCE_MAX = 2 ^ 96 - 1"
  by (simp add: NONCE_MAX_def)

lemma unat_nonce_add:
  "unat (n :: u128) + k \<le> unat NONCE_MAX \<Longrightarrow> unat (n + of_nat k) = unat n + k"
  by (simp add: unat_NONCE_MAX unat_word_ariths unat_of_nat)

lemma increment_nonce_ok:
  "unat (es_nonce es) < unat NONCE_MAX \<Longrightarrow>
     increment_nonce es = (Ok (), es\<lparr>es_nonce := es_nonce es + 1\<rparr>)"
  by (simp add: increment_nonce_def word_le_nat_alt)

lemma es_copy_ok:
  "off + length src \<le> length (es_buffer es) \<Longrightarrow>
     es_copy off src es =
       (Ok (), es\<lparr>es_buffer := take off (es_buffer es) @ src @ drop (off + length src) (es_buffer es)\<rparr>)"
  by (simp add: es_copy_def copy_at_def)

definition emit :: "bytes \<Rightarrow> encrypted_stream \<Rightarrow> encrypted_stream" where
  "emit bs es = es\<lparr>es_stream := (es_stream es)\<lparr>t_out := t_out (es_stream es) @ bs\<rparr>\<rparr>"

lemma encrypt_out_ok:
  assumes "aead_ok env" and "n \<le> TOTAL_BUFFER_SIZE" and "t_room (es_stream es) = None"
  shows "es_encrypt_out env n err es =
           (Ok (), emit (seal env (es_key es) (es_nonce es) (take n (es_buffer es))) es)"
proof -
  have "length (take n (es_buffer es)) \<le> TOTAL_BUFFER_SIZE" using assms(2) by simp
  from seal_ok(1) [OF assms(1) this] assms(3) show ?thesis
    by (simp add: es_encrypt_out_def get_nonce_bytes_def es_write_stream_def write_all_Ok emit_def)
qed

lemma emit_simps [simp]:
  "es_buffer (emit bs es) = es_buffer es" "es_nonce (emit bs es) = es_nonce es"
  "es_key (emit bs es) = es_key es" "es_crypto_buffer (emit bs es) = es_crypto_buffer es"
  "t_room (es_stream (emit bs es)) = t_room (es_stream es)"
  "t_in (es_stream (emit bs es)) = t_in (es_stream es)"
  "t_out (es_stream (emit bs es)) = t_out (es_stream es) @ bs"
  "es_shared_user (emit bs es) = es_shared_user es"
  "es_reverse_message (emit bs es) = es_reverse_message es"
  "es_private_id_bytes (emit bs es) = es_private_id_bytes es"
  by (simp_all add: emit_def)

subsection \<open>Writing puts the frame on the wire\<close>

text \<open>The state after a write, but for the scratch buffer.\<close>

definition after_write :: "bytes \<Rightarrow> nat \<Rightarrow> bytes \<Rightarrow> encrypted_stream \<Rightarrow> encrypted_stream" where
  "after_write bs k buf es = (emit bs es)\<lparr>es_nonce := es_nonce es + of_nat k, es_buffer := buf\<rparr>"

lemma write_message_ok:
  assumes ok: "aead_ok env" "es_wf es" "t_room (es_stream es) = None"
    and len: "length p < 2 ^ 32" and n: "unat (es_nonce es) + 1 \<le> unat NONCE_MAX"
  shows "\<exists>buf. length buf = TOTAL_BUFFER_SIZE \<and>
     es_write_message env m p es =
       (Ok (), after_write (seal env (es_key es) (es_nonce es) (head_plain (m, p))) 1 buf es)"
proof -
  let ?b0 = "es_buffer es"
  let ?b1 = "be_enc 2 (unat m) @ drop 2 ?b0"
  let ?b2 = "take 2 ?b1 @ be_enc 4 (length p) @ drop 6 ?b1"
  have b0: "length ?b0 = 100010" using ok(2) by (simp add: es_wf_def size_consts)
  have t: "take 6 ?b2 = head_plain (m, p)" by (simp add: head_plain_def)
  have lb: "length ?b2 = TOTAL_BUFFER_SIZE" using b0 by (simp add: size_consts)
  have "es_write_message env m p es =
      (Ok (), after_write (seal env (es_key es) (es_nonce es) (take 6 ?b2)) 1 ?b2 es)"
    unfolding es_write_message_def after_write_def using b0 len n ok
    by (simp add: io_bind_def es_copy_ok encrypt_out_ok increment_nonce_ok size_consts emit_def)
  with t lb show ?thesis by metis
qed

lemma write_payload_ok:
  assumes ok: "aead_ok env" "es_wf es" "t_room (es_stream es) = None"
    and len: "length p \<le> MAX_DATA_SIZE" and n: "unat (es_nonce es) + 1 \<le> unat NONCE_MAX"
  shows "\<exists>buf. length buf = TOTAL_BUFFER_SIZE \<and>
     es_write_payload env m p es =
       (Ok (), after_write (seal env (es_key es) (es_nonce es) (body_plain env (m, p))) 1 buf es)"
proof -
  let ?b0 = "es_buffer es"
  let ?b1 = "p @ drop (length p) ?b0"
  let ?b2 = "p @ be_enc 4 (unat (crc32 env p)) @ drop (length p + 4) ?b1"
  have b0: "length ?b0 = 100010" using ok(2) by (simp add: es_wf_def size_consts)
  have lp: "length p \<le> 100000" using len by (simp add: size_consts)
  show ?thesis
  proof (cases "is_crc_payload m")
    case True
    have "take (length p + 4) ?b2 = body_plain env (m, p)" using True by (simp add: body_plain_def)
    moreover have "length ?b2 = TOTAL_BUFFER_SIZE" using b0 lp by (simp add: size_consts)
    moreover have "es_write_payload env m p es =
        (Ok (), after_write (seal env (es_key es) (es_nonce es) (take (length p + 4) ?b2)) 1 ?b2 es)"
      unfolding es_write_payload_def after_write_def using b0 lp n ok True
      by (simp add: io_bind_def es_copy_ok encrypt_out_ok increment_nonce_ok size_consts emit_def)
    ultimately show ?thesis by metis
  next
    case False
    have "take (length p) ?b1 = body_plain env (m, p)" using False by (simp add: body_plain_def)
    moreover have "length ?b1 = TOTAL_BUFFER_SIZE" using b0 lp by (simp add: size_consts)
    moreover have "es_write_payload env m p es =
        (Ok (), after_write (seal env (es_key es) (es_nonce es) (take (length p) ?b1)) 1 ?b1 es)"
      unfolding es_write_payload_def after_write_def using b0 lp n ok False
      by (simp add: io_bind_def es_copy_ok encrypt_out_ok increment_nonce_ok size_consts emit_def)
    ultimately show ?thesis by metis
  qed
qed

lemma es_write_ok:
  assumes ok: "aead_ok env" "es_wf es" "t_room (es_stream es) = None"
    and len: "frame_ok (m, p)" and n: "unat (es_nonce es) + frame_nonces (m, p) \<le> unat NONCE_MAX"
  shows "\<exists>buf. length buf = TOTAL_BUFFER_SIZE \<and>
     es_write env m p es =
       (Ok (), after_write (frame_wire env (es_key es) (es_nonce es) (m, p)) (frame_nonces (m, p)) buf es)"
proof -
  have lp: "length p \<le> MAX_DATA_SIZE" "length p < 2 ^ 32"
    using len by (simp_all add: frame_ok_def size_consts)
  have n1: "unat (es_nonce es) + 1 \<le> unat NONCE_MAX" using n by (simp add: frame_nonces_def split: if_splits)
  let ?h = "seal env (es_key es) (es_nonce es) (head_plain (m, p))"
  obtain buf where w: "length buf = TOTAL_BUFFER_SIZE"
    "es_write_message env m p es = (Ok (), after_write ?h 1 buf es)"
    using write_message_ok [OF ok lp(2) n1] by blast
  show ?thesis
  proof (cases "p = []")
    case True
    then have "es_write env m p es = (Ok (), after_write ?h 1 buf es)"
      using w by (simp add: es_write_def io_bind_def io_ok_def)
    with True w show ?thesis by (auto simp: frame_wire_def frame_nonces_def)
  next
    case False
    let ?es1 = "after_write ?h 1 buf es"
    have "es_wf ?es1" "t_room (es_stream ?es1) = None" "es_key ?es1 = es_key es"
      "es_nonce ?es1 = es_nonce es + 1"
      using ok w by (simp_all add: after_write_def es_wf_def)
    moreover have "unat (es_nonce es + 1) + 1 \<le> unat NONCE_MAX"
      using n False unat_nonce_add [of "es_nonce es" 1] by (simp add: frame_nonces_def)
    ultimately obtain buf2 where "length buf2 = TOTAL_BUFFER_SIZE"
      "es_write_payload env m p ?es1 =
         (Ok (), after_write (seal env (es_key es) (es_nonce es + 1) (body_plain env (m, p))) 1 buf2 ?es1)"
      using write_payload_ok [OF ok(1), of ?es1 p m] lp(1) by auto
    with w False show ?thesis
      by (auto simp: es_write_def io_bind_def frame_wire_def frame_nonces_def after_write_def emit_def
          intro!: exI [of _ buf2])
  qed
qed

subsection \<open>Reading takes the frame off the wire\<close>

definition after_read :: "bytes \<Rightarrow> nat \<Rightarrow> bytes \<Rightarrow> bytes \<Rightarrow> encrypted_stream \<Rightarrow> encrypted_stream" where
  "after_read rest k cb buf es =
     es\<lparr>es_stream := (es_stream es)\<lparr>t_in := rest\<rparr>, es_nonce := es_nonce es + of_nat k,
        es_crypto_buffer := cb, es_buffer := buf\<rparr>"

lemma read_stream_ok:
  assumes "t_in (es_stream es) = a @ b" and "length a \<le> length (es_crypto_buffer es)" and "n = length a"
  shows "es_read_stream n es =
     (Ok (), es\<lparr>es_stream := (es_stream es)\<lparr>t_in := b\<rparr>,
               es_crypto_buffer := a @ drop n (es_crypto_buffer es)\<rparr>)"
  using assms by (simp add: es_read_stream_def read_exact_def)

lemma decrypt_ok:
  assumes "aead_ok env" and "length pt \<le> TOTAL_BUFFER_SIZE"
    and "take n (es_crypto_buffer es) = seal env (es_key es) (es_nonce es) pt"
    and "off + length pt \<le> length (es_buffer es)"
  shows "es_decrypt_to env n off err es =
     (Ok (length pt),
      es\<lparr>es_buffer := take off (es_buffer es) @ pt @ drop (off + length pt) (es_buffer es)\<rparr>)"
  using assms seal_ok(3) [OF assms(1,2)]
  by (simp add: es_decrypt_to_def get_nonce_bytes_def copy_at_def)

lemma be_dec_u16 [simp]: "be_dec (be_enc 2 (unat (m :: u16))) = unat m"
  using unsigned_less [of m, where ?'a = nat] by simp

lemma be_dec_u32 [simp]: "be_dec (be_enc 4 (unat (m :: u32))) = unat m"
  using unsigned_less [of m, where ?'a = nat] by simp

lemma head_fields:
  assumes "take 6 (es_buffer es) = head_plain (m, p)" and "length p < 2 ^ 32"
  shows "get_message es = Ok m" and "payload_size es = Ok (length p)"
proof -
  let ?b = "es_buffer es"
  have "length (take 6 ?b) = 6" by (simp add: assms(1))
  then have l: "6 \<le> length ?b" by simp
  have "take 2 ?b = take 2 (take 6 ?b)" by simp
  also have "\<dots> = be_enc 2 (unat m)" unfolding assms(1) by (simp add: head_plain_def)
  finally show "get_message es = Ok m" using l by (simp add: get_message_def slice_def)
  have "take 4 (drop 2 ?b) = drop 2 (take 6 ?b)" by (simp add: drop_take)
  also have "\<dots> = be_enc 4 (length p)" unfolding assms(1) by (simp add: head_plain_def)
  finally show "payload_size es = Ok (length p)"
    using l assms(2) by (simp add: payload_size_def slice_def size_consts)
qed

lemma body_payload:
  assumes h: "take 6 (es_buffer es) = head_plain (m, p)" and lp: "length p \<le> MAX_DATA_SIZE"
    and wf: "es_wf es"
    and b: "p \<noteq> [] \<Longrightarrow> take (length (body_plain env (m, p))) (drop 6 (es_buffer es)) = body_plain env (m, p)"
  shows "get_payload env es = Ok p"
proof -
  let ?b = "es_buffer es" and ?crc = "be_enc 4 (unat (crc32 env p))"
  have l: "length ?b = 100010" "length p \<le> 100000" using wf lp by (simp_all add: es_wf_def size_consts)
  note f = head_fields [OF h]
  show ?thesis
  proof (cases "p = []")
    case True
    with f l show ?thesis by (simp add: get_payload_def slice_def size_consts)
  next
    case False
    note b' = b [OF False]
    have "take (length p) (drop 6 ?b) = take (length p) (take (length (body_plain env (m, p))) (drop 6 ?b))"
      by (simp add: length_body_plain min_def)
    also have "\<dots> = p" unfolding b' by (simp add: body_plain_def)
    finally have payload: "take (length p) (drop 6 ?b) = p" .
    have crc: "take 4 (drop (6 + length p) ?b) = ?crc" if "is_crc_payload m"
    proof -
      have "take 4 (drop (6 + length p) ?b)
          = drop (length p) (take (length (body_plain env (m, p))) (drop 6 ?b))"
        using that by (simp add: length_body_plain drop_take add.commute)
      also have "\<dots> = ?crc" unfolding b' using that by (simp add: body_plain_def)
      finally show ?thesis .
    qed
    show ?thesis
      using f l payload crc
      by (simp add: get_payload_def slice_def size_consts add.commute)
  qed
qed

text \<open>What a reader finds in the buffer after a frame has been read.\<close>

definition holds_frame :: "crypto_env \<Rightarrow> frame \<Rightarrow> encrypted_stream \<Rightarrow> bool" where
  "holds_frame env f es \<longleftrightarrow> get_message es = Ok (fst f) \<and> get_payload env es = Ok (snd f)"

lemma es_read_ok:
  assumes ok: "aead_ok env" "es_wf es"
    and inp: "t_in (es_stream es) = frame_wire env (es_key es) (es_nonce es) (m, p) @ rest"
    and len: "frame_ok (m, p)" and n: "unat (es_nonce es) + frame_nonces (m, p) \<le> unat NONCE_MAX"
  shows "\<exists>cb buf. es_wf (after_read rest (frame_nonces (m, p)) cb buf es)
     \<and> es_read env es = (Ok (), after_read rest (frame_nonces (m, p)) cb buf es)
     \<and> holds_frame env (m, p) (after_read rest (frame_nonces (m, p)) cb buf es)"
proof -
  let ?k = "es_key es" and ?n = "es_nonce es" and ?b = "es_buffer es" and ?c = "es_crypto_buffer es"
  let ?s1 = "seal env ?k ?n (head_plain (m, p))"
  let ?s2 = "seal env ?k (?n + 1) (body_plain env (m, p))"
  have l: "length ?b = 100010" "length ?c = 100026" using ok(2) by (simp_all add: es_wf_def size_consts)
  have lp: "length p \<le> MAX_DATA_SIZE" "length p < 2 ^ 32" "length p \<le> 100000"
    using len by (simp_all add: frame_ok_def size_consts)
  have l1: "length ?s1 = 22" using seal_ok(2) [OF ok(1)] by (simp add: size_consts)
  have n1: "unat ?n + 1 \<le> unat NONCE_MAX" using n by (simp add: frame_nonces_def split: if_splits)
  define more where "more = (if p = [] then [] else ?s2) @ rest"
  have inp': "t_in (es_stream es) = ?s1 @ more"
    using inp by (simp add: frame_wire_def more_def)
  define c1 where "c1 = ?s1 @ drop 22 ?c"
  define b1 where "b1 = head_plain (m, p) @ drop 6 ?b"
  define es1 where "es1 = after_read more 1 c1 b1 es"
  have t6: "take 6 b1 = head_plain (m, p)" "length b1 = 100010" "length c1 = 100026"
    using l l1 by (simp_all add: b1_def c1_def)
  have wf1: "es_wf es1" using t6 by (simp add: es1_def after_read_def es_wf_def size_consts)
  have f: "get_message es1 = Ok m" "payload_size es1 = Ok (length p)"
    using head_fields [of es1 m p] t6 lp(2) by (simp_all add: es1_def after_read_def)
  have head: "es_read env es = io_bind (io_query payload_size) (\<lambda>size.
        io_bind (io_query get_message) (\<lambda>msg.
        if size = 0 then io_ok ()
        else
          (let read_size = size + CRYPTO_EXTENSION_SIZE + (if is_crc_payload msg then CRC_SIZE else 0) in
           io_then (es_read_stream read_size)
           (io_then (es_decrypt_to env read_size 6 (StreamError DecryptPayload))
            increment_nonce)))) es1"
  proof -
    have r: "es_read_stream 22 es = (Ok (), es\<lparr>es_stream := (es_stream es)\<lparr>t_in := more\<rparr>, es_crypto_buffer := c1\<rparr>)"
      unfolding c1_def by (rule read_stream_ok [OF inp']) (simp_all add: l l1)
    let ?e = "es\<lparr>es_stream := (es_stream es)\<lparr>t_in := more\<rparr>, es_crypto_buffer := c1\<rparr>"
    have d: "es_decrypt_to env 22 0 err ?e = (Ok 6, ?e\<lparr>es_buffer := b1\<rparr>)" for err
      using decrypt_ok [OF ok(1), of "head_plain (m, p)" 22 ?e 0 err] l l1
      by (simp add: c1_def b1_def size_consts)
    have i: "increment_nonce (?e\<lparr>es_buffer := b1\<rparr>) = (Ok (), es1)"
      using increment_nonce_ok [of "?e\<lparr>es_buffer := b1\<rparr>"] n1 by (simp add: es1_def after_read_def)
    show ?thesis
      unfolding es_read_def Let_def using r d i by (simp add: io_bind_def size_consts)
  qed
  show ?thesis
  proof (cases "p = []")
    case True
    have "es_read env es = (Ok (), es1)"
      unfolding head using f True by (simp add: io_bind_def io_query_def io_ok_def)
    moreover have "es1 = after_read rest (frame_nonces (m, p)) c1 b1 es"
      using True by (simp add: es1_def more_def frame_nonces_def)
    moreover have "holds_frame env (m, p) es1"
      using body_payload [of es1 m p env] t6 lp wf1 f True
      by (simp add: holds_frame_def es1_def after_read_def)
    ultimately show ?thesis using wf1 by metis
  next
    case False
    let ?body = "body_plain env (m, p)"
    let ?r = "length ?body + 16"
    define c2 where "c2 = ?s2 @ drop ?r c1"
    define b2 where "b2 = head_plain (m, p) @ ?body @ drop (6 + length ?body) b1"
    have lb: "length ?body \<le> TOTAL_BUFFER_SIZE" "6 + length ?body \<le> 100010"
      using lp by (simp_all add: length_body_plain size_consts)
    have l2: "length ?s2 = ?r" by (rule seal_ok(2) [OF ok(1) lb(1)])
    have rs: "length p + CRYPTO_EXTENSION_SIZE + (if is_crc_payload m then CRC_SIZE else 0) = ?r"
      by (simp add: length_body_plain size_consts)
    let ?e = "es1\<lparr>es_stream := (es_stream es1)\<lparr>t_in := rest\<rparr>, es_crypto_buffer := c2\<rparr>"
    have r: "es_read_stream ?r es1 = (Ok (), ?e)"
    proof -
      have i: "t_in (es_stream es1) = ?s2 @ rest"
        using False by (simp add: es1_def after_read_def more_def)
      have c: "es_crypto_buffer es1 = c1" by (simp add: es1_def after_read_def)
      have "length ?s2 \<le> length (es_crypto_buffer es1)" unfolding c using l2 lb t6 by simp
      from read_stream_ok [OF i this l2 [symmetric]] show ?thesis
        unfolding c2_def c .
    qed
    have d: "es_decrypt_to env ?r 6 err ?e = (Ok (length ?body), ?e\<lparr>es_buffer := b2\<rparr>)" for err
      using decrypt_ok [OF ok(1) lb(1), of ?r ?e 6 err] l2 lb t6
      by (simp add: c2_def b2_def es1_def after_read_def)
    have n2: "unat (?n + 1) < unat NONCE_MAX"
      using n False unat_nonce_add [of ?n 1] by (simp add: frame_nonces_def)
    let ?f = "after_read rest 2 c2 b2 es"
    have i: "increment_nonce (?e\<lparr>es_buffer := b2\<rparr>) = (Ok (), ?f)"
      using increment_nonce_ok [of "?e\<lparr>es_buffer := b2\<rparr>"] n2 by (simp add: es1_def after_read_def)
    have "es_read env es = (Ok (), ?f)"
      unfolding head using f r d i False rs by (simp add: io_bind_def io_query_def Let_def)
    moreover have lens: "length c2 = 100026" "length b2 = 100010"
      using l2 lb t6 by (simp_all add: c2_def b2_def)
    then have wf2: "es_wf ?f" by (simp add: es_wf_def after_read_def size_consts)
    moreover have "holds_frame env (m, p) ?f"
    proof -
      have "take 6 (es_buffer ?f) = head_plain (m, p)"
        "take (length ?body) (drop 6 (es_buffer ?f)) = ?body"
        by (simp_all add: after_read_def b2_def)
      then show ?thesis
        using body_payload [of ?f m p env] head_fields [of ?f m p] lp wf2
        by (simp add: holds_frame_def)
    qed
    moreover have "frame_nonces (m, p) = 2" using False by (simp add: frame_nonces_def)
    ultimately show ?thesis by metis
  qed
qed

subsection \<open>Sequences of frames\<close>

fun frames_wire :: "crypto_env \<Rightarrow> bytes \<Rightarrow> u128 \<Rightarrow> frame list \<Rightarrow> bytes" where
  "frames_wire env k n [] = []"
| "frames_wire env k n (f # fs) = frame_wire env k n f @ frames_wire env k (n + of_nat (frame_nonces f)) fs"

definition frames_nonces :: "frame list \<Rightarrow> nat" where
  "frames_nonces fs = sum_list (map frame_nonces fs)"

lemma frames_nonces_simps [simp]:
  "frames_nonces [] = 0" "frames_nonces (f # fs) = frame_nonces f + frames_nonces fs"
  "frames_nonces (fs @ gs) = frames_nonces fs + frames_nonces gs"
  by (simp_all add: frames_nonces_def)

lemma frames_wire_append:
  "frames_wire env k n (fs @ gs) = frames_wire env k n fs @ frames_wire env k (n + of_nat (frames_nonces fs)) gs"
  by (induction fs arbitrary: n) (simp_all add: add.assoc)

text \<open>Room for \<open>k\<close> more nonces on a connection that does not break.\<close>

definition can_write :: "crypto_env \<Rightarrow> nat \<Rightarrow> encrypted_stream \<Rightarrow> bool" where
  "can_write env k es \<longleftrightarrow> aead_ok env \<and> es_wf es \<and> t_room (es_stream es) = None
     \<and> unat (es_nonce es) + k \<le> unat NONCE_MAX"

text \<open>The frames \<open>fs\<close>, and nothing else, were written from \<open>es\<close> to \<open>es'\<close>.\<close>

definition wrote :: "crypto_env \<Rightarrow> frame list \<Rightarrow> encrypted_stream \<Rightarrow> encrypted_stream \<Rightarrow> bool" where
  "wrote env fs es es' \<longleftrightarrow>
     es_key es' = es_key es \<and> es_nonce es' = es_nonce es + of_nat (frames_nonces fs)
     \<and> t_out (es_stream es') = t_out (es_stream es) @ frames_wire env (es_key es) (es_nonce es) fs
     \<and> t_in (es_stream es') = t_in (es_stream es) \<and> t_room (es_stream es') = t_room (es_stream es)
     \<and> es_shared_user es' = es_shared_user es \<and> es_reverse_message es' = es_reverse_message es
     \<and> es_private_id_bytes es' = es_private_id_bytes es"

text \<open>The frames \<open>fs\<close> are what the reader finds next on the wire, and then \<open>rest\<close>.\<close>

definition incoming :: "crypto_env \<Rightarrow> bytes \<Rightarrow> frame list \<Rightarrow> encrypted_stream \<Rightarrow> bool" where
  "incoming env rest fs es \<longleftrightarrow> aead_ok env \<and> es_wf es \<and> list_all frame_ok fs
     \<and> t_in (es_stream es) = frames_wire env (es_key es) (es_nonce es) fs @ rest
     \<and> unat (es_nonce es) + frames_nonces fs \<le> unat NONCE_MAX"

text \<open>Reading changes neither the key, the peer, nor what was written.\<close>

definition read_kept :: "encrypted_stream \<Rightarrow> encrypted_stream \<Rightarrow> bool" where
  "read_kept es es' \<longleftrightarrow> es_key es' = es_key es \<and> t_out (es_stream es') = t_out (es_stream es)
     \<and> t_room (es_stream es') = t_room (es_stream es) \<and> es_shared_user es' = es_shared_user es
     \<and> es_reverse_message es' = es_reverse_message es
     \<and> es_private_id_bytes es' = es_private_id_bytes es"

lemma es_write_frame:
  assumes "frame_ok f" and "can_write env (frame_nonces f + k) es"
  shows "\<exists>es'. es_write env (fst f) (snd f) es = (Ok (), es') \<and> wrote env [f] es es' \<and> can_write env k es'"
proof -
  obtain m p where f: "f = (m, p)" by (cases f)
  from assms obtain buf where b: "length buf = TOTAL_BUFFER_SIZE"
    "es_write env m p es =
       (Ok (), after_write (frame_wire env (es_key es) (es_nonce es) f) (frame_nonces f) buf es)"
    using es_write_ok [of env es m p] by (auto simp: can_write_def f)
  moreover have "unat (es_nonce es + of_nat (frame_nonces f)) = unat (es_nonce es) + frame_nonces f"
    using assms(2) by (intro unat_nonce_add) (simp add: can_write_def)
  ultimately show ?thesis
    using assms(2) by (auto simp: f after_write_def wrote_def can_write_def es_wf_def)
qed

lemma es_read_frame:
  assumes "incoming env rest (f # fs) es"
  shows "\<exists>es'. es_read env es = (Ok (), es') \<and> holds_frame env f es' \<and> incoming env rest fs es'
            \<and> read_kept es es' \<and> es_nonce es' = es_nonce es + of_nat (frame_nonces f)"
proof -
  obtain m p where f: "f = (m, p)" by (cases f)
  have n: "unat (es_nonce es) + frame_nonces f \<le> unat NONCE_MAX"
    using assms by (simp add: incoming_def)
  obtain cb buf where r: "es_wf (after_read (frames_wire env (es_key es) (es_nonce es + of_nat (frame_nonces f)) fs @ rest)
       (frame_nonces f) cb buf es)"
    "es_read env es = (Ok (), after_read (frames_wire env (es_key es) (es_nonce es + of_nat (frame_nonces f)) fs @ rest)
       (frame_nonces f) cb buf es)"
    "holds_frame env f (after_read (frames_wire env (es_key es) (es_nonce es + of_nat (frame_nonces f)) fs @ rest)
       (frame_nonces f) cb buf es)"
    using es_read_ok [of env es m p "frames_wire env (es_key es) (es_nonce es + of_nat (frame_nonces f)) fs @ rest"]
      assms n by (auto simp: incoming_def f)
  moreover have "unat (es_nonce es + of_nat (frame_nonces f)) = unat (es_nonce es) + frame_nonces f"
    by (rule unat_nonce_add [OF n])
  ultimately show ?thesis
    using assms by (auto simp: incoming_def read_kept_def after_read_def)
qed

lemma wrote_Nil: "wrote env [] es es"
  by (simp add: wrote_def)

lemma wrote_trans:
  assumes "wrote env fs es es'" and "wrote env gs es' es''"
  shows "wrote env (fs @ gs) es es''"
  using assms by (simp add: wrote_def frames_wire_append add.assoc)

subsection \<open>Contract: a link that carries frames\<close>

text \<open>
  What uploads and downloads rely on: sending a legal frame succeeds while the link is ready,
  and receiving takes the pending frames in order.
\<close>

locale frame_link =
  fixes send :: "'f \<Rightarrow> ('s, 'e, unit) io"
    and recv :: "('s, 'e, unit) io"
    and cost :: "'f \<Rightarrow> nat"
    and legal :: "'f \<Rightarrow> bool"
    and ready :: "nat \<Rightarrow> 's \<Rightarrow> bool"
    and sent :: "'f list \<Rightarrow> 's \<Rightarrow> 's \<Rightarrow> bool"
    and pending :: "'f list \<Rightarrow> 's \<Rightarrow> bool"
    and holds :: "'f \<Rightarrow> 's \<Rightarrow> bool"
  assumes send_ok: "legal f \<Longrightarrow> ready (cost f + k) s \<Longrightarrow>
      \<exists>s'. send f s = (Ok (), s') \<and> sent [f] s s' \<and> ready k s'"
    and sent_Nil: "sent [] s s"
    and sent_trans: "sent fs s t \<Longrightarrow> sent gs t u \<Longrightarrow> sent (fs @ gs) s u"
    and recv_ok: "pending (f # fs) s \<Longrightarrow> \<exists>s'. recv s = (Ok (), s') \<and> holds f s' \<and> pending fs s'"
begin

lemma send_all:
  "list_all legal fs \<Longrightarrow> ready (sum_list (map cost fs) + k) s \<Longrightarrow>
     \<exists>s'. io_for send fs s = (Ok (), s') \<and> sent fs s s' \<and> ready k s'"
proof (induction fs arbitrary: s)
  case Nil
  then show ?case by (auto simp: io_ok_def sent_Nil)
next
  case (Cons f fs)
  then obtain t where t: "send f s = (Ok (), t)" "sent [f] s t" "ready (sum_list (map cost fs) + k) t"
    using send_ok [of f "sum_list (map cost fs) + k" s] by (auto simp: add.assoc)
  with Cons.IH [of t] Cons.prems obtain u where
    "io_for send fs t = (Ok (), u)" "sent fs t u" "ready k u" by auto
  with t sent_trans [OF t(2), of fs u] show ?case by (auto simp: io_bind_def)
qed

text \<open>Receiving as often as frames are pending shows each of them in turn.\<close>

lemma recv_all:
  "pending (fs @ gs) s \<Longrightarrow> \<exists>s'. io_for (\<lambda>f. io_then recv (io_ok ())) fs s = (Ok (), s') \<and> pending gs s'"
proof (induction fs arbitrary: s)
  case Nil
  then show ?case by (simp add: io_ok_def)
next
  case (Cons f fs)
  then obtain t where "recv s = (Ok (), t)" "pending (fs @ gs) t" using recv_ok by fastforce
  with Cons.IH [of t] show ?case by (simp add: io_bind_def io_ok_def)
qed

end

interpretation enc_link: frame_link "\<lambda>f. es_write env (fst f) (snd f)" "es_read env" frame_nonces frame_ok
    "can_write env" "wrote env" "incoming env rest" "holds_frame env"
  for env rest
proof unfold_locales
  show "frame_ok f \<Longrightarrow> can_write env (frame_nonces f + k) s \<Longrightarrow>
      \<exists>s'. es_write env (fst f) (snd f) s = (Ok (), s') \<and> wrote env [f] s s' \<and> can_write env k s'"
    for f k s by (rule es_write_frame)
  show "incoming env rest (f # fs) s \<Longrightarrow>
      \<exists>s'. es_read env s = (Ok (), s') \<and> holds_frame env f s' \<and> incoming env rest fs s'" for f fs s
    using es_read_frame [of env rest f fs s] by blast
qed (auto intro: wrote_Nil wrote_trans)

subsection \<open>Properties\<close>

text \<open>
  C4. What one end writes the other end reads: with the same key and nonce at both ends, a
  message and a payload of at most \<open>MAX_DATA_SIZE\<close> bytes arrive unchanged, both ends agree on
  the next nonce, and the reader consumes exactly the bytes of that frame.
\<close>

theorem es_write_read:
  assumes "aead_ok env" and "es_wf w" and "es_wf r"
    and "es_key r = es_key w" and "es_nonce r = es_nonce w"
    and "t_room (es_stream w) = None" and "length p \<le> MAX_DATA_SIZE"
    and "unat (es_nonce w) + 2 \<le> unat NONCE_MAX"
    and "es_write env m p w = (res, w')"
    and "t_out (es_stream w') = t_out (es_stream w) @ sent"
    and "t_in (es_stream r) = sent @ rest"
  shows "res = Ok () \<and> fst (es_read env r) = Ok () \<and> get_message (snd (es_read env r)) = Ok m
     \<and> get_payload env (snd (es_read env r)) = Ok p
     \<and> t_in (es_stream (snd (es_read env r))) = rest
     \<and> es_nonce (snd (es_read env r)) = es_nonce w'"
proof -
  have "frame_nonces (m, p) \<le> 2" by (simp add: frame_nonces_def)
  then have cw: "can_write env (frame_nonces (m, p) + 0) w" and fo: "frame_ok (m, p)"
    using assms by (simp_all add: can_write_def frame_ok_def)
  from enc_link.send_ok [OF fo cw] assms(9) have w: "res = Ok ()" "wrote env [(m, p)] w w'" by auto
  with assms(10) have "sent = frames_wire env (es_key w) (es_nonce w) [(m, p)]"
    by (simp add: wrote_def)
  with assms cw fo have "incoming env rest [(m, p)] r"
    by (simp add: incoming_def can_write_def)
  from es_read_frame [OF this] w assms(4,5) show ?thesis
    by (auto simp: holds_frame_def incoming_def wrote_def)
qed

text \<open>A cipher that only appends 16 bytes shows that the hypotheses can hold.\<close>

definition null_env :: crypto_env where
  "null_env = \<lparr>aead_encrypt = (\<lambda>k n p. Some (p @ replicate 16 0)),
     aead_decrypt = (\<lambda>k n c. if length c < 16 then None else Some (take (length c - 16) c)),
     crc32 = (\<lambda>bs. of_nat (length bs))\<rparr>"

lemma null_env_ok: "aead_ok null_env"
  by (simp add: aead_ok_def null_env_def CRYPTO_EXTENSION_SIZE_def)

definition null_user :: shared_user where
  "null_user = \<lparr>su_nickname = ''bob'', su_public_id = ''AA'', su_ip = ''127.0.0.1'', su_port = ''45454'',
     su_allowed = True\<rparr>"

definition null_stream :: "bytes \<Rightarrow> encrypted_stream" where
  "null_stream inp = new_encrypted_stream \<lparr>t_in = inp, t_out = [], t_room = None\<rparr> [] null_user []"

lemma null_stream_simps [simp]:
  "es_wf (null_stream inp)" "es_key (null_stream inp) = []" "es_nonce (null_stream inp) = 0"
  "t_room (es_stream (null_stream inp)) = None" "t_in (es_stream (null_stream inp)) = inp"
  "t_out (es_stream (null_stream inp)) = []" "es_shared_user (null_stream inp) = null_user"
  "es_reverse_message (null_stream inp) = 0" "es_private_id_bytes (null_stream inp) = []"
  by (simp_all add: null_stream_def new_encrypted_stream_def es_wf_def NONCE_INIT_def)

theorem es_write_read_witness:
  "\<exists>w' sent. es_write null_env 4 [1, 2] (null_stream []) = (Ok (), w')
     \<and> get_payload null_env (snd (es_read null_env (null_stream sent))) = Ok [1, 2]"
proof -
  obtain w' where w': "es_write null_env 4 [1, 2] (null_stream []) = (Ok (), w')"
    using es_write_frame [of "(4, [1, 2])" null_env 0 "null_stream []"] null_env_ok
    by (auto simp: frame_ok_def can_write_def frame_nonces_def size_consts unat_NONCE_MAX)
  have "get_payload null_env (snd (es_read null_env (null_stream (t_out (es_stream w'))))) = Ok [1, 2]"
    using es_write_read [OF null_env_ok, of "null_stream []" "null_stream (t_out (es_stream w'))" "[1, 2]"
        4 "Ok ()" w' "t_out (es_stream w')" "[]"] w'
    by (simp add: size_consts unat_NONCE_MAX)
  with w' show ?thesis by blast
qed

lemma increment_nonce_Ok:
  assumes "increment_nonce es = (Ok u, es')"
  shows "unat (es_nonce es') = unat (es_nonce es) + 1 \<and> unat (es_nonce es') \<le> unat NONCE_MAX"
proof -
  have lt: "unat (es_nonce es) < unat NONCE_MAX" and e: "es' = es\<lparr>es_nonce := es_nonce es + 1\<rparr>"
    using assms by (auto simp: increment_nonce_def word_le_nat_alt split: if_splits)
  then have "unat (es_nonce es') = unat (es_nonce es) + 1"
    using unat_nonce_add [of "es_nonce es" 1] by simp
  with lt show ?thesis by simp
qed

lemma es_copy_nonce: "es_copy off src es = (r, es') \<Longrightarrow> es_nonce es' = es_nonce es"
  by (auto simp: es_copy_def split: outcome.splits)

lemma encrypt_out_nonce: "es_encrypt_out env n err es = (r, es') \<Longrightarrow> es_nonce es' = es_nonce es"
  by (auto simp: es_encrypt_out_def es_write_stream_def split: option.splits prod.splits)

lemma write_message_nonce:
  assumes "es_write_message env m p es = (Ok u, es')"
  shows "unat (es_nonce es') = unat (es_nonce es) + 1 \<and> unat (es_nonce es') \<le> unat NONCE_MAX"
  using assms unfolding es_write_message_def
  by (auto elim!: io_bind_OkE dest!: es_copy_nonce encrypt_out_nonce increment_nonce_Ok)

lemma write_payload_nonce:
  assumes "es_write_payload env m p es = (Ok u, es')"
  shows "unat (es_nonce es') = unat (es_nonce es) + 1 \<and> unat (es_nonce es') \<le> unat NONCE_MAX"
  using assms unfolding es_write_payload_def
  by (auto elim!: io_bind_OkE dest!: es_copy_nonce encrypt_out_nonce increment_nonce_Ok split: if_splits)

lemma es_write_nonce:
  assumes "es_write env m p es = (Ok u, es')"
  shows "unat (es_nonce es') = unat (es_nonce es) + frame_nonces (m, p)
     \<and> unat (es_nonce es') \<le> unat NONCE_MAX"
  using assms unfolding es_write_def
  by (auto elim!: io_bind_OkE dest!: write_message_nonce write_payload_nonce
      simp: frame_nonces_def io_ok_def split: if_splits)

lemma drop_be_enc: "drop j (be_enc (j + k) n) = be_enc k n"
  by (induction j) simp_all

lemma nonce_bytes_low: "nonce_bytes n = be_enc 12 (unat n)"
  using drop_be_enc [of 4 12 "unat n"] by (simp add: nonce_bytes_def)

lemma nonce_bytes_inj:
  assumes "unat a \<le> unat NONCE_MAX" and "unat b \<le> unat NONCE_MAX" and "nonce_bytes a = nonce_bytes b"
  shows "a = b"
proof -
  have "be_enc 12 (unat a) = be_enc 12 (unat b)" using assms(3) by (simp only: nonce_bytes_low)
  moreover have "unat a < 256 ^ 12" "unat b < 256 ^ 12" using assms(1,2) by (simp_all add: unat_NONCE_MAX)
  ultimately have "unat a = unat b" using be_enc_inj by blast
  then show ?thesis by (rule unsigned_word_eqI)
qed



text \<open>
  The nonce is never reused by wrapping around: at \<open>NONCE_MAX\<close> a write still sends its
  message half but ends with the error that asks for a reconnect, and the nonce stays.
\<close>

theorem es_nonce_exhausted:
  assumes "aead_ok env" and "es_wf es" and "t_room (es_stream es) = None" and "es_nonce es = NONCE_MAX"
  shows "fst (es_write env m p es) = Err (StreamError NonceMaxed)
     \<and> es_nonce (snd (es_write env m p es)) = NONCE_MAX"
proof -
  have b: "length (es_buffer es) = 100010" using assms(2) by (simp add: es_wf_def size_consts)
  have e: "increment_nonce s = (Err (StreamError NonceMaxed), s)" if "es_nonce s = NONCE_MAX" for s
    using that by (simp add: increment_nonce_def)
  show ?thesis
    unfolding es_write_def es_write_message_def using b assms
    by (simp add: io_bind_def es_copy_ok encrypt_out_ok e size_consts)
qed

theorem es_nonce_exhausted_witness:
  "fst (es_write null_env 1 [] ((null_stream [])\<lparr>es_nonce := NONCE_MAX\<rparr>)) = Err (StreamError NonceMaxed)"
  using es_nonce_exhausted [OF null_env_ok, of "(null_stream [])\<lparr>es_nonce := NONCE_MAX\<rparr>" 1 "[]"]
  by (simp add: es_wf_def null_stream_def new_encrypted_stream_def)

text \<open>
  A payload that was accepted for a message with a checksum carries the checksum of exactly
  the bytes returned.
\<close>

theorem get_payload_checked:
  assumes "get_payload env es = Ok p" and "get_message es = Ok m" and "is_crc_payload m" and "p \<noteq> []"
  shows "\<exists>bs. slice (PAYLOAD_OFFSET + length p) (PAYLOAD_OFFSET + length p + CRC_SIZE) (es_buffer es)
            = (Ok bs :: (error, bytes) outcome) \<and> (of_nat (be_dec bs) :: u32) = crc32 env p"
proof -
  from assms obtain n where n: "payload_size es = Ok n"
    "slice PAYLOAD_OFFSET (PAYLOAD_OFFSET + n) (es_buffer es) = (Ok p :: (error, bytes) outcome)"
    by (auto simp: get_payload_def Let_def split: if_splits)
  then have l: "length p = n" by (auto simp: slice_def split: if_splits)
  with assms n show ?thesis
    by (auto simp: get_payload_def Let_def split: if_splits)
qed

theorem get_payload_checked_witness:
  "\<exists>bs. slice 7 11 [0, 4, 0, 0, 0, 1, 9, 0, 0, 0, 1] = (Ok bs :: (error, bytes) outcome)
     \<and> (of_nat (be_dec bs) :: u32) = 1"
proof -
  let ?es = "(null_stream [])\<lparr>es_buffer := [0, 4, 0, 0, 0, 1, 9, 0, 0, 0, 1]\<rparr>"
  have p: "get_payload null_env ?es = Ok [9]" and m: "get_message ?es = Ok 4"
    by (simp_all add: get_payload_def payload_size_def get_message_def slice_def size_consts null_env_def)
  have "is_crc_payload 4" by (simp add: is_crc_payload_def CRC_MESSAGES_def msg_consts)
  from get_payload_checked [OF p m this] show ?thesis by (auto simp: size_consts null_env_def)
qed

text \<open>
  There is no check of the payload's size (a TODO in the source): a payload that does not
  fit the buffer makes \<open>write\<close> panic after the message half has already been sent, which leaves
  the peer waiting for a payload.
\<close>

theorem es_write_oversize:
  assumes "aead_ok env" and "es_wf es" and "t_room (es_stream es) = None"
    and "TOTAL_BUFFER_SIZE < length p" and "length p < 2 ^ 32"
    and "unat (es_nonce es) + 1 \<le> unat NONCE_MAX"
  shows "fst (es_write env m p es) = Panic
     \<and> t_out (es_stream (snd (es_write env m p es)))
         = t_out (es_stream es) @ seal env (es_key es) (es_nonce es) (head_plain (m, p))"
proof -
  obtain buf where b: "length buf = TOTAL_BUFFER_SIZE" "es_write_message env m p es =
       (Ok (), after_write (seal env (es_key es) (es_nonce es) (head_plain (m, p))) 1 buf es)"
    using write_message_ok [OF assms(1-3,5,6)] by blast
  moreover have "p \<noteq> []" using assms(4) by auto
  moreover have "es_copy 0 p (after_write bs 1 buf es) = (Panic, after_write bs 1 buf es)" for bs
    using b(1) assms(4) by (simp add: es_copy_def copy_at_def after_write_def)
  ultimately show ?thesis
    by (simp add: es_write_def es_write_payload_def io_bind_def after_write_def)
qed

theorem es_write_oversize_witness:
  "fst (es_write null_env 4 (replicate 100011 0) (null_stream [])) = Panic"
  using es_write_oversize [OF null_env_ok, of "null_stream []" "replicate 100011 0" 4]
  by (simp add: size_consts unat_NONCE_MAX)

end
