(* ===== verification/App_Types.thy ===== *)
theory App_Types
  imports Host_Files Encrypted_Stream
begin

text \<open>
  The messages that the threads send to the app loop (\<open>app_aggregator.rs\<close>), the states shown to
  the user (\<open>transmitic_core.rs\<close>) and the percentage of a transfer. A text made from an error
  (\<open>format!("...{}", e)\<close>) is a \<open>remark\<close>: the text, and the error whose wording follows it.
\<close>

subsection \<open>Messages and states\<close>

datatype log_level = Critical | ErrorLevel | Warning | Info | Debug

fun log_level_value :: "log_level \<Rightarrow> nat" where
  "log_level_value Critical = 50"
| "log_level_value ErrorLevel = 40"
| "log_level_value Warning = 30"
| "log_level_value Info = 20"
| "log_level_value Debug = 10"

type_synonym remark = "string \<times> error option"

record invalid_file_message =
  ivm_nickname :: string
  ivm_active_path :: "string option"
  ivm_invalid_path :: string
  ivm_download_queue :: "string list"
  ivm_message :: string

record in_progress_message =
  ipm_nickname :: string
  ipm_path :: "string option"
  ipm_percent :: nat
  ipm_download_queue :: "string list"
  ipm_path_local_disk :: "string option"
  ipm_size_string :: string

record completed_message =
  cm_nickname :: string
  cm_path :: string
  cm_download_queue :: "string list"
  cm_path_local_disk :: string
  cm_size_string :: string

record offline_message =
  om_nickname :: string
  om_download_queue :: "string list"

record offline_error_message =
  oem_nickname :: string
  oem_error :: string

record single_upload_state =
  sus_nickname :: string
  sus_path :: string
  sus_percent :: nat
  sus_is_online :: bool

datatype app_agg_message =
    LogDebug remark | LogInfo remark | LogWarning remark | LogError remark | LogCritical remark
  | SetLogLevel log_level
  | LogToFileState bool
  | InvalidFile invalid_file_message
  | InProgress in_progress_message
  | Completed completed_message
  | Offline offline_message
  | OfflineError offline_error_message
  | UploadStateChange single_upload_state
  | UploadDisconnected string
  | UploadErrorGeneric remark
  | UploadErrorPortInUse
  | AppFailedKill remark
  | ReverseConnection encrypted_stream

record invalid_result =
  ir_path :: string
  ir_message :: string

record single_download_state =
  sds_active_download_path :: "string option"
  sds_active_download_percent :: nat
  sds_active_download_local_path :: "string option"
  sds_active_download_size :: string
  sds_download_queue :: "string list"
  sds_invalid_downloads :: "invalid_result list"
  sds_completed_downloads :: "completed_message list"
  sds_is_online :: bool
  sds_error :: "string option"

definition default_download_state :: single_download_state where
  "default_download_state =
     \<lparr>sds_active_download_path = None, sds_active_download_percent = 0,
      sds_active_download_local_path = None, sds_active_download_size = [],
      sds_download_queue = [], sds_invalid_downloads = [], sds_completed_downloads = [],
      sds_is_online = True, sds_error = None\<rparr>"

subsection \<open>Percentages\<close>

text \<open>
  \<open>((current as f64 / size as f64) * 100_f64) as u64\<close> written out: the quotient and the product
  are rounded to 53 bits (ties to even), the cast drops the fraction and saturates, and
  \<open>NaN\<close> (0/0) becomes 0. A quotient of two \<open>u64\<close> is at least \<open>2^-64\<close>, so scaling by \<open>2^118\<close>
  keeps all bits that matter.
\<close>

definition f64_scale :: nat where
  "f64_scale = 2 ^ 118"

definition f64_round :: "nat \<Rightarrow> nat \<Rightarrow> nat" where
  "f64_round a b =
     (let e = f64_excess (a div b) in half_even_div a (b * 2 ^ e) * 2 ^ e)"

definition f64_percent :: "nat \<Rightarrow> nat \<Rightarrow> nat" where
  "f64_percent current full =
     (let c = u64_as_f64 current; s = u64_as_f64 full in
      if s = 0 then (if c = 0 then 0 else 2 ^ 64 - 1)
      else min (2 ^ 64 - 1) (u64_as_f64 (100 * f64_round (c * f64_scale) s) div f64_scale))"

lemma half_even_div_mono: "0 < b \<Longrightarrow> a \<le> a' \<Longrightarrow> half_even_div a b \<le> half_even_div a' b"
proof -
  assume b: "0 < b" and le: "a \<le> a'"
  show ?thesis
  proof (cases "a div b = a' div b")
    case True
    have "a mod b \<le> a' mod b"
      using le True by (metis mod_div_mult_eq add_le_cancel_right)
    with True show ?thesis by (auto simp: half_even_div_def Let_def)
  next
    case False
    then have "a div b + 1 \<le> a' div b" using div_le_mono [OF le, of b] by simp
    then show ?thesis by (auto simp: half_even_div_def Let_def)
  qed
qed

lemma half_even_div_exact: "0 < b \<Longrightarrow> half_even_div (q * b) b = q"
  by (simp add: half_even_div_def)

lemma half_even_div_le: "0 < b \<Longrightarrow> a \<le> q * b \<Longrightarrow> half_even_div a b \<le> q"
  using half_even_div_mono [of b a "q * b"] half_even_div_exact [of b q] by simp

lemma f64_excess_less: "k < 2 ^ (53 + j) \<Longrightarrow> f64_excess k \<le> j"
proof (induction j arbitrary: k)
  case 0
  then show ?case by (subst f64_excess.simps) simp
next
  case (Suc j)
  have "k div 2 < 2 ^ (53 + j)"
    using Suc.prems by (intro less_mult_imp_div_less) (simp add: power_add)
  with Suc show ?case by (subst f64_excess.simps) simp
qed

lemma f64_excess_dvd:
  assumes "m < 2 ^ 53" and "k \<le> m * 2 ^ j"
  shows "f64_excess k \<le> j"
proof (rule f64_excess_less)
  have "m * 2 ^ j < 2 ^ 53 * 2 ^ j" using assms(1) by simp
  with assms(2) show "k < 2 ^ (53 + j)" by (simp only: power_add)
qed

text \<open>Rounding does not pass a number that \<open>f64\<close> holds exactly.\<close>

lemma f64_round_le:
  assumes "0 < b" and "m < 2 ^ 53" and "a \<le> b * (m * 2 ^ j)"
  shows "f64_round a b \<le> m * 2 ^ j"
proof -
  let ?e = "f64_excess (a div b)"
  have "a div b \<le> m * 2 ^ j" using assms by (metis div_le_mono nonzero_mult_div_cancel_left less_numeral_extra(3))
  then have e: "?e \<le> j" by (rule f64_excess_dvd [OF assms(2)])
  then have j: "m * 2 ^ j = m * 2 ^ (j - ?e) * 2 ^ ?e" by (simp add: mult.assoc flip: power_add)
  have "a \<le> m * 2 ^ (j - ?e) * (b * 2 ^ ?e)" using assms(3) j by (simp add: ac_simps)
  then have "half_even_div a (b * 2 ^ ?e) \<le> m * 2 ^ (j - ?e)"
    using assms(1) by (intro half_even_div_le) simp_all
  then show ?thesis unfolding f64_round_def Let_def j by simp
qed

lemma f64_round_exact:
  assumes "0 < b" and "m < 2 ^ 53"
  shows "f64_round (b * (m * 2 ^ j)) b = m * 2 ^ j"
proof -
  let ?e = "f64_excess (m * 2 ^ j)"
  have e: "?e \<le> j" by (rule f64_excess_dvd [OF assms(2)]) simp
  then have j: "m * 2 ^ j = m * 2 ^ (j - ?e) * 2 ^ ?e" by (simp add: mult.assoc flip: power_add)
  have "half_even_div (b * (m * 2 ^ j)) (b * 2 ^ ?e) = half_even_div (m * 2 ^ (j - ?e) * (b * 2 ^ ?e)) (b * 2 ^ ?e)"
    by (subst j) (simp add: ac_simps)
  also have "\<dots> = m * 2 ^ (j - ?e)" by (rule half_even_div_exact) (use assms(1) in simp)
  finally have h: "half_even_div (b * (m * 2 ^ j)) (b * 2 ^ ?e) = m * 2 ^ (j - ?e)" .
  have "b * (m * 2 ^ j) div b = m * 2 ^ j" using assms(1) by simp
  then show ?thesis unfolding f64_round_def Let_def by (simp only: h j [symmetric])
qed

lemma u64_as_f64_round: "u64_as_f64 n = f64_round n 1"
  by (simp add: u64_as_f64_def f64_round_def Let_def)

lemma f64_excess_mono: "a \<le> b \<Longrightarrow> f64_excess a \<le> f64_excess b"
proof (induction b arbitrary: a rule: f64_excess.induct)
  case (1 b)
  then show ?case
    using f64_excess.simps [of a] f64_excess.simps [of b] by (cases "a < 2 ^ 53") (auto simp: div_le_mono)
qed

lemma f64_excess_fits: "n < 2 ^ (53 + f64_excess n)"
proof (induction n rule: f64_excess.induct)
  case (1 n)
  then show ?case by (subst f64_excess.simps) (auto simp: power_add)
qed

lemma u64_as_f64_mono:
  assumes "a \<le> b"
  shows "u64_as_f64 a \<le> u64_as_f64 b"
proof (cases "f64_excess a = f64_excess b")
  case True
  with assms show ?thesis by (simp add: u64_as_f64_def half_even_div_mono)
next
  case False
  then have less: "Suc (f64_excess a) \<le> f64_excess b" using f64_excess_mono [OF assms] by simp
  let ?p = "2 ^ (52 + f64_excess b) :: nat"
  have b: "?p \<le> b"
  proof (rule ccontr)
    assume "\<not> ?p \<le> b"
    then have "b < 2 ^ (53 + (f64_excess b - 1))" using less by (cases "f64_excess b") simp_all
    then have "f64_excess b \<le> f64_excess b - 1" by (rule f64_excess_less)
    with less show False by simp
  qed
  have split_p: "?p = 2 ^ 52 * 2 ^ f64_excess b" by (simp add: power_add)
  have "2 ^ 52 = half_even_div ?p (2 ^ f64_excess b)"
    unfolding split_p by (rule half_even_div_exact [symmetric]) simp
  also have "\<dots> \<le> half_even_div b (2 ^ f64_excess b)" using b by (rule half_even_div_mono [rotated]) simp
  finally have low: "?p \<le> u64_as_f64 b" unfolding u64_as_f64_def split_p by simp
  have "a \<le> 1 * (1 * 2 ^ (53 + f64_excess a))" using f64_excess_fits [of a] by simp
  then have "u64_as_f64 a \<le> 1 * 2 ^ (53 + f64_excess a)"
    unfolding u64_as_f64_round by (rule f64_round_le [rotated 2]) simp_all
  also have "\<dots> \<le> ?p" using less by (simp add: power_increasing)
  finally show ?thesis using low by simp
qed

text \<open>
  A transfer that has not passed its size never shows more than 100 percent, and one that has
  reached a size other than zero shows 100.
\<close>

theorem percent_bounds:
  assumes "current \<le> full"
  shows "f64_percent current full \<le> 100 \<and> (0 < full \<longrightarrow> f64_percent full full = 100)"
proof
  show "f64_percent current full \<le> 100"
  proof (cases "u64_as_f64 full = 0")
    case True
    then have "u64_as_f64 current = 0" using u64_as_f64_mono [OF assms] by simp
    with True show ?thesis by (simp add: f64_percent_def)
  next
    case False
    have "u64_as_f64 current * f64_scale \<le> u64_as_f64 full * (1 * 2 ^ 118)"
      using u64_as_f64_mono [OF assms] by (simp add: f64_scale_def)
    then have "f64_round (u64_as_f64 current * f64_scale) (u64_as_f64 full) \<le> 1 * 2 ^ 118"
      using False by (intro f64_round_le) simp_all
    then have "100 * f64_round (u64_as_f64 current * f64_scale) (u64_as_f64 full) \<le> 1 * (100 * 2 ^ 118)"
      by simp
    then have "u64_as_f64 (100 * f64_round (u64_as_f64 current * f64_scale) (u64_as_f64 full))
        \<le> 100 * 2 ^ 118"
      unfolding u64_as_f64_round by (rule f64_round_le [rotated 2]) simp_all
    then have "u64_as_f64 (100 * f64_round (u64_as_f64 current * f64_scale) (u64_as_f64 full)) div f64_scale
        \<le> 100 * 2 ^ 118 div f64_scale"
      by (rule div_le_mono)
    with False show ?thesis by (simp add: f64_percent_def f64_scale_def Let_def)
  qed
  show "0 < full \<longrightarrow> f64_percent full full = 100"
  proof
    assume "0 < full"
    then have pos: "0 < u64_as_f64 full"
      using u64_as_f64_mono [of 1 full] u64_as_f64_exact [of 1] by simp
    have "f64_round (u64_as_f64 full * (1 * 2 ^ 118)) (u64_as_f64 full) = 1 * 2 ^ 118"
      by (rule f64_round_exact [OF pos]) simp
    then have r: "f64_round (u64_as_f64 full * f64_scale) (u64_as_f64 full) = 2 ^ 118"
      by (simp add: f64_scale_def)
    have "f64_round (1 * (100 * 2 ^ 118)) 1 = 100 * 2 ^ 118"
      by (rule f64_round_exact) simp_all
    then have "u64_as_f64 (100 * 2 ^ 118) = 100 * 2 ^ 118" by (simp add: u64_as_f64_round)
    with pos r show "f64_percent full full = 100"
      by (simp add: f64_percent_def f64_scale_def Let_def)
  qed
qed

theorem percent_bounds_witness: "f64_percent 1 3 \<le> 100 \<and> f64_percent 3 3 = 100"
  using percent_bounds [of 1 3] by simp

end
