(* ===== verification/Logger.thy ===== *)
theory Logger
  imports App_Types
begin

text \<open>
  \<open>logger.rs\<close>: the log lines kept in memory, newest first, and the log file. An operation gets
  the file system with it. The time stamp is an argument, and \<open>wording\<close> is the text of an I/O
  error.
\<close>

definition LOG_MESSAGES_COUNT :: nat where "LOG_MESSAGES_COUNT = 1000"

definition LOG_FILE_ROTATE_COUNT :: nat where "LOG_FILE_ROTATE_COUNT = LOG_MESSAGES_COUNT * 2"

record logger =
  lg_log_lines :: "string list"
  lg_active_log_level :: log_level
  lg_is_log_to_file :: bool
  lg_log_path :: string
  lg_log_file_write_count :: nat

type_synonym logger_world = "logger \<times> file_sys"

text \<open>The build profile decides the defaults.\<close>

definition DEFAULT_LOG_LEVEL :: "bool \<Rightarrow> log_level" where
  "DEFAULT_LOG_LEVEL dbg = (if dbg then Debug else Warning)"

definition DEFAULT_LOG_TO_FILE :: "bool \<Rightarrow> bool" where
  "DEFAULT_LOG_TO_FILE dbg = dbg"

definition new_logger :: "string \<Rightarrow> log_level \<Rightarrow> bool \<Rightarrow> file_sys \<Rightarrow> logger_world" where
  "new_logger config_dir level to_file fs =
     (let log_path = path_push config_dir ''transmitic_log.txt'' in
      (\<lparr>lg_log_lines = [], lg_active_log_level = level, lg_is_log_to_file = to_file,
        lg_log_path = log_path, lg_log_file_write_count = 0\<rparr>,
       snd (fs_remove_file log_path fs)))"

definition set_log_level :: "log_level \<Rightarrow> logger \<Rightarrow> logger" where
  "set_log_level level lg = lg\<lparr>lg_active_log_level := level\<rparr>"

text \<open>One \<open>write\<close> of a line to an open file; its result is ignored.\<close>

definition write_line :: "string \<Rightarrow> string \<Rightarrow> file_sys \<Rightarrow> file_sys" where
  "write_line path message fs = snd (fs_append_create path (as_bytes (message @ [newline])) fs)"

definition write_all_to_log :: "(error \<Rightarrow> string) \<Rightarrow> logger_world \<Rightarrow> logger_world" where
  "write_all_to_log wording w =
     (case w of
        (lg, fs) \<Rightarrow>
          (case fs_write (lg_log_path lg) [] fs of
             (Err e, fs') \<Rightarrow>
               (lg\<lparr>lg_log_lines := (''[ERROR] | Failed to open truncate log '' @ wording e) # lg_log_lines lg\<rparr>, fs')
           | (_, fs') \<Rightarrow> (lg, fold (write_line (lg_log_path lg)) (rev (lg_log_lines lg)) fs')))"

definition log_to_file :: "(error \<Rightarrow> string) \<Rightarrow> string \<Rightarrow> logger_world \<Rightarrow> logger_world" where
  "log_to_file wording message w =
     (case w of
        (lg, fs) \<Rightarrow>
          if LOG_FILE_ROTATE_COUNT \<le> lg_log_file_write_count lg then
            (case write_all_to_log wording (lg, fs) of
               (lg', fs') \<Rightarrow> (lg'\<lparr>lg_log_file_write_count := 0\<rparr>, fs'))
          else if fs_may_write (path_iter (lg_log_path lg)) fs then
            (lg\<lparr>lg_log_file_write_count := lg_log_file_write_count lg + 1\<rparr>,
             write_line (lg_log_path lg) message fs)
          else
            (lg\<lparr>lg_log_lines :=
                  (''[ERROR] | Failed to open append log '' @ wording (IoError OtherIo)) # lg_log_lines lg,
                lg_log_file_write_count := lg_log_file_write_count lg + 1\<rparr>, fs))"

fun level_tag :: "log_level \<Rightarrow> string" where
  "level_tag Critical = ''[CRITICAL]''"
| "level_tag ErrorLevel = ''[ERROR]   ''"
| "level_tag Warning = ''[WARNING] ''"
| "level_tag Info = ''[INFO]    ''"
| "level_tag Debug = ''[DEBUG]   ''"

text \<open>The loop that makes room: drop the oldest lines while there are too many.\<close>

function drop_oldest :: "string list \<Rightarrow> string list" where
  "drop_oldest lines = (if LOG_MESSAGES_COUNT \<le> length lines then drop_oldest (butlast lines) else lines)"
  by pat_completeness auto
termination
  by (relation "measure length") (auto simp: LOG_MESSAGES_COUNT_def)

declare drop_oldest.simps [simp del]

definition log_message ::
  "(error \<Rightarrow> string) \<Rightarrow> string \<Rightarrow> log_level \<Rightarrow> string \<Rightarrow> logger_world \<Rightarrow> logger_world" where
  "log_message wording time_string log_level message w =
     (case w of
        (lg, fs) \<Rightarrow>
          if log_level_value log_level < log_level_value (lg_active_log_level lg) then (lg, fs)
          else
            (let line = level_tag log_level @ '' '' @ time_string @ '' |  '' @ message;
                 lg1 = lg\<lparr>lg_log_lines := line # drop_oldest (lg_log_lines lg)\<rparr>
             in if lg_is_log_to_file lg1 then log_to_file wording line (lg1, fs) else (lg1, fs)))"

definition set_is_file_logging :: "(error \<Rightarrow> string) \<Rightarrow> bool \<Rightarrow> logger_world \<Rightarrow> logger_world" where
  "set_is_file_logging wording state w =
     (case w of
        (lg, fs) \<Rightarrow>
          (let lg1 = lg\<lparr>lg_is_log_to_file := state\<rparr> in
           if state then write_all_to_log wording (lg1, fs) else (lg1, fs)))"

subsection \<open>The lines in memory\<close>

lemma drop_oldest_take: "drop_oldest lines = take (LOG_MESSAGES_COUNT - 1) lines"
proof (induction lines rule: drop_oldest.induct)
  case (1 lines)
  show ?case
  proof (cases "LOG_MESSAGES_COUNT \<le> length lines")
    case True
    moreover have "take (LOG_MESSAGES_COUNT - 1) (butlast lines) = take (LOG_MESSAGES_COUNT - 1) lines"
      using True by (intro take_butlast) (simp add: LOG_MESSAGES_COUNT_def)
    ultimately show ?thesis using 1 by (subst drop_oldest.simps) simp
  next
    case False
    then show ?thesis by (subst drop_oldest.simps) simp
  qed
qed

lemma write_all_to_log_lines:
  "\<exists>es. length es \<le> 1 \<and> lg_log_lines (fst (write_all_to_log wording w)) = es @ lg_log_lines (fst w)"
  by (cases w) (auto simp: write_all_to_log_def split: prod.split outcome.split
      intro: exI [of _ "[]"] exI [of _ "[_]"])

lemma write_all_to_log_rest [simp]:
  "lg_active_log_level (fst (write_all_to_log wording w)) = lg_active_log_level (fst w)"
  "lg_is_log_to_file (fst (write_all_to_log wording w)) = lg_is_log_to_file (fst w)"
  "lg_log_path (fst (write_all_to_log wording w)) = lg_log_path (fst w)"
  "lg_log_file_write_count (fst (write_all_to_log wording w)) = lg_log_file_write_count (fst w)"
  by (cases w, simp add: write_all_to_log_def split: prod.split outcome.split)+

lemma log_to_file_lines:
  "\<exists>es. length es \<le> 1 \<and> lg_log_lines (fst (log_to_file wording m w)) = es @ lg_log_lines (fst w)"
proof -
  obtain lg fs where w: "w = (lg, fs)" by (cases w)
  obtain lg' fs' where a: "write_all_to_log wording (lg, fs) = (lg', fs')"
    by (cases "write_all_to_log wording (lg, fs)")
  with write_all_to_log_lines [of wording "(lg, fs)"] show ?thesis
    by (auto simp: log_to_file_def w intro: exI [of _ "[]"] exI [of _ "[_]"])
qed

text \<open>
  A message below the active level changes nothing. Any other message becomes the newest
  line, behind at most one line about a log file that cannot be opened; the newest 999 earlier
  lines stay in order, so never more than 1001 lines are kept, however many there were.
\<close>

theorem log_message_lines:
  "if log_level_value level < log_level_value (lg_active_log_level lg)
   then log_message wording time level message (lg, fs) = (lg, fs)
   else \<exists>es. length es \<le> 1
     \<and> lg_log_lines (fst (log_message wording time level message (lg, fs)))
       = es @ (level_tag level @ '' '' @ time @ '' |  '' @ message)
            # take (LOG_MESSAGES_COUNT - 1) (lg_log_lines lg)
     \<and> length (lg_log_lines (fst (log_message wording time level message (lg, fs)))) \<le> 1001"
proof (cases "log_level_value level < log_level_value (lg_active_log_level lg)")
  case True
  then show ?thesis by (simp add: log_message_def)
next
  case False
  let ?line = "level_tag level @ '' '' @ time @ '' |  '' @ message"
  let ?lg = "lg\<lparr>lg_log_lines := ?line # drop_oldest (lg_log_lines lg)\<rparr>"
  have "\<exists>es. length es \<le> 1
     \<and> lg_log_lines (fst (log_message wording time level message (lg, fs)))
       = es @ ?line # take (LOG_MESSAGES_COUNT - 1) (lg_log_lines lg)"
  proof (cases "lg_is_log_to_file lg")
    case True
    then have "log_message wording time level message (lg, fs) = log_to_file wording ?line (?lg, fs)"
      using False by (simp add: log_message_def Let_def)
    with log_to_file_lines [of wording ?line "(?lg, fs)"] show ?thesis
      by (simp add: drop_oldest_take)
  next
    case not_to_file: False
    then have "log_message wording time level message (lg, fs) = (?lg, fs)"
      using False by (simp add: log_message_def Let_def)
    then show ?thesis by (intro exI [of _ "[]"]) (simp add: drop_oldest_take)
  qed
  then obtain es where es: "length es \<le> 1"
    "lg_log_lines (fst (log_message wording time level message (lg, fs)))
       = es @ ?line # take (LOG_MESSAGES_COUNT - 1) (lg_log_lines lg)" by blast
  moreover from es have "length (lg_log_lines (fst (log_message wording time level message (lg, fs)))) \<le> 1001"
    by (simp add: LOG_MESSAGES_COUNT_def)
  ultimately show ?thesis using False by auto
qed

subsection \<open>The log file\<close>

lemma fold_write_lines:
  assumes "fs_may_write (path_iter path) fs" and "fs_room fs = None"
    and "fs_files fs (path_iter path) = Some old"
  shows "fs_files (fold (write_line path) ls fs) (path_iter path)
     = Some (old @ as_bytes (concat (map (\<lambda>l. l @ [newline]) ls)))"
  using assms
proof (induction ls arbitrary: fs old)
  case Nil
  then show ?case by simp
next
  case (Cons l ls)
  let ?fs = "write_line path l fs"
  have "?fs = fs\<lparr>fs_files := (fs_files fs)(path_iter path := Some (old @ as_bytes (l @ [newline])))\<rparr>"
    using Cons.prems by (simp add: write_line_def fs_append_create_def fs_put_def)
  then show ?case
    using Cons.IH [of ?fs "old @ as_bytes (l @ [newline])"] Cons.prems
    by (simp add: fs_may_write_def as_bytes_def)
qed

lemma write_all_to_log_file:
  assumes "fs_may_write (path_iter (lg_log_path lg)) fs" and "fs_room fs = None"
  shows "\<exists>fs'. write_all_to_log wording (lg, fs) = (lg, fs')
     \<and> fs_files fs' (path_iter (lg_log_path lg))
         = Some (as_bytes (concat (map (\<lambda>l. l @ [newline]) (rev (lg_log_lines lg)))))"
proof -
  let ?k = "path_iter (lg_log_path lg)"
  let ?fs = "fs\<lparr>fs_files := (fs_files fs)(?k := Some [])\<rparr>"
  have w: "fs_write (lg_log_path lg) [] fs = (Ok (), ?fs)"
    using assms by (simp add: fs_write_def fs_put_def)
  have "fs_may_write ?k ?fs" "fs_room ?fs = None" "fs_files ?fs ?k = Some []"
    using assms by (simp_all add: fs_may_write_def)
  from fold_write_lines [OF this] show ?thesis
    unfolding write_all_to_log_def prod.case w outcome.case by simp
qed

text \<open>
  Turning the log file on writes the lines in memory to it, oldest first, each with its line
  end, and replaces whatever the file held.
\<close>

theorem log_file_start:
  assumes "fs_may_write (path_iter (lg_log_path lg)) fs" and "fs_room fs = None"
  shows "\<exists>fs'. set_is_file_logging wording True (lg, fs) = (lg\<lparr>lg_is_log_to_file := True\<rparr>, fs')
     \<and> fs_files fs' (path_iter (lg_log_path lg))
         = Some (as_bytes (concat (map (\<lambda>l. l @ [newline]) (rev (lg_log_lines lg)))))"
  using write_all_to_log_file [of "lg\<lparr>lg_is_log_to_file := True\<rparr>" fs wording] assms
  by (simp add: set_is_file_logging_def)

definition demo_logger :: logger where
  "demo_logger = \<lparr>lg_log_lines = [''b'', ''a''], lg_active_log_level = Debug, lg_is_log_to_file = False,
     lg_log_path = ''/c/log'', lg_log_file_write_count = 0\<rparr>"

theorem log_file_start_witness:
  "\<exists>fs'. snd (set_is_file_logging (\<lambda>_. []) True (demo_logger, demo_fs)) = fs'
     \<and> fs_files fs' [''/'', ''c'', ''log''] = Some (as_bytes [CHR ''a'', newline, CHR ''b'', newline])"
proof -
  have p: "path_iter ''/c/log'' = [''/'', ''c'', ''log'']" by code_simp
  have "fs_may_write (path_iter (lg_log_path demo_logger)) demo_fs" "fs_room demo_fs = None"
    by (simp_all add: demo_logger_def demo_fs_def fs_may_write_def p)
  from log_file_start [OF this, of "\<lambda>_. []"] p show ?thesis
    by (auto simp: demo_logger_def)
qed

subsection \<open>The logger as a machine\<close>

datatype logger_event =
    LogEvent string log_level string
  | LevelEvent log_level
  | FileEvent bool

fun logger_step :: "(error \<Rightarrow> string) \<Rightarrow> logger_world \<Rightarrow> logger_event \<Rightarrow> logger_world" where
  "logger_step wording w (LogEvent time level message) = log_message wording time level message w"
| "logger_step wording w (LevelEvent level) = (set_log_level level (fst w), snd w)"
| "logger_step wording w (FileEvent state) = set_is_file_logging wording state w"

text \<open>The counter of appended lines never passes the rotation limit.\<close>

definition count_ok :: "logger_world \<Rightarrow> bool" where
  "count_ok w \<longleftrightarrow> lg_log_file_write_count (fst w) \<le> LOG_FILE_ROTATE_COUNT"

lemma log_to_file_count: "count_ok w \<Longrightarrow> count_ok (log_to_file wording m w)"
  by (cases w) (auto simp: log_to_file_def count_ok_def LOG_FILE_ROTATE_COUNT_def split: prod.split)

lemma logger_step_count: "count_ok w \<Longrightarrow> count_ok (logger_step wording w e)"
proof (cases e)
  case (LogEvent time level message)
  assume ok: "count_ok w"
  obtain lg fs where w: "w = (lg, fs)" by (cases w)
  have upd: "count_ok (lg\<lparr>lg_log_lines := ls\<rparr>, fs)" for ls
    using ok by (simp add: count_ok_def w)
  show ?thesis
    using ok upd log_to_file_count [OF upd] by (simp add: LogEvent w log_message_def Let_def)
next
  case (LevelEvent level)
  assume "count_ok w"
  then show ?thesis by (simp add: LevelEvent count_ok_def set_log_level_def)
next
  case (FileEvent state)
  assume "count_ok w"
  then show ?thesis
    by (cases w) (simp add: FileEvent count_ok_def set_is_file_logging_def Let_def)
qed

interpretation log_machine: event_machine "logger_step wording" count_ok for wording
  by unfold_locales (rule logger_step_count)

text \<open>
  From a new logger, whatever messages, level changes and switches of the log file follow,
  the file is rewritten from the lines in memory after at most 2000 appended lines.
\<close>

theorem log_rotation_bound:
  "lg_log_file_write_count (fst (foldl (logger_step wording) (new_logger dir level to_file fs) es))
     \<le> LOG_FILE_ROTATE_COUNT"
proof -
  have "count_ok (new_logger dir level to_file fs)"
    by (simp add: count_ok_def new_logger_def Let_def)
  from log_machine.run_inv [OF this] show ?thesis by (simp add: count_ok_def)
qed

end
