(* ===== verification/Config_Check.thy ===== *)
theory Config_Check
  imports App_Types
begin

text \<open>
  The configuration of \<open>config.rs\<close> and its checks: \<open>sanitize_config\<close>, the \<open>verify_\<close> functions
  and where the configuration is kept. What the operating system and the libraries decide is the
  record \<open>host_env\<close>: environment variables, the directory of the executable, whether ring
  accepts a private key, the Unicode part of \<open>to_lowercase\<close>, JSON, PBKDF2 and AES.
\<close>

subsection \<open>State and environment\<close>

record config_file =
  cf_my_private_id :: string
  cf_shared_users :: "shared_user list"
  cf_shared_files :: "config_shared_file list"
  cf_sharing_port :: string
  cf_ignore_incoming :: bool
  cf_reverse_connection :: bool
  cf_path_downloads :: string

record encrypted_config =
  ec_version :: u16
  ec_nonce :: string
  ec_pbkdf2_iterations :: u32
  ec_salt :: string
  ec_encrypted_config :: string

record host_env =
  he_lower :: "string \<Rightarrow> string"
  he_key_ok :: "bytes \<Rightarrow> bool"
  he_public_key :: "bytes \<Rightarrow> bytes"
  he_var :: "string \<Rightarrow> string option"
  he_exe_dir :: "string option"
  he_macos :: bool
  he_marker_exists :: bool
  he_config_to_json :: "config_file \<Rightarrow> string"
  he_config_of_json :: "string \<Rightarrow> config_file option"
  he_encrypted_to_json :: "encrypted_config \<Rightarrow> string"
  he_encrypted_of_json :: "string \<Rightarrow> encrypted_config option"
  he_pbkdf2 :: "u32 \<Rightarrow> bytes \<Rightarrow> bytes \<Rightarrow> bytes"
  he_crypto :: crypto_env

subsection \<open>Where the configuration is\<close>

definition current_exe_dir :: "host_env \<Rightarrow> (error, string) outcome" where
  "current_exe_dir env = ok_or (IoError OtherIo) (he_exe_dir env)"

definition is_transmitic_installed :: "host_env \<Rightarrow> (error, bool) outcome" where
  "is_transmitic_installed env =
     (if he_macos env then and_then (current_exe_dir env) (\<lambda>_. Ok (he_marker_exists env)) else Ok False)"

definition get_path_transmitic_config_dir :: "host_env \<Rightarrow> (error, string) outcome" where
  "get_path_transmitic_config_dir env =
     and_then
       (case he_var env ''TRAN_PATH_CONFIG'' of
          Some p \<Rightarrow> Ok p
        | None \<Rightarrow>
            and_then (if he_macos env then is_transmitic_installed env else Ok False) (\<lambda>installed.
              if installed then
                and_then (ok_or (ConfigError NoHomeDir) (he_var env ''HOME'')) (\<lambda>home.
                  Ok (path_push (path_push (path_push home ''Library'') ''Application Support'') ''Transmitic''))
              else current_exe_dir env))
       (\<lambda>path. Ok (path_push path ''transmitic_config''))"

definition get_path_config_json :: "host_env \<Rightarrow> (error, string) outcome" where
  "get_path_config_json env =
     and_then (get_path_transmitic_config_dir env) (\<lambda>path. Ok (path_push path ''transmitic_config.json''))"

definition get_path_encrypted_config :: "host_env \<Rightarrow> (error, string) outcome" where
  "get_path_encrypted_config env =
     and_then (get_path_transmitic_config_dir env) (\<lambda>path. Ok (path_push path ''transmitic_config.etrc''))"

definition get_expected_config_path :: "host_env \<Rightarrow> bool \<Rightarrow> (error, string) outcome" where
  "get_expected_config_path env encrypted =
     (if encrypted then get_path_encrypted_config env else get_path_config_json env)"

subsection \<open>Sanitizing\<close>

definition sanitize_user :: "shared_user \<Rightarrow> shared_user" where
  "sanitize_user u =
     u\<lparr>su_nickname := trim (su_nickname u), su_public_id := trim (su_public_id u),
       su_ip := trim (su_ip u), su_port := trim (su_port u)\<rparr>"

definition strip_file_url :: "string \<Rightarrow> string" where
  "strip_file_url path = (if starts_with ''file://'' path then drop 7 path else path)"

definition sanitize_file :: "config_shared_file \<Rightarrow> config_shared_file" where
  "sanitize_file f =
     f\<lparr>csf_path := strip_file_url (trim (csf_path f)),
       csf_shared_with := sort (map trim (csf_shared_with f))\<rparr>"

definition sanitize_config :: "config_file \<Rightarrow> config_file" where
  "sanitize_config c =
     c\<lparr>cf_my_private_id := trim (cf_my_private_id c),
       cf_sharing_port := trim (cf_sharing_port c),
       cf_path_downloads := trim (cf_path_downloads c),
       cf_shared_users := map sanitize_user (sort_key su_nickname (cf_shared_users c)),
       cf_shared_files := map sanitize_file (cf_shared_files c)\<rparr>"

subsection \<open>Verifying\<close>

definition get_bytes_from_base64_str :: "string \<Rightarrow> (error, bytes) outcome" where
  "get_bytes_from_base64_str s = map_err BadBase64 (decode s)"

definition get_base64_str_from_bytes :: "bytes \<Rightarrow> string" where
  "get_base64_str_from_bytes bs = encode bs"

definition check_port :: "string \<Rightarrow> (verify_error, unit) outcome" where
  "check_port port =
     (case parse_i32 port of
        None \<Rightarrow> Err PortNotANumber
      | Some p \<Rightarrow> if 65535 < p then Err PortTooHigh else Ok ())"

definition verify_config_port :: "string \<Rightarrow> (error, unit) outcome" where
  "verify_config_port port = map_err VerifyError (check_port port)"

definition verify_config_my_private_id :: "host_env \<Rightarrow> string \<Rightarrow> (error, unit) outcome" where
  "verify_config_my_private_id env my_private_id =
     and_then (map_err (\<lambda>e. VerifyError (PrivateIdNotBase64 e)) (decode my_private_id)) (\<lambda>key_bytes.
       ensure (he_key_ok env key_bytes) (VerifyError PrivateIdRejected))"

definition lower :: "host_env \<Rightarrow> string \<Rightarrow> string" where
  "lower env = to_lowercase (he_lower env)"

definition check_repeats :: "host_env \<Rightarrow> shared_user list \<Rightarrow> shared_user \<Rightarrow> (error, unit) outcome" where
  "check_repeats env shared_users user =
     (let user_count = length (filter (\<lambda>j. lower env (su_nickname user) = lower env (su_nickname j)) shared_users);
          public_id_count = length (filter (\<lambda>j. su_public_id user = su_public_id j) shared_users)
      in if 1 < user_count then Err (VerifyError (NicknameRepeated (su_nickname user) user_count))
         else if 1 < public_id_count then Err (VerifyError (PublicIdRepeated (su_public_id user) public_id_count))
         else Ok ())"

definition check_user :: "host_env \<Rightarrow> shared_user \<Rightarrow> (error, unit) outcome" where
  "check_user env user =
     (if su_nickname user = [] then Err (VerifyError NicknameEmpty)
      else (case find (\<lambda>c. contains_char c (su_nickname user)) get_blocked_user_name_chars of
        Some c \<Rightarrow> Err (VerifyError (NicknameChar (su_nickname user) c))
      | None \<Rightarrow>
          if contains_str ''transmitic'' (lower env (su_nickname user)) then Err (VerifyError NicknameReserved)
          else if su_port user = [] then Err (VerifyError (PortEmpty (su_nickname user)))
          else
            and_then (map_err (\<lambda>e. VerifyError (UserPort (su_nickname user) e)) (check_port (su_port user))) (\<lambda>_.
              if su_public_id user = [] then Err (VerifyError (PublicIdEmpty (su_nickname user)))
              else
                and_then (map_err (\<lambda>e. VerifyError (PublicIdEncoding (su_nickname user) e))
                            (decode (su_public_id user))) (\<lambda>_.
                  if su_ip user = [] then Err (VerifyError (IpEmpty (su_nickname user))) else Ok ()))))"

definition verify_config_shared_users :: "host_env \<Rightarrow> shared_user list \<Rightarrow> (error, unit) outcome" where
  "verify_config_shared_users env shared_users =
     and_then (for_each (check_repeats env shared_users) shared_users) (\<lambda>_.
       for_each (check_user env) shared_users)"

definition check_file_once :: "config_shared_file list \<Rightarrow> config_shared_file \<Rightarrow> (error, unit) outcome" where
  "check_file_once shared_files file =
     (let file_count = length (filter (\<lambda>j. csf_path file = csf_path j) shared_files)
      in if 1 < file_count then Err (VerifyError (FileRepeated (csf_path file) file_count)) else Ok ())"

definition check_file_users :: "string list \<Rightarrow> config_shared_file \<Rightarrow> (error, unit) outcome" where
  "check_file_users nicknames file =
     for_each (\<lambda>user. ensure (user \<in> set nicknames) (VerifyError (FileUnknownUser (csf_path file) user)))
       (csf_shared_with file)"

definition check_file_path :: "string \<Rightarrow> config_shared_file \<Rightarrow> (error, unit) outcome" where
  "check_file_path config_dir file =
     (if starts_with config_dir (csf_path file) then Err (VerifyError (FileInConfigDir config_dir))
      else (case find (\<lambda>c. contains_char c (csf_path file)) get_blocked_file_path_chars of
        Some c \<Rightarrow> Err (VerifyError (FileChar (csf_path file) c))
      | None \<Rightarrow>
          if \<not> file_contains_only_valid_chars (csf_path file)
          then Err (VerifyError (FileInvalid (csf_path file))) else Ok ()))"

definition verify_config_shared_files ::
  "host_env \<Rightarrow> shared_user list \<Rightarrow> config_shared_file list \<Rightarrow> (error, unit) outcome" where
  "verify_config_shared_files env shared_users shared_files =
     and_then (for_each (check_file_once shared_files) shared_files) (\<lambda>_.
     and_then (for_each (check_file_users (map su_nickname shared_users)) shared_files) (\<lambda>_.
     and_then (get_path_transmitic_config_dir env) (\<lambda>config_dir.
       for_each (check_file_path config_dir) shared_files)))"

definition verify_ignore_and_reverse :: "bool \<Rightarrow> bool \<Rightarrow> (error, unit) outcome" where
  "verify_ignore_and_reverse ignore_incoming reverse_connection =
     ensure (\<not> (ignore_incoming \<and> reverse_connection)) (VerifyError IgnoreAndReverse)"

text \<open>\<open>verify_config\<close> changes its argument, here returned: the sanitized configuration.\<close>

definition verify_config :: "host_env \<Rightarrow> config_file \<Rightarrow> (error, config_file) outcome" where
  "verify_config env c0 =
     (let c = sanitize_config c0 in
      and_then (verify_config_port (cf_sharing_port c)) (\<lambda>_.
      and_then (verify_config_my_private_id env (cf_my_private_id c)) (\<lambda>_.
      and_then (verify_config_shared_users env (cf_shared_users c)) (\<lambda>_.
      and_then (verify_config_shared_files env (cf_shared_users c) (cf_shared_files c)) (\<lambda>_.
      and_then (verify_ignore_and_reverse (cf_ignore_incoming c) (cf_reverse_connection c)) (\<lambda>_.
        Ok c))))))"

definition is_new_password_valid :: "string \<Rightarrow> string \<Rightarrow> (error, unit) outcome" where
  "is_new_password_valid password retype_password =
     (if password = [] then Err (ConfigError PasswordEmpty)
      else if password \<noteq> retype_password then Err (ConfigError PasswordMismatch) else Ok ())"

subsection \<open>What a verified configuration is\<close>

definition port_ok :: "string \<Rightarrow> bool" where
  "port_ok p \<longleftrightarrow> (\<exists>n. parse_i32 p = Some n \<and> n \<le> 65535)"

definition user_ok :: "host_env \<Rightarrow> shared_user \<Rightarrow> bool" where
  "user_ok env u \<longleftrightarrow>
     su_nickname u \<noteq> [] \<and> set (su_nickname u) \<inter> set get_blocked_user_name_chars = {}
     \<and> \<not> contains_str ''transmitic'' (lower env (su_nickname u))
     \<and> port_ok (su_port u) \<and> su_public_id u \<noteq> [] \<and> is_ok (decode (su_public_id u)) \<and> su_ip u \<noteq> []"

definition file_ok :: "string \<Rightarrow> string list \<Rightarrow> config_shared_file \<Rightarrow> bool" where
  "file_ok config_dir nicknames f \<longleftrightarrow>
     set (csf_shared_with f) \<subseteq> set nicknames \<and> \<not> starts_with config_dir (csf_path f)
     \<and> file_contains_only_valid_chars (csf_path f)"

text \<open>
  Pairwise different lower-case nicknames, public ids and paths; every user and every file as it
  should be; a private key that loads; not both ways of connecting at once.
\<close>

definition config_valid :: "host_env \<Rightarrow> config_file \<Rightarrow> bool" where
  "config_valid env c \<longleftrightarrow>
     port_ok (cf_sharing_port c)
     \<and> (\<exists>k. decode (cf_my_private_id c) = Ok k \<and> he_key_ok env k)
     \<and> distinct (map (\<lambda>u. lower env (su_nickname u)) (cf_shared_users c))
     \<and> distinct (map su_public_id (cf_shared_users c))
     \<and> list_all (user_ok env) (cf_shared_users c)
     \<and> distinct (map csf_path (cf_shared_files c))
     \<and> (\<exists>dir. get_path_transmitic_config_dir env = Ok dir
          \<and> list_all (file_ok dir (map su_nickname (cf_shared_users c))) (cf_shared_files c))
     \<and> \<not> (cf_ignore_incoming c \<and> cf_reverse_connection c)"

lemma count_distinct:
  "(\<forall>x \<in> set xs. \<not> 1 < length (filter (\<lambda>y. f x = f y) xs)) \<longleftrightarrow> distinct (map f xs)"
proof
  assume "distinct (map f xs)"
  then show "\<forall>x \<in> set xs. \<not> 1 < length (filter (\<lambda>y. f x = f y) xs)"
  proof (induction xs)
    case (Cons a xs)
    then have "filter (\<lambda>y. f a = f y) xs = []" by (auto simp: filter_empty_conv)
    moreover have "f x \<noteq> f a" if "x \<in> set xs" for x using Cons.prems that by (metis distinct.simps(2) image_eqI list.set_map list.simps(9))
    ultimately show ?case using Cons by auto
  qed simp
next
  assume a: "\<forall>x \<in> set xs. \<not> 1 < length (filter (\<lambda>y. f x = f y) xs)"
  show "distinct (map f xs)"
    using a
  proof (induction xs)
    case (Cons b xs)
    have "filter (\<lambda>y. f b = f y) xs = []" using Cons.prems by (auto simp: not_less le_Suc_eq)
    then have "f b \<notin> set (map f xs)" by (auto simp: filter_empty_conv)
    moreover have "\<forall>x \<in> set xs. \<not> 1 < length (filter (\<lambda>y. f x = f y) xs)"
    proof
      fix x assume "x \<in> set xs"
      with Cons.prems have "length (filter (\<lambda>y. f x = f y) (b # xs)) \<le> 1" by (simp add: not_less)
      moreover have "length (filter (\<lambda>y. f x = f y) xs) \<le> length (filter (\<lambda>y. f x = f y) (b # xs))" by simp
      ultimately show "\<not> 1 < length (filter (\<lambda>y. f x = f y) xs)" by linarith
    qed
    ultimately show ?case using Cons.IH by simp
  qed simp
qed

lemma is_ok_iff: "is_ok r \<longleftrightarrow> (\<exists>x. r = Ok x)"
  by (cases r) auto

lemma check_port_iff: "check_port p = Ok () \<longleftrightarrow> port_ok p"
  by (auto simp: check_port_def port_ok_def split: option.split)

lemma port_ok_nonempty: "port_ok p \<Longrightarrow> p \<noteq> []"
  by (auto simp: port_ok_def parse_i32_def)

lemma find_blocked: "find (\<lambda>c. contains_char c s) bad = None \<longleftrightarrow> set s \<inter> set bad = {}"
  by (auto simp: find_None_iff)

lemma check_user_iff: "check_user env u = Ok () \<longleftrightarrow> user_ok env u"
  using port_ok_nonempty [of "su_port u"]
  by (auto simp: check_user_def user_ok_def check_port_iff is_ok_iff find_blocked [symmetric]
      split: option.split)

lemma check_repeats_iff:
  "check_repeats env us u = Ok () \<longleftrightarrow>
     \<not> 1 < length (filter (\<lambda>j. lower env (su_nickname u) = lower env (su_nickname j)) us)
     \<and> \<not> 1 < length (filter (\<lambda>j. su_public_id u = su_public_id j) us)"
  by (auto simp: check_repeats_def Let_def)

lemma check_file_once_iff:
  "check_file_once fs f = Ok () \<longleftrightarrow> \<not> 1 < length (filter (\<lambda>j. csf_path f = csf_path j) fs)"
  by (auto simp: check_file_once_def Let_def)

lemma blocked_path_invalid:
  "file_contains_only_valid_chars p \<Longrightarrow> set p \<inter> set get_blocked_file_path_chars = {}"
  by (auto simp: file_contains_only_valid_chars_def Let_def get_blocked_file_path_chars_def
      replace_char_def image_iff split: if_splits)

lemma check_file_path_iff:
  "check_file_path dir f = Ok () \<longleftrightarrow>
     \<not> starts_with dir (csf_path f) \<and> file_contains_only_valid_chars (csf_path f)"
  using blocked_path_invalid [of "csf_path f"]
  by (auto simp: check_file_path_def find_blocked [symmetric] split: option.split)

lemma check_file_users_iff:
  "check_file_users ns f = Ok () \<longleftrightarrow> set (csf_shared_with f) \<subseteq> set ns"
  by (auto simp: check_file_users_def)

lemma verify_users_iff:
  "verify_config_shared_users env us = Ok () \<longleftrightarrow>
     distinct (map (\<lambda>u. lower env (su_nickname u)) us) \<and> distinct (map su_public_id us)
     \<and> list_all (user_ok env) us"
  by (auto simp: verify_config_shared_users_def check_repeats_iff check_user_iff list_all_iff
      count_distinct [symmetric])

lemma verify_files_iff:
  "verify_config_shared_files env us fs = Ok () \<longleftrightarrow>
     distinct (map csf_path fs)
     \<and> (\<exists>dir. get_path_transmitic_config_dir env = Ok dir \<and> list_all (file_ok dir (map su_nickname us)) fs)"
  by (auto simp: verify_config_shared_files_def check_file_once_iff check_file_users_iff
      check_file_path_iff list_all_iff file_ok_def count_distinct [symmetric] simp del: set_map)

lemma unit_Ok: "r = Ok u \<longleftrightarrow> r = Ok ()"
  by simp

lemma verify_config_Ok:
  "verify_config env c0 = Ok c \<longleftrightarrow> c = sanitize_config c0 \<and> config_valid env c"
proof -
  have p: "verify_config_port p = Ok () \<longleftrightarrow> port_ok p" for p
    by (simp add: verify_config_port_def check_port_iff)
  have k: "verify_config_my_private_id env s = Ok () \<longleftrightarrow> (\<exists>k. decode s = Ok k \<and> he_key_ok env k)" for s
    by (auto simp: verify_config_my_private_id_def)
  have i: "verify_ignore_and_reverse a b = Ok () \<longleftrightarrow> \<not> (a \<and> b)" for a b
    by (simp add: verify_ignore_and_reverse_def)
  show ?thesis
    unfolding verify_config_def Let_def and_then_Ok_iff config_valid_def
    by (auto simp: p k i verify_users_iff verify_files_iff)
qed

text \<open>
  C17. \<open>verify_config\<close> accepts exactly the configurations whose sanitized form is valid, and
  returns that form: the loops with their counters and early returns decide the declarative
  \<open>config_valid\<close>.
\<close>

theorem verify_config_decides:
  "verify_config env c0 = Ok c \<longleftrightarrow> c = sanitize_config c0 \<and> config_valid env c"
  by (rule verify_config_Ok)

lemma user_nickname_component:
  assumes "user_ok env u"
  shows "path_sep \<notin> set (su_nickname u @ ''.txt'')" and "su_nickname u @ ''.txt'' \<noteq> ''.''"
    and "path_sep \<notin> set (su_nickname u)" and "su_nickname u \<noteq> ''.''" and "su_nickname u \<noteq> []"
  using assms
  by (auto simp: user_ok_def get_blocked_user_name_chars_def get_blocked_file_name_chars_def path_sep_def)

text \<open>
  A nickname of a verified user is one path component and stays one: the queue file and the
  download directory that are named after it lie directly in their directories, and
  different nicknames have different ones.
\<close>

theorem nickname_paths:
  assumes "user_ok env u" and "user_ok env v"
  shows "path_iter (path_push dir (su_nickname u @ ''.txt'')) = path_iter dir @ [su_nickname u @ ''.txt'']
     \<and> path_iter (path_push dir (su_nickname u)) = path_iter dir @ [su_nickname u]
     \<and> (path_iter (path_push dir (su_nickname u @ ''.txt''))
          = path_iter (path_push dir (su_nickname v @ ''.txt'')) \<longrightarrow> su_nickname u = su_nickname v)"
proof -
  have p: "path_iter (path_push dir (su_nickname w @ ''.txt'')) = path_iter dir @ [su_nickname w @ ''.txt'']"
    "path_iter (path_push dir (su_nickname w)) = path_iter dir @ [su_nickname w]"
    if "user_ok env w" for w
    using user_nickname_component [OF that] by (simp_all add: path_iter_push)
  show ?thesis using p [OF assms(1)] p [OF assms(2)] by simp
qed

definition null_host :: host_env where
  "null_host =
     \<lparr>he_lower = (\<lambda>s. s), he_key_ok = (\<lambda>k. k \<noteq> []), he_public_key = (\<lambda>k. k),
      he_var = (\<lambda>v. if v = ''TRAN_PATH_CONFIG'' then Some ''/c'' else None),
      he_exe_dir = None, he_macos = False, he_marker_exists = False,
      he_config_to_json = (\<lambda>_. []), he_config_of_json = (\<lambda>_. None),
      he_encrypted_to_json = (\<lambda>_. []), he_encrypted_of_json = (\<lambda>_. None),
      he_pbkdf2 = (\<lambda>_ _ p. p), he_crypto = null_env\<rparr>"

definition demo_user :: "string \<Rightarrow> string \<Rightarrow> shared_user" where
  "demo_user nickname public_id =
     \<lparr>su_nickname = nickname, su_public_id = public_id, su_ip = ''10.0.0.1'', su_port = ''45454'', su_allowed = True\<rparr>"

lemma demo_user_ok: "user_ok null_host (demo_user ''bob'' ''AAAA'') \<and> user_ok null_host (demo_user ''ann'' ''AAAB'')"
proof -
  have d: "is_ok (decode ''AAAA'')" "is_ok (decode ''AAAB'')" by code_simp+
  have p: "parse_i32 ''45454'' = Some 45454"
    by (simp add: parse_i32_def parse_unsigned_def parse_nat_def digit_val_def)
  have l: "\<not> contains_str ''transmitic'' (to_lowercase (\<lambda>s. s) ''bob'')"
    "\<not> contains_str ''transmitic'' (to_lowercase (\<lambda>s. s) ''ann'')" by code_simp+
  show ?thesis
    using d p l by (simp add: user_ok_def demo_user_def null_host_def lower_def port_ok_def
        get_blocked_user_name_chars_def get_blocked_file_name_chars_def get_blocked_file_path_chars_def)
qed

theorem nickname_paths_witness:
  "path_iter (path_push ''/c'' ''bob.txt'') = path_iter ''/c'' @ [''bob.txt'']"
  using nickname_paths [OF conjunct1 [OF demo_user_ok] conjunct2 [OF demo_user_ok], of "''/c''"]
  by (simp add: demo_user_def)

text \<open>
  The port check only bounds the number from above: a negative number, or a number with a
  plus sign, is accepted although no socket address can be made with it.
\<close>

theorem odd_ports_verified:
  "verify_config_port ''-5'' = Ok () \<and> verify_config_port ''+80'' = Ok ()"
  by (simp add: verify_config_port_def check_port_def parse_i32_def parse_unsigned_def
      parse_nat_def digit_val_def)

text \<open>
  Sanitizing a configuration twice may change it again, because the list of users is sorted
  before the nicknames are trimmed and a prefix \<open>file://\<close> is removed only once: so what is
  read back from the disk may differ from what was verified and written.
\<close>

theorem sanitize_not_idempotent:
  "sanitize_config (sanitize_config (c\<lparr>cf_shared_files := [f\<lparr>csf_path := ''file://file:///a''\<rparr>]\<rparr>))
     \<noteq> sanitize_config (c\<lparr>cf_shared_files := [f\<lparr>csf_path := ''file://file:///a''\<rparr>]\<rparr>)"
proof -
  let ?c = "c\<lparr>cf_shared_files := [f\<lparr>csf_path := ''file://file:///a''\<rparr>]\<rparr>"
  have "strip_file_url (trim ''file://file:///a'') = ''file:///a''" "strip_file_url (trim ''file:///a'') = ''/a''"
    by code_simp+
  then have "map csf_path (cf_shared_files (sanitize_config ?c)) = [''file:///a'']"
    "map csf_path (cf_shared_files (sanitize_config (sanitize_config ?c))) = [''/a'']"
    by (simp_all add: sanitize_config_def sanitize_file_def)
  then show ?thesis by auto
qed

end
