(* ===== verification/Config.thy ===== *)
theory Config
  imports Config_Check
begin

text \<open>
  \<open>Config\<close> of \<open>config.rs\<close>: reading and writing the configuration, plain or encrypted, and the
  operations that change it. An operation works on the pair of the \<open>Config\<close> and the host (the
  file system, and the supply of salts and of new keys).
\<close>

definition CREDENTIAL_LEN :: nat where "CREDENTIAL_LEN = 32"
definition CONFIG_VERSION :: u16 where "CONFIG_VERSION = 0"
definition PBKDF2_ITERATIONS :: u32 where "PBKDF2_ITERATIONS = 600000"

record config =
  c_first_start :: bool
  c_config_file :: config_file
  c_local_private_key_bytes :: bytes
  c_path_dir_config :: string
  c_password :: "string option"
  c_nonce :: u128
  c_iterations :: u32
  c_config_version :: u16

record host_state =
  hs_fs :: file_sys
  hs_salts :: "bytes option list"
  hs_keys :: "bytes option list"

type_synonym 'a host_op = "(host_state, error, 'a) io"
type_synonym 'a config_op = "(config \<times> host_state, error, 'a) io"

definition on_fs :: "'a fs_op \<Rightarrow> 'a host_op" where
  "on_fs m h = (case m (hs_fs h) of (r, fs) \<Rightarrow> (r, h\<lparr>hs_fs := fs\<rparr>))"

definition on_host :: "'a host_op \<Rightarrow> 'a config_op" where
  "on_host m s = (case s of (c, h) \<Rightarrow> (case m h of (r, h') \<Rightarrow> (r, (c, h'))))"

text \<open>The system's random source: it may fail.\<close>

definition fill_salt :: "bytes host_op" where
  "fill_salt h =
     (case hs_salts h of
        Some salt # rest \<Rightarrow> (Ok salt, h\<lparr>hs_salts := rest\<rparr>)
      | _ \<Rightarrow> (Err (ConfigError SaltFailed), h\<lparr>hs_salts := tl (hs_salts h)\<rparr>))"

definition generate_id_pair :: "host_env \<Rightarrow> (bytes \<times> bytes) host_op" where
  "generate_id_pair env h =
     (case hs_keys h of
        Some key # rest \<Rightarrow>
          (if he_key_ok env key then Ok (key, he_public_key env key) else Err (ConfigError KeyGenFailed),
           h\<lparr>hs_keys := rest\<rparr>)
      | _ \<Rightarrow> (Err (ConfigError KeyGenFailed), h\<lparr>hs_keys := tl (hs_keys h)\<rparr>))"

subsection \<open>Writing and reading\<close>

definition get_encrypted_config_str ::
  "host_env \<Rightarrow> string \<Rightarrow> string \<Rightarrow> u128 \<Rightarrow> u32 \<Rightarrow> u16 \<Rightarrow> string host_op" where
  "get_encrypted_config_str env config_str password nonce iterations config_version =
     io_bind fill_salt (\<lambda>salt.
       if iterations = 0 then io_lift (Err (ConfigError (ZeroIterations (unat iterations))))
       else
         (let aes_key = he_pbkdf2 env iterations salt (as_bytes password) in
          case aead_encrypt (he_crypto env) aes_key (nonce_bytes nonce) (as_bytes config_str) of
            None \<Rightarrow> io_lift (Err (ConfigError ConfigEncrypt))
          | Some ciphertext \<Rightarrow>
              io_ok (he_encrypted_to_json env
                \<lparr>ec_version = config_version, ec_nonce = show_nat (unat nonce),
                 ec_pbkdf2_iterations = iterations, ec_salt = encode salt,
                 ec_encrypted_config = encode ciphertext\<rparr>)))"

text \<open>The result is the sanitized configuration, which \<open>write_config\<close> leaves in its argument.\<close>

definition write_config ::
  "host_env \<Rightarrow> config_file \<Rightarrow> string option \<Rightarrow> u128 \<Rightarrow> u32 \<Rightarrow> u16 \<Rightarrow> config_file host_op" where
  "write_config env config_file password nonce iterations config_version =
     io_bind (io_lift (verify_config env config_file)) (\<lambda>c.
     io_bind (io_lift (get_expected_config_path env (password \<noteq> None))) (\<lambda>config_path.
     io_bind
       (case password of
          None \<Rightarrow> io_ok (he_config_to_json env c)
        | Some p \<Rightarrow>
            get_encrypted_config_str env (he_config_to_json env c) p nonce iterations config_version)
       (\<lambda>config_str.
     io_then (on_fs (fs_write config_path (as_bytes config_str))) (io_ok c))))"

definition read_encrypted_config :: "host_env \<Rightarrow> string \<Rightarrow> string \<Rightarrow> (string \<times> u128) host_op" where
  "read_encrypted_config env password config_path =
     io_bind (on_fs (fs_read_to_string config_path)) (\<lambda>config_str. io_lift
       (and_then (ok_or (ConfigError JsonError) (he_encrypted_of_json env config_str)) (\<lambda>ec.
        and_then (ok_or (ConfigError NonceNotANumber) (parse_unsigned (2 ^ 128 - 1) (ec_nonce ec))) (\<lambda>nonce.
        and_then (map_err BadBase64 (decode (ec_salt ec))) (\<lambda>salt.
        and_then (map_err BadBase64 (decode (ec_encrypted_config ec))) (\<lambda>encrypted_bytes.
        if ec_pbkdf2_iterations ec = 0 then Err (ConfigError (ZeroIterations 0))
        else
          (let aes_key = he_pbkdf2 env (ec_pbkdf2_iterations ec) salt (as_bytes password) in
           and_then (ok_or (ConfigError ConfigDecrypt)
               (aead_decrypt (he_crypto env) aes_key (nonce_bytes (of_nat nonce)) encrypted_bytes)) (\<lambda>plaintext.
           and_then (from_utf8 plaintext) (\<lambda>text. Ok (text, of_nat nonce))))))))))"

definition read_config :: "host_env \<Rightarrow> string option \<Rightarrow> (config_file \<times> u128) host_op" where
  "read_config env password =
     io_bind (io_lift (get_expected_config_path env (password \<noteq> None))) (\<lambda>config_path.
     io_bind (io_query (\<lambda>h. ensure (fs_exists config_path (hs_fs h)) (ConfigError (ConfigMissing config_path)))) (\<lambda>_.
     io_bind
       (case password of
          Some p \<Rightarrow> read_encrypted_config env p config_path
        | None \<Rightarrow> io_bind (on_fs (fs_read_to_string config_path)) (\<lambda>s. io_ok (s, NONCE_INIT)))
       (\<lambda>(config_string, nonce). io_lift
         (and_then (ok_or (ConfigError (ConfigInvalid config_path)) (he_config_of_json env config_string)) (\<lambda>cf.
          and_then (verify_config env cf) (\<lambda>c. Ok (c, nonce)))))))"

definition create_config_dir :: "host_env \<Rightarrow> unit host_op" where
  "create_config_dir env =
     io_bind (io_lift (get_path_transmitic_config_dir env)) (\<lambda>path. on_fs (fs_create_dir_all path))"

definition create_new_config :: "host_env \<Rightarrow> string option \<Rightarrow> u128 \<Rightarrow> u32 \<Rightarrow> u16 \<Rightarrow> unit host_op" where
  "create_new_config env password nonce iterations config_version =
     io_bind (generate_id_pair env) (\<lambda>(private_id_bytes, _).
     io_then
       (write_config env
         \<lparr>cf_my_private_id = encode private_id_bytes, cf_shared_users = [], cf_shared_files = [],
          cf_sharing_port = ''45454'', cf_ignore_incoming = False, cf_reverse_connection = False,
          cf_path_downloads = []\<rparr>
         password nonce iterations config_version)
       (io_ok ()))"

definition new_config :: "host_env \<Rightarrow> bool \<Rightarrow> string option \<Rightarrow> config host_op" where
  "new_config env is_first_start password =
     io_then (create_config_dir env)
     (io_then (if is_first_start
               then create_new_config env password NONCE_INIT PBKDF2_ITERATIONS CONFIG_VERSION
               else io_ok ())
     (io_bind (read_config env password) (\<lambda>(config_file, nonce).
      io_bind (io_lift (get_path_transmitic_config_dir env)) (\<lambda>path_dir_config.
      io_bind (io_lift (get_bytes_from_base64_str (cf_my_private_id config_file))) (\<lambda>key_bytes.
        io_ok \<lparr>c_first_start = is_first_start, c_config_file = config_file,
          c_local_private_key_bytes = key_bytes, c_path_dir_config = path_dir_config,
          c_password = password, c_nonce = nonce, c_iterations = PBKDF2_ITERATIONS,
          c_config_version = CONFIG_VERSION\<rparr>)))))"

subsection \<open>Changing the configuration\<close>

definition write_and_set_config :: "host_env \<Rightarrow> config_file \<Rightarrow> unit config_op" where
  "write_and_set_config env config_file =
     io_then
       (io_mod (\<lambda>(c, h).
          (if c_password c \<noteq> None
           then c\<lparr>c_nonce := if NONCE_MAX \<le> c_nonce c then 0 else c_nonce c + 1\<rparr> else c, h)))
     (io_self (\<lambda>(c, h).
        io_bind (on_host (write_config env config_file (c_password c) (c_nonce c) (c_iterations c)
                   (c_config_version c)))
          (\<lambda>cf. io_mod (\<lambda>(c, h). (c\<lparr>c_config_file := cf\<rparr>, h)))))"

text \<open>
  The shape of every operation that edits the configuration: it edits a clone, and then writes
  it, unless there is nothing to write (\<open>None\<close>) or the edit itself is an error.
\<close>

definition edit_config :: "host_env \<Rightarrow> (config_file \<Rightarrow> (error, config_file option) outcome) \<Rightarrow> unit config_op" where
  "edit_config env f =
     io_bind (io_query (\<lambda>(c, h). f (c_config_file c))) (\<lambda>r.
       case r of None \<Rightarrow> io_ok () | Some cf \<Rightarrow> write_and_set_config env cf)"

definition decrypt_config :: "host_env \<Rightarrow> unit config_op" where
  "decrypt_config env s0 =
     (if c_password (fst s0) = None then (Err (ConfigError NotEncrypted), s0)
      else
        (let password = c_password (fst s0); s1 = ((fst s0)\<lparr>c_password := None\<rparr>, snd s0) in
         case write_and_set_config env (c_config_file (fst s0)) s1 of
           (Ok _, s2) \<Rightarrow>
             io_bind (io_lift (get_path_encrypted_config env)) (\<lambda>p. on_host (on_fs (fs_remove_file p))) s2
         | (Err e, s2) \<Rightarrow> (Err e, ((fst s2)\<lparr>c_password := password\<rparr>, snd s2))
         | (r, s2) \<Rightarrow> (r, s2)))"

definition encrypt_config :: "host_env \<Rightarrow> string \<Rightarrow> unit config_op" where
  "encrypt_config env password s0 =
     (if c_password (fst s0) \<noteq> None then (Err (ConfigError AlreadyEncrypted), s0)
      else
        (let s1 = ((fst s0)\<lparr>c_password := Some password\<rparr>, snd s0) in
         case write_and_set_config env (c_config_file (fst s0)) s1 of
           (Ok _, s2) \<Rightarrow>
             io_bind (io_lift (get_path_config_json env)) (\<lambda>p. on_host (on_fs (fs_remove_file p))) s2
         | (Err e, s2) \<Rightarrow> (Err e, ((fst s2)\<lparr>c_password := None\<rparr>, snd s2))
         | (r, s2) \<Rightarrow> (r, s2)))"

definition add_files :: "host_env \<Rightarrow> string list \<Rightarrow> unit config_op" where
  "add_files env files =
     edit_config env (\<lambda>cf.
       (let existing_paths = map csf_path (cf_shared_files cf);
            new = filter (\<lambda>p. p \<notin> set existing_paths) (map strip_file_url files)
        in Ok (Some (cf\<lparr>cf_shared_files := cf_shared_files cf
             @ map (\<lambda>p. \<lparr>csf_path = p, csf_shared_with = []\<rparr>) new\<rparr>))))"

definition add_new_user :: "host_env \<Rightarrow> string \<Rightarrow> string \<Rightarrow> string \<Rightarrow> string \<Rightarrow> unit config_op" where
  "add_new_user env nickname public_id ip port =
     edit_config env (\<lambda>cf. Ok (Some (cf\<lparr>cf_shared_users := cf_shared_users cf
       @ [\<lparr>su_nickname = nickname, su_public_id = public_id, su_ip = ip, su_port = port, su_allowed = True\<rparr>]\<rparr>)))"

text \<open>A loop that changes the first element with a property and then leaves.\<close>

fun update_first :: "('a \<Rightarrow> bool) \<Rightarrow> ('a \<Rightarrow> 'a) \<Rightarrow> 'a list \<Rightarrow> 'a list" where
  "update_first P f [] = []"
| "update_first P f (x # xs) = (if P x then f x # xs else x # update_first P f xs)"

definition add_user_to_shared :: "host_env \<Rightarrow> string \<Rightarrow> string \<Rightarrow> unit config_op" where
  "add_user_to_shared env nickname file_path =
     edit_config env (\<lambda>cf.
       if nickname \<notin> set (map su_nickname (cf_shared_users cf))
       then Err (ConfigError (ShareUserUnknown file_path nickname))
       else (case find (\<lambda>f. csf_path f = file_path) (cf_shared_files cf) of
          None \<Rightarrow> Err (ConfigError (ShareFileUnknown file_path nickname))
        | Some f \<Rightarrow>
            if nickname \<in> set (csf_shared_with f) then Ok None
            else Ok (Some (cf\<lparr>cf_shared_files :=
                update_first (\<lambda>f. csf_path f = file_path)
                  (\<lambda>f. f\<lparr>csf_shared_with := csf_shared_with f @ [nickname]\<rparr>) (cf_shared_files cf)\<rparr>))))"

definition remove_file_from_sharing :: "host_env \<Rightarrow> string \<Rightarrow> unit config_op" where
  "remove_file_from_sharing env file_path =
     edit_config env (\<lambda>cf. Ok (Some (cf\<lparr>cf_shared_files :=
       filter (\<lambda>f. csf_path f \<noteq> file_path) (cf_shared_files cf)\<rparr>)))"

definition unshare :: "string \<Rightarrow> config_shared_file \<Rightarrow> config_shared_file" where
  "unshare nickname f = f\<lparr>csf_shared_with := filter (\<lambda>x. x \<noteq> nickname) (csf_shared_with f)\<rparr>"

definition remove_user_from_sharing :: "host_env \<Rightarrow> string \<Rightarrow> string \<Rightarrow> unit config_op" where
  "remove_user_from_sharing env nickname file_path =
     edit_config env (\<lambda>cf. Ok (Some (cf\<lparr>cf_shared_files :=
       map (\<lambda>f. if csf_path f = file_path then unshare nickname f else f) (cf_shared_files cf)\<rparr>)))"

definition remove_user :: "host_env \<Rightarrow> string \<Rightarrow> unit config_op" where
  "remove_user env nickname =
     edit_config env (\<lambda>cf. Ok (Some (cf\<lparr>
       cf_shared_files := map (unshare nickname) (cf_shared_files cf),
       cf_shared_users := filter (\<lambda>u. su_nickname u \<noteq> nickname) (cf_shared_users cf)\<rparr>)))"

definition set_port :: "host_env \<Rightarrow> string \<Rightarrow> unit config_op" where
  "set_port env port = edit_config env (\<lambda>cf. Ok (Some (cf\<lparr>cf_sharing_port := port\<rparr>)))"

definition set_path_downloads_dir :: "host_env \<Rightarrow> string \<Rightarrow> unit config_op" where
  "set_path_downloads_dir env path = edit_config env (\<lambda>cf. Ok (Some (cf\<lparr>cf_path_downloads := path\<rparr>)))"

definition set_ignore_incoming :: "host_env \<Rightarrow> bool \<Rightarrow> unit config_op" where
  "set_ignore_incoming env state = edit_config env (\<lambda>cf. Ok (Some (cf\<lparr>cf_ignore_incoming := state\<rparr>)))"

definition set_reverse_connection :: "host_env \<Rightarrow> bool \<Rightarrow> unit config_op" where
  "set_reverse_connection env state = edit_config env (\<lambda>cf. Ok (Some (cf\<lparr>cf_reverse_connection := state\<rparr>)))"

definition set_user_is_allowed_state :: "host_env \<Rightarrow> string \<Rightarrow> bool \<Rightarrow> unit config_op" where
  "set_user_is_allowed_state env nickname is_allowed =
     edit_config env (\<lambda>cf.
       if nickname \<in> set (map su_nickname (cf_shared_users cf))
       then Ok (Some (cf\<lparr>cf_shared_users := update_first (\<lambda>u. su_nickname u = nickname)
              (\<lambda>u. u\<lparr>su_allowed := is_allowed\<rparr>) (cf_shared_users cf)\<rparr>))
       else Err (ConfigError (AllowedUserUnknown nickname is_allowed)))"

definition update_user :: "host_env \<Rightarrow> string \<Rightarrow> string \<Rightarrow> string \<Rightarrow> string \<Rightarrow> unit config_op" where
  "update_user env nickname public_id ip port =
     edit_config env (\<lambda>cf.
       if nickname \<in> set (map su_nickname (cf_shared_users cf))
       then Ok (Some (cf\<lparr>cf_shared_users := update_first (\<lambda>u. su_nickname u = nickname)
              (\<lambda>u. u\<lparr>su_public_id := public_id, su_ip := ip, su_port := port\<rparr>) (cf_shared_users cf)\<rparr>))
       else Err (ConfigError (UpdateUserUnknown nickname)))"

definition create_new_id :: "host_env \<Rightarrow> unit config_op" where
  "create_new_id env =
     io_bind (on_host (generate_id_pair env)) (\<lambda>(private_id_bytes, _).
     io_then (edit_config env (\<lambda>cf. Ok (Some (cf\<lparr>cf_my_private_id := encode private_id_bytes\<rparr>))))
     (io_bind (io_query (\<lambda>(c, h). get_bytes_from_base64_str (cf_my_private_id (c_config_file c)))) (\<lambda>bs.
       io_mod (\<lambda>(c, h). (c\<lparr>c_local_private_key_bytes := bs\<rparr>, h)))))"

subsection \<open>Queries\<close>

definition is_config_encrypted :: "config \<Rightarrow> bool" where
  "is_config_encrypted c \<longleftrightarrow> c_password c \<noteq> None"

definition get_local_key_pair :: "host_env \<Rightarrow> config \<Rightarrow> (error, bytes) outcome" where
  "get_local_key_pair env c =
     (if he_key_ok env (c_local_private_key_bytes c) then Ok (c_local_private_key_bytes c) else Panic)"

definition get_public_id_string :: "host_env \<Rightarrow> config \<Rightarrow> (error, string) outcome" where
  "get_public_id_string env c =
     and_then (get_local_key_pair env c) (\<lambda>key. Ok (get_base64_str_from_bytes (he_public_key env key)))"

definition get_users_downloads_dir :: "host_env \<Rightarrow> (error, string) outcome" where
  "get_users_downloads_dir env =
     and_then (ok_or (ConfigError NoHomeDir) (he_var env ''HOME'')) (\<lambda>home. Ok (path_push home ''Downloads''))"

definition get_path_downloads_dir :: "host_env \<Rightarrow> config \<Rightarrow> (error, string) outcome" where
  "get_path_downloads_dir env c =
     and_then
       (if cf_path_downloads (c_config_file c) = [] then
          and_then
            (case he_var env ''TRAN_PATH_DOWNLOADS'' of
               Some p \<Rightarrow> Ok p
             | None \<Rightarrow>
                 and_then (is_transmitic_installed env) (\<lambda>installed.
                   if installed then get_users_downloads_dir env else current_exe_dir env))
            (\<lambda>default_path.
               (let path = path_push default_path ''Transmitic Downloads'';
                    start_sub = [CHR 0x5C, CHR 0x5C, CHR ''?'', CHR 0x5C]
                in Ok (if starts_with start_sub path then drop (length start_sub) path else path)))
        else Ok (cf_path_downloads (c_config_file c)))
       (\<lambda>path. Ok (if ends_with [path_sep] path then path else path @ [path_sep]))"

subsection \<open>What one write does\<close>

definition next_nonce :: "config \<Rightarrow> config" where
  "next_nonce c =
     (if c_password c \<noteq> None
      then c\<lparr>c_nonce := if NONCE_MAX \<le> c_nonce c then 0 else c_nonce c + 1\<rparr> else c)"

lemma next_nonce_fields [simp]:
  "c_config_file (next_nonce c) = c_config_file c"
  "c_password (next_nonce c) = c_password c"
  "c_local_private_key_bytes (next_nonce c) = c_local_private_key_bytes c"
  "c_path_dir_config (next_nonce c) = c_path_dir_config c"
  "c_iterations (next_nonce c) = c_iterations c"
  by (simp_all add: next_nonce_def)

lemma on_fs_run: "on_fs m h = (fst (m (hs_fs h)), h\<lparr>hs_fs := snd (m (hs_fs h))\<rparr>)"
  by (simp add: on_fs_def split: prod.split)

lemma write_and_set_run:
  "write_and_set_config env cf (c, h) =
     (case write_config env cf (c_password c) (c_nonce (next_nonce c)) (c_iterations c) (c_config_version (next_nonce c)) h of
        (Ok cf', h') \<Rightarrow> (Ok (), (next_nonce c)\<lparr>c_config_file := cf'\<rparr>, h')
      | (Err e, h') \<Rightarrow> (Err e, next_nonce c, h')
      | (Panic, h') \<Rightarrow> (Panic, next_nonce c, h')
      | (Exit x, h') \<Rightarrow> (Exit x, next_nonce c, h'))"
  unfolding write_and_set_config_def next_nonce_def [symmetric]
  by (auto simp: io_bind_def io_mod_def io_self_def on_host_def split: prod.split outcome.split)

lemma write_config_Ok_verified:
  "write_config env cf pw nonce it ver h = (Ok c, h') \<Longrightarrow> verify_config env cf = Ok c"
  unfolding write_config_def
  by (auto elim!: io_bind_OkE simp: io_lift_def io_ok_def)

lemma write_and_set_Ok:
  assumes "write_and_set_config env cf (c, h) = (Ok (), (c', h'))"
  shows "\<exists>cf'. c' = (next_nonce c)\<lparr>c_config_file := cf'\<rparr> \<and> verify_config env cf = Ok cf'
     \<and> write_config env cf (c_password c) (c_nonce (next_nonce c)) (c_iterations c)
         (c_config_version (next_nonce c)) h = (Ok cf', h')"
  using assms unfolding write_and_set_run
  by (auto split: prod.splits outcome.splits dest: write_config_Ok_verified)

lemma write_and_set_not_Ok:
  assumes "write_and_set_config env cf (c, h) = (r, (c', h'))" and "r \<noteq> Ok ()"
  shows "c' = next_nonce c"
  using assms unfolding write_and_set_run by (auto split: prod.splits outcome.splits)

lemma edit_config_run:
  "edit_config env f (c, h) =
     (case f (c_config_file c) of
        Ok None \<Rightarrow> (Ok (), c, h)
      | Ok (Some cf) \<Rightarrow> write_and_set_config env cf (c, h)
      | Err e \<Rightarrow> (Err e, c, h)
      | Panic \<Rightarrow> (Panic, c, h)
      | Exit x \<Rightarrow> (Exit x, c, h))"
  by (auto simp: edit_config_def io_bind_def io_query_def io_ok_def split: outcome.split option.split)

subsection \<open>The invariant of a configuration\<close>

text \<open>What trimming leaves alone, and a key that is the one of the private id.\<close>

definition config_trimmed :: "config_file \<Rightarrow> bool" where
  "config_trimmed cf \<longleftrightarrow> trim (cf_my_private_id cf) = cf_my_private_id cf
     \<and> list_all (\<lambda>u. trim (su_nickname u) = su_nickname u) (cf_shared_users cf)
     \<and> list_all (\<lambda>f. list_all (\<lambda>n. trim n = n) (csf_shared_with f)) (cf_shared_files cf)"

definition config_ok :: "host_env \<Rightarrow> config \<Rightarrow> bool" where
  "config_ok env c \<longleftrightarrow> config_valid env (c_config_file c) \<and> config_trimmed (c_config_file c)
     \<and> decode (cf_my_private_id (c_config_file c)) = Ok (c_local_private_key_bytes c)"

abbreviation config_inv :: "host_env \<Rightarrow> config \<times> host_state \<Rightarrow> bool" where
  "config_inv env s \<equiv> config_ok env (fst s)"

lemma sanitize_trimmed: "config_trimmed (sanitize_config cf)"
  by (auto simp: config_trimmed_def sanitize_config_def sanitize_user_def sanitize_file_def list_all_iff)

lemma verified: "verify_config env cf = Ok cf' \<Longrightarrow> config_valid env cf' \<and> config_trimmed cf'"
  by (auto simp: verify_config_Ok sanitize_trimmed)

lemma verified_id: "verify_config env cf = Ok cf' \<Longrightarrow> cf_my_private_id cf' = trim (cf_my_private_id cf)"
  by (auto simp: verify_config_Ok sanitize_config_def)

lemma keeps_write_and_set:
  assumes "config_ok env c" and "cf_my_private_id cf = cf_my_private_id (c_config_file c)"
  shows "config_inv env (snd (write_and_set_config env cf (c, h)))"
proof -
  obtain r c' h' where w: "write_and_set_config env cf (c, h) = (r, (c', h'))"
    by (metis prod.exhaust)
  show ?thesis
  proof (cases "r = Ok ()")
    case True
    with w write_and_set_Ok obtain cf' where cf': "c' = (next_nonce c)\<lparr>c_config_file := cf'\<rparr>"
      "verify_config env cf = Ok cf'" by blast
    with assms show ?thesis
      using verified [OF cf'(2)] verified_id [OF cf'(2)]
      by (simp add: w config_ok_def config_trimmed_def)
  next
    case False
    from write_and_set_not_Ok [OF w this] assms w show ?thesis by (simp add: config_ok_def)
  qed
qed

lemma keeps_edit:
  assumes "\<And>cf cf'. f cf = Ok (Some cf') \<Longrightarrow> cf_my_private_id cf' = cf_my_private_id cf"
  shows "keeps (config_inv env) (edit_config env f)"
proof (rule keepsI)
  fix s assume ok: "config_inv env s"
  obtain c h where s: "s = (c, h)" by (cases s)
  with ok assms show "config_inv env (snd (edit_config env f s))"
    by (auto simp: edit_config_run keeps_write_and_set split: outcome.split option.split)
qed

lemma keeps_on_host [keeps_intros]: "keeps (config_inv env) (on_host m)"
  by (auto simp: keeps_def on_host_def split: prod.split)

lemma keeps_decrypt: "keeps (config_inv env) (decrypt_config env)"
proof (rule keepsI)
  fix s assume ok: "config_inv env s"
  let ?s = "((fst s)\<lparr>c_password := None\<rparr>, snd s)"
  obtain r s2 where w: "write_and_set_config env (c_config_file (fst s)) ?s = (r, s2)" by (rule prod.exhaust)
  have "config_ok env (fst ?s)" using ok by (simp add: config_ok_def)
  from keeps_write_and_set [OF this, of "c_config_file (fst s)" "snd s"] w have s2: "config_inv env s2" by simp
  have rest: "config_inv env (snd (io_bind (io_lift (get_path_encrypted_config env))
      (\<lambda>p. on_host (on_fs (fs_remove_file p))) s2))"
    using keepsD [OF keeps_bind [OF keeps_lift keeps_on_host] s2] .
  show "config_inv env (snd (decrypt_config env s))"
    using ok s2 rest unfolding decrypt_config_def Let_def w
    by (auto simp: config_ok_def split: outcome.split)
qed

lemma keeps_encrypt: "keeps (config_inv env) (encrypt_config env password)"
proof (rule keepsI)
  fix s assume ok: "config_inv env s"
  let ?s = "((fst s)\<lparr>c_password := Some password\<rparr>, snd s)"
  obtain r s2 where w: "write_and_set_config env (c_config_file (fst s)) ?s = (r, s2)" by (rule prod.exhaust)
  have "config_ok env (fst ?s)" using ok by (simp add: config_ok_def)
  from keeps_write_and_set [OF this, of "c_config_file (fst s)" "snd s"] w have s2: "config_inv env s2" by simp
  have rest: "config_inv env (snd (io_bind (io_lift (get_path_config_json env))
      (\<lambda>p. on_host (on_fs (fs_remove_file p))) s2))"
    using keepsD [OF keeps_bind [OF keeps_lift keeps_on_host] s2] .
  show "config_inv env (snd (encrypt_config env password s))"
    using ok s2 rest unfolding encrypt_config_def Let_def w
    by (auto simp: config_ok_def split: outcome.split)
qed

text \<open>
  A new id is the one edit that changes the key: between writing it and loading the key the
  invariant does not hold, and both together restore it.
\<close>

lemma keeps_create_new_id: "keeps (config_inv env) (create_new_id env)"
  unfolding create_new_id_def
proof (rule keeps_bind [OF keeps_on_host], clarify)
  fix key pub
  let ?f = "\<lambda>cf. Ok (Some (cf\<lparr>cf_my_private_id := encode key\<rparr>)) :: (error, config_file option) outcome"
  let ?load = "io_bind (io_query (\<lambda>(c, h). get_bytes_from_base64_str (cf_my_private_id (c_config_file c))))
      (\<lambda>bs. io_mod (\<lambda>(c, h). (c\<lparr>c_local_private_key_bytes := bs\<rparr>, h)))"
  show "keeps (config_inv env) (io_then (edit_config env ?f) ?load)"
  proof (rule keepsI)
    fix s assume ok: "config_inv env s"
    obtain c h where s: "s = (c, h)" by (cases s)
    obtain r c' h' where e: "edit_config env ?f (c, h) = (r, (c', h'))" by (metis prod.exhaust)
    then have w: "write_and_set_config env ((c_config_file c)\<lparr>cf_my_private_id := encode key\<rparr>) (c, h)
        = (r, (c', h'))"
      by (simp add: edit_config_run)
    show "config_inv env (snd (io_then (edit_config env ?f) ?load s))"
    proof (cases "r = Ok ()")
      case True
      with write_and_set_Ok w obtain cf' where cf': "c' = (next_nonce c)\<lparr>c_config_file := cf'\<rparr>"
        "verify_config env ((c_config_file c)\<lparr>cf_my_private_id := encode key\<rparr>) = Ok cf'" by blast
      then obtain k where k: "decode (cf_my_private_id cf') = Ok k"
        using verified [OF cf'(2)] by (auto simp: config_valid_def)
      then have "?load (c', h') = (Ok (), (c'\<lparr>c_local_private_key_bytes := k\<rparr>, h'))"
        by (simp add: io_bind_def io_query_def io_mod_def get_bytes_from_base64_str_def cf'(1))
      then have "io_then (edit_config env ?f) ?load s = (Ok (), (c'\<lparr>c_local_private_key_bytes := k\<rparr>, h'))"
        using e True by (simp add: s io_bind_Ok)
      then show ?thesis
        using verified [OF cf'(2)] k by (simp add: config_ok_def cf'(1))
    next
      case False
      then have "snd (io_then (edit_config env ?f) ?load s) = (c', h')"
        using e by (auto simp: s io_bind_def split: outcome.split)
      moreover have "c' = next_nonce c" by (rule write_and_set_not_Ok [OF w False])
      ultimately show ?thesis using ok by (simp add: s config_ok_def)
    qed
  qed
qed

subsection \<open>Any run of operations\<close>

datatype config_event =
    DecryptConfig | EncryptConfig string
  | AddFiles "string list"
  | AddNewUser string string string string
  | AddUserToShared string string
  | CreateNewId
  | RemoveFileFromSharing string
  | RemoveUserFromSharing string string
  | RemoveUserEvent string
  | SetPort string
  | SetPathDownloadsDir string
  | SetIgnoreIncoming bool
  | SetReverseConnection bool
  | SetUserIsAllowed string bool
  | UpdateUser string string string string

fun config_op :: "host_env \<Rightarrow> config_event \<Rightarrow> unit config_op" where
  "config_op env DecryptConfig = decrypt_config env"
| "config_op env (EncryptConfig password) = encrypt_config env password"
| "config_op env (AddFiles files) = add_files env files"
| "config_op env (AddNewUser n k i p) = add_new_user env n k i p"
| "config_op env (AddUserToShared n f) = add_user_to_shared env n f"
| "config_op env CreateNewId = create_new_id env"
| "config_op env (RemoveFileFromSharing f) = remove_file_from_sharing env f"
| "config_op env (RemoveUserFromSharing n f) = remove_user_from_sharing env n f"
| "config_op env (RemoveUserEvent n) = remove_user env n"
| "config_op env (SetPort p) = set_port env p"
| "config_op env (SetPathDownloadsDir p) = set_path_downloads_dir env p"
| "config_op env (SetIgnoreIncoming b) = set_ignore_incoming env b"
| "config_op env (SetReverseConnection b) = set_reverse_connection env b"
| "config_op env (SetUserIsAllowed n b) = set_user_is_allowed_state env n b"
| "config_op env (UpdateUser n k i p) = update_user env n k i p"

lemmas edit_op_defs = add_files_def add_new_user_def add_user_to_shared_def
  remove_file_from_sharing_def remove_user_from_sharing_def remove_user_def set_port_def
  set_path_downloads_dir_def set_ignore_incoming_def set_reverse_connection_def
  set_user_is_allowed_state_def update_user_def

lemma keeps_config_op: "keeps (config_inv env) (config_op env e)"
  by (cases e)
    (auto simp: edit_op_defs Let_def keeps_decrypt keeps_encrypt keeps_create_new_id
      intro!: keeps_edit split: if_splits option.splits)

interpretation config_machine: event_machine "\<lambda>s e. snd (config_op env e s)" "config_inv env" for env
  by unfold_locales (rule keepsD [OF keeps_config_op])

lemma read_config_Ok:
  "read_config env pw h = (Ok (cf, n), h') \<Longrightarrow> \<exists>cf0. verify_config env cf0 = Ok cf"
  unfolding read_config_def
  by (auto elim!: io_bind_OkE simp: io_lift_def split: prod.splits)

lemma new_config_ok:
  assumes "new_config env first pw h = (Ok c, h')"
  shows "config_ok env c"
proof -
  obtain cf nonce h1 h2 dir k where r: "read_config env pw h1 = (Ok (cf, nonce), h2)"
    and k: "get_bytes_from_base64_str (cf_my_private_id cf) = Ok k"
    and c: "c_config_file c = cf" "c_local_private_key_bytes c = k"
    using assms unfolding new_config_def
    by (auto elim!: io_bind_OkE simp: io_lift_def io_ok_def)
  from read_config_Ok [OF r] verified k show ?thesis
    by (auto simp: config_ok_def c get_bytes_from_base64_str_def)
qed

text \<open>
  C14. From a configuration that was read, whatever operations follow and however they end
  (disk errors, refused edits, a failing random source), the configuration in use is valid: it
  passes every check of \<open>verify_config\<close>, and the key in use is the one of its private id.
\<close>

theorem config_stays_valid:
  assumes "new_config env first pw h = (Ok c, h')"
  shows "let s = foldl (\<lambda>s e. snd (config_op env e s)) (c, h') es in
     config_valid env (c_config_file (fst s))
     \<and> decode (cf_my_private_id (c_config_file (fst s))) = Ok (c_local_private_key_bytes (fst s))"
proof -
  have "config_inv env (c, h')" using new_config_ok [OF assms] by simp
  from config_machine.run_inv [OF this, of es] show ?thesis by (simp add: config_ok_def Let_def)
qed

text \<open>
  C35. An edit is all or nothing in memory: if it does not succeed, the configuration, the key
  and the password are as before; if it does, the configuration is the sanitized edit, and valid.
\<close>

theorem config_edit_atomic:
  assumes "edit_config env f (c, h) = (r, (c', h'))"
  shows "c_local_private_key_bytes c' = c_local_private_key_bytes c \<and> c_password c' = c_password c
     \<and> (if r = Ok () then
          f (c_config_file c) = Ok None \<and> c_config_file c' = c_config_file c
          \<or> (\<exists>cf. f (c_config_file c) = Ok (Some cf) \<and> c_config_file c' = sanitize_config cf
               \<and> config_valid env (c_config_file c'))
        else c_config_file c' = c_config_file c)"
proof (cases "\<exists>cf. f (c_config_file c) = Ok (Some cf)")
  case True
  then obtain cf where cf: "f (c_config_file c) = Ok (Some cf)" by blast
  with assms have w: "write_and_set_config env cf (c, h) = (r, (c', h'))" by (simp add: edit_config_run)
  show ?thesis
  proof (cases "r = Ok ()")
    case True
    with w write_and_set_Ok obtain cf' where "c' = (next_nonce c)\<lparr>c_config_file := cf'\<rparr>"
      "verify_config env cf = Ok cf'" by blast
    with True cf show ?thesis by (auto simp: verify_config_Ok)
  next
    case False
    from write_and_set_not_Ok [OF w False] False show ?thesis by simp
  qed
next
  case False
  with assms have "c' = c \<and> (r = Ok () \<longrightarrow> f (c_config_file c) = Ok None)"
    unfolding edit_config_run by (auto split: outcome.splits option.splits)
  then show ?thesis by simp
qed

subsection \<open>Removing a user\<close>

lemma trim_filter_unshare:
  "map trim (filter (\<lambda>x. x \<noteq> n) xs) = filter (\<lambda>x. x \<noteq> n) xs" if "\<forall>x \<in> set xs. trim x = x" for xs n
  using that by (induction xs) auto

lemma remove_user_effect:
  assumes "config_ok env c" and "remove_user env n (c, h) = (Ok (), (c', h'))"
  shows "n \<notin> set (map su_nickname (cf_shared_users (c_config_file c')))
     \<and> (\<forall>f \<in> set (cf_shared_files (c_config_file c')). n \<notin> set (csf_shared_with f))
     \<and> set (map su_nickname (cf_shared_users (c_config_file c')))
         = set (map su_nickname (cf_shared_users (c_config_file c))) - {n}
     \<and> map (set \<circ> csf_shared_with) (cf_shared_files (c_config_file c'))
         = map (\<lambda>f. set (csf_shared_with f) - {n}) (cf_shared_files (c_config_file c))"
proof -
  let ?cf = "c_config_file c"
  let ?edit = "?cf\<lparr>cf_shared_files := map (unshare n) (cf_shared_files ?cf),
       cf_shared_users := filter (\<lambda>u. su_nickname u \<noteq> n) (cf_shared_users ?cf)\<rparr>"
  have "write_and_set_config env ?edit (c, h) = (Ok (), (c', h'))"
    using assms(2) by (simp add: remove_user_def edit_config_run)
  from write_and_set_Ok [OF this] have cf': "c_config_file c' = sanitize_config ?edit"
    by (auto simp: verify_config_Ok)
  have t: "\<forall>u \<in> set (cf_shared_users ?cf). trim (su_nickname u) = su_nickname u"
    "\<forall>f \<in> set (cf_shared_files ?cf). \<forall>x \<in> set (csf_shared_with f). trim x = x"
    using assms(1) by (auto simp: config_ok_def config_trimmed_def list_all_iff)
  have users: "set (map su_nickname (cf_shared_users (c_config_file c')))
      = set (map su_nickname (cf_shared_users ?cf)) - {n}"
    using t(1) by (auto simp: cf' sanitize_config_def sanitize_user_def image_iff)
  have "set (csf_shared_with (sanitize_file (unshare n f))) = set (csf_shared_with f) - {n}"
    if "f \<in> set (cf_shared_files ?cf)" for f
    using t(2) that by (auto simp: sanitize_file_def unshare_def image_iff)
  then have files: "map (set \<circ> csf_shared_with) (cf_shared_files (c_config_file c'))
      = map (\<lambda>f. set (csf_shared_with f) - {n}) (cf_shared_files ?cf)"
    by (simp add: cf' sanitize_config_def)
  from files have "(set \<circ> csf_shared_with) ` set (cf_shared_files (c_config_file c'))
      = (\<lambda>f. set (csf_shared_with f) - {n}) ` set (cf_shared_files ?cf)"
    by (metis list.set_map)
  then have "\<forall>f \<in> set (cf_shared_files (c_config_file c')). n \<notin> set (csf_shared_with f)" by auto
  with users files show ?thesis by auto
qed

text \<open>
  After a user has been removed, the configuration has no user of that name and shares no
  file with it, and every other user and every other share is still there.
\<close>

theorem remove_user_clean:
  assumes "config_ok env c" and "remove_user env n (c, h) = (Ok (), (c', h'))"
  shows "n \<notin> set (map su_nickname (cf_shared_users (c_config_file c')))
     \<and> (\<forall>f \<in> set (cf_shared_files (c_config_file c')). n \<notin> set (csf_shared_with f))
     \<and> set (map su_nickname (cf_shared_users (c_config_file c')))
         = set (map su_nickname (cf_shared_users (c_config_file c))) - {n}
     \<and> map (set \<circ> csf_shared_with) (cf_shared_files (c_config_file c'))
         = map (\<lambda>f. set (csf_shared_with f) - {n}) (cf_shared_files (c_config_file c))"
  using assms by (rule remove_user_effect)

subsection \<open>Reading back what was written\<close>

text \<open>
  What the code relies on, of serde_json: a value printed is the value parsed, and the text of a
  Rust string is UTF-8; of AES-GCM: what was encrypted decrypts to the plaintext.
\<close>

definition config_json_ok :: "host_env \<Rightarrow> config_file \<Rightarrow> bool" where
  "config_json_ok env c \<longleftrightarrow> he_config_of_json env (he_config_to_json env c) = Some c
     \<and> is_utf8 (as_bytes (he_config_to_json env c))"

definition encrypted_json_ok :: "host_env \<Rightarrow> bool" where
  "encrypted_json_ok env \<longleftrightarrow>
     (\<forall>ec. he_encrypted_of_json env (he_encrypted_to_json env ec) = Some ec
        \<and> is_utf8 (as_bytes (he_encrypted_to_json env ec)))"

definition aead_inverse :: "crypto_env \<Rightarrow> bool" where
  "aead_inverse cr \<longleftrightarrow>
     (\<forall>k n p x. aead_encrypt cr k n p = Some x \<longrightarrow> aead_decrypt cr k n x = Some p)"

lemma on_fs_read_written:
  assumes "on_fs (fs_write p (as_bytes s)) h = (Ok u, h')" and "is_utf8 (as_bytes s)"
  shows "on_fs (fs_read_to_string p) h' = (Ok s, h') \<and> fs_exists p (hs_fs h')"
proof -
  obtain fs' where w: "fs_write p (as_bytes s) (hs_fs h) = (Ok u, fs')" and h': "h' = h\<lparr>hs_fs := fs'\<rparr>"
    using assms(1) by (auto simp: on_fs_def split: prod.splits)
  from fs_read_written [OF w assms(2)] fs_write_Ok [OF w] show ?thesis
    by (simp add: on_fs_def h' fs_exists_def)
qed

lemma encrypted_text_opens:
  assumes g: "get_encrypted_config_str env text pw nonce it ver h = (Ok s, h1)"
    and w: "on_fs (fs_write p (as_bytes s)) h1 = (Ok u, h')"
    and j: "encrypted_json_ok env" and a: "aead_inverse (he_crypto env)" and t: "is_utf8 (as_bytes text)"
  shows "read_encrypted_config env pw p h' = (Ok (text, nonce), h') \<and> fs_exists p (hs_fs h')"
proof -
  obtain salt h0 where salt: "fill_salt h = (Ok salt, h0)"
    using g unfolding get_encrypted_config_str_def by (auto elim!: io_bind_OkE)
  with g obtain ct where it: "it \<noteq> 0"
    and ct: "aead_encrypt (he_crypto env) (he_pbkdf2 env it salt (as_bytes pw)) (nonce_bytes nonce) (as_bytes text) = Some ct"
    and s: "s = he_encrypted_to_json env
       \<lparr>ec_version = ver, ec_nonce = show_nat (unat nonce), ec_pbkdf2_iterations = it,
        ec_salt = encode salt, ec_encrypted_config = encode ct\<rparr>"
    unfolding get_encrypted_config_str_def
    by (auto simp: io_bind_Ok [where m = fill_salt] io_lift_def io_ok_def Let_def split: if_splits option.splits)
  have u: "is_utf8 (as_bytes s)" using j by (simp add: s encrypted_json_ok_def)
  have n: "parse_unsigned (2 ^ 128 - 1) (show_nat (unat nonce)) = Some (unat nonce)"
    using unsigned_less [of nonce, where ?'a = nat] by (intro parse_unsigned_show) simp
  have d: "aead_decrypt (he_crypto env) (he_pbkdf2 env it salt (as_bytes pw)) (nonce_bytes nonce) ct = Some (as_bytes text)"
    using a ct by (simp add: aead_inverse_def)
  have e: "he_encrypted_of_json env s = Some
      \<lparr>ec_version = ver, ec_nonce = show_nat (unat nonce), ec_pbkdf2_iterations = it,
        ec_salt = encode salt, ec_encrypted_config = encode ct\<rparr>"
    using j by (simp add: s encrypted_json_ok_def)
  show ?thesis
    using on_fs_read_written [OF w u] it t
    by (simp add: read_encrypted_config_def io_bind_def io_lift_def e n [simplified] decode_encode d
        from_utf8_def Let_def del: and_then_Ok_iff)
qed

lemma write_config_parts:
  assumes "write_config env cf pw nonce it ver h = (Ok c, h')"
  obtains path s h1 where "get_expected_config_path env (pw \<noteq> None) = Ok path"
    and "(case pw of None \<Rightarrow> io_ok (he_config_to_json env c)
          | Some p \<Rightarrow> get_encrypted_config_str env (he_config_to_json env c) p nonce it ver) h = (Ok s, h1)"
    and "on_fs (fs_write path (as_bytes s)) h1 = (Ok (), h')"
  using assms unfolding write_config_def
  by (auto elim!: io_bind_OkE simp: io_lift_def io_ok_def)

lemma read_after_write:
  assumes w: "write_config env cf pw nonce it ver h = (Ok c, h')"
    and j: "config_json_ok env c" and e: "encrypted_json_ok env" and a: "aead_inverse (he_crypto env)"
  shows "read_config env pw h' =
     (and_then (verify_config env c) (\<lambda>c'. Ok (c', if pw = None then NONCE_INIT else nonce)), h')"
proof -
  obtain path s h1 where p: "get_expected_config_path env (pw \<noteq> None) = Ok path"
    and s: "(case pw of None \<Rightarrow> io_ok (he_config_to_json env c)
          | Some p \<Rightarrow> get_encrypted_config_str env (he_config_to_json env c) p nonce it ver) h = (Ok s, h1)"
    and w1: "on_fs (fs_write path (as_bytes s)) h1 = (Ok (), h')"
    by (rule write_config_parts [OF w])
  have u: "is_utf8 (as_bytes (he_config_to_json env c))" using j by (simp add: config_json_ok_def)
  show ?thesis
  proof (cases pw)
    case None
    then have "s = he_config_to_json env c" using s by (simp add: io_ok_def)
    with on_fs_read_written [OF w1] u None p j show ?thesis
      by (simp add: read_config_def io_bind_def io_lift_def io_query_def io_ok_def config_json_ok_def)
  next
    case (Some q)
    with s have "get_encrypted_config_str env (he_config_to_json env c) q nonce it ver h = (Ok s, h1)" by simp
    from encrypted_text_opens [OF this w1 e a u] Some p j show ?thesis
      by (simp add: read_config_def io_bind_def io_lift_def io_query_def config_json_ok_def)
  qed
qed


subsection \<open>Encrypting the configuration\<close>

lemma config_paths:
  assumes "get_path_config_json env = Ok pj" and "get_path_encrypted_config env = Ok pe"
  shows "path_iter pj \<noteq> path_iter pe"
proof -
  obtain d where d: "pj = path_push d ''transmitic_config.json''" "pe = path_push d ''transmitic_config.etrc''"
    using assms by (auto simp: get_path_config_json_def get_path_encrypted_config_def)
  have "path_iter pj = path_iter d @ [''transmitic_config.json'']"
    "path_iter pe = path_iter d @ [''transmitic_config.etrc'']"
    unfolding d by (rule path_iter_push; simp add: path_sep_def)+
  then show ?thesis by simp
qed

definition file_is :: "fpath \<Rightarrow> bytes option \<Rightarrow> host_state \<Rightarrow> bool" where
  "file_is k v h \<longleftrightarrow> fs_files (hs_fs h) k = v"

lemma io_bind_lift_Ok: "io_bind (io_lift (Ok x)) f = f x"
  by (rule ext) (simp add: io_bind_def io_lift_def)

lemma keeps_fill_salt [keeps_intros]: "keeps (file_is k v) fill_salt"
  by (auto simp: keeps_def file_is_def fill_salt_def split: list.split option.split)

lemma keeps_encrypted_str [keeps_intros]: "keeps (file_is k v) (get_encrypted_config_str env t pw n it ver)"
  unfolding get_encrypted_config_str_def Let_def
  by (intro keeps_intros) (auto intro: keeps_intros split: option.split)

lemma keeps_fs_write: "k \<noteq> path_iter p \<Longrightarrow> keeps (file_is k v) (on_fs (fs_write p bs))"
  by (auto simp: keeps_def file_is_def on_fs_run fs_write_other)

text \<open>Only the file that is expected is written.\<close>

lemma keeps_write_config:
  assumes "get_expected_config_path env (pw \<noteq> None) = Ok p" and "k \<noteq> path_iter p"
  shows "keeps (file_is k v) (write_config env cf pw n it ver)"
  unfolding write_config_def assms(1) io_bind_lift_Ok
  by (cases pw) (auto intro!: keeps_intros keeps_fs_write assms(2))

lemma write_and_set_other_files:
  assumes "get_expected_config_path env (c_password c \<noteq> None) = Ok p" and "k \<noteq> path_iter p"
    and "write_and_set_config env cf (c, h) = (r, (c', h'))"
  shows "fs_files (hs_fs h') k = fs_files (hs_fs h) k"
proof -
  have "h' = snd (write_config env cf (c_password c) (c_nonce (next_nonce c)) (c_iterations c)
         (c_config_version (next_nonce c)) h)"
    using assms(3) unfolding write_and_set_run by (auto split: prod.splits outcome.splits)
  with keepsD [OF keeps_write_config [OF assms(1,2)], of "fs_files (hs_fs h) k" h] show ?thesis
    by (simp add: file_is_def)
qed

lemma fs_remove_file_Ok:
  "fs_remove_file p fs = (Ok u, fs') \<Longrightarrow>
     fs_files fs' = (fs_files fs)(path_iter p := None) \<and> fs_denied fs' = fs_denied fs \<and> fs_is_dir fs' = fs_is_dir fs"
  by (auto simp: fs_remove_file_def split: option.splits if_splits)

lemma fs_remove_file_not_Ok: "fst (fs_remove_file p fs) \<noteq> Ok () \<Longrightarrow> snd (fs_remove_file p fs) = fs"
  by (auto simp: fs_remove_file_def split: option.splits if_splits)

text \<open>Reading depends only on the expected file.\<close>

lemma read_config_same_file:
  assumes "get_expected_config_path env (pw \<noteq> None) = Ok p"
    and "fs_files (hs_fs h2) (path_iter p) = fs_files (hs_fs h1) (path_iter p)"
    and "fs_is_dir (hs_fs h2) = fs_is_dir (hs_fs h1)" and "fs_denied (hs_fs h2) = fs_denied (hs_fs h1)"
  shows "fst (read_config env pw h2) = fst (read_config env pw h1)"
proof -
  have "fs_exists p (hs_fs h2) = fs_exists p (hs_fs h1)" using assms by (simp add: fs_exists_def)
  moreover have "fst (fs_read_to_string p (hs_fs h2)) = fst (fs_read_to_string p (hs_fs h1))"
    using assms by (simp add: fs_read_to_string_def split: option.split)
  ultimately show ?thesis
    unfolding read_config_def read_encrypted_config_def assms(1) io_bind_lift_Ok
    by (auto simp: io_bind_def io_query_def io_lift_def io_ok_def on_fs_run split: outcome.split option.split prod.split)
qed


subsection \<open>A host for which the hypotheses hold\<close>

text \<open>
  A printer and a parser for encrypted configurations: the fields in hexadecimal with letters
  from A, each ended by a period.
\<close>

definition hex_char :: "char \<Rightarrow> string" where
  "hex_char c = [char_of (65 + (of_char c :: nat) div 16), char_of (65 + (of_char c :: nat) mod 16)]"

fun unhex :: "string \<Rightarrow> string" where
  "unhex (a # b # s) = char_of (((of_char a :: nat) - 65) * 16 + (of_char b - 65)) # unhex s"
| "unhex s = []"

definition fields_text :: "string list \<Rightarrow> string" where
  "fields_text fs = concat (map (\<lambda>l. l @ [CHR ''.'']) (map (\<lambda>f. concat (map hex_char f)) fs))"

definition text_fields :: "string \<Rightarrow> string list" where
  "text_fields s = map unhex (butlast (split_on (CHR ''.'') s))"

lemma char_nat_bound: "(of_char c :: nat) < 256"
  by simp

lemma hex_char_digits:
  "d \<in> set (hex_char c) \<Longrightarrow> 65 \<le> (of_char d :: nat) \<and> (of_char d :: nat) \<le> 80"
proof -
  assume "d \<in> set (hex_char c)"
  then consider "d = char_of (65 + (of_char c :: nat) div 16)" | "d = char_of (65 + (of_char c :: nat) mod 16)"
    by (auto simp: hex_char_def)
  then show ?thesis
  proof cases
    case 1
    have "(of_char c :: nat) div 16 < 16" using char_nat_bound [of c] by (intro less_mult_imp_div_less) simp
    with 1 show ?thesis by simp
  next
    case 2
    have "(of_char c :: nat) mod 16 < 16" by simp
    with 2 show ?thesis by simp
  qed
qed

lemma unhex_hex: "unhex (concat (map hex_char s)) = s"
proof (induction s)
  case (Cons c s)
  have "(of_char c :: nat) div 16 < 16" using char_nat_bound [of c] by (intro less_mult_imp_div_less) simp
  moreover have "(of_char c :: nat) mod 16 < 16" by simp
  moreover have "char_of ((of_char c :: nat) div 16 * 16 + of_char c mod 16) = c" by simp
  ultimately show ?case using Cons by (simp add: hex_char_def)
qed simp

lemma text_fields_text: "text_fields (fields_text fs) = fs"
proof -
  have "CHR ''.'' \<notin> set (concat (map hex_char f))" for f
    using hex_char_digits [of "CHR ''.''"] by auto
  then have "split_on (CHR ''.'') (fields_text fs) = map (\<lambda>f. concat (map hex_char f)) fs @ [[]]"
    unfolding fields_text_def by (intro split_on_unlines) auto
  then show ?thesis by (simp add: text_fields_def comp_def unhex_hex)
qed

lemma fields_text_ascii: "is_ascii (fields_text fs)"
  by (auto simp: fields_text_def is_ascii_def dest!: hex_char_digits)

definition demo_encrypted_to_json :: "encrypted_config \<Rightarrow> string" where
  "demo_encrypted_to_json ec =
     fields_text [show_nat (unat (ec_version ec)), ec_nonce ec, show_nat (unat (ec_pbkdf2_iterations ec)),
       ec_salt ec, ec_encrypted_config ec]"

definition demo_encrypted_of_json :: "string \<Rightarrow> encrypted_config option" where
  "demo_encrypted_of_json s =
     (case text_fields s of
        [v, n, i, salt, ct] \<Rightarrow>
          (case (parse_unsigned (2 ^ 16 - 1) v, parse_unsigned (2 ^ 32 - 1) i) of
             (Some ver, Some it) \<Rightarrow>
               Some \<lparr>ec_version = of_nat ver, ec_nonce = n, ec_pbkdf2_iterations = of_nat it,
                 ec_salt = salt, ec_encrypted_config = ct\<rparr>
           | _ \<Rightarrow> None)
      | _ \<Rightarrow> None)"

definition demo_config :: config_file where
  "demo_config =
     \<lparr>cf_my_private_id = ''AQ=='', cf_shared_users = [], cf_shared_files = [], cf_sharing_port = ''45454'',
      cf_ignore_incoming = False, cf_reverse_connection = False, cf_path_downloads = []\<rparr>"

definition demo_host :: host_env where
  "demo_host = null_host\<lparr>he_config_to_json := (\<lambda>_. ''cfg''), he_config_of_json := (\<lambda>_. Some demo_config),
     he_encrypted_to_json := demo_encrypted_to_json, he_encrypted_of_json := demo_encrypted_of_json\<rparr>"

definition demo_state :: host_state where
  "demo_state = \<lparr>hs_fs = demo_fs, hs_salts = [Some [1], Some [2]], hs_keys = [Some [1]]\<rparr>"

definition demo_cfg :: config where
  "demo_cfg = \<lparr>c_first_start = False, c_config_file = demo_config, c_local_private_key_bytes = [1],
     c_path_dir_config = ''/c/transmitic_config'', c_password = None, c_nonce = 0, c_iterations = 600000,
     c_config_version = 0\<rparr>"

lemma demo_encrypted_json: "encrypted_json_ok demo_host"
proof -
  have v: "parse_unsigned (2 ^ 16 - 1) (show_nat (unat v)) = Some (unat v)" for v :: u16
    using unsigned_less [of v, where ?'a = nat] by (intro parse_unsigned_show) simp
  have i: "parse_unsigned (2 ^ 32 - 1) (show_nat (unat i)) = Some (unat i)" for i :: u32
    using unsigned_less [of i, where ?'a = nat] by (intro parse_unsigned_show) simp
  show ?thesis
    using v i by (simp add: encrypted_json_ok_def demo_host_def demo_encrypted_to_json_def
        demo_encrypted_of_json_def text_fields_text fields_text_ascii is_utf8_ascii)
qed

lemma demo_aead: "aead_inverse (he_crypto demo_host)"
  by (simp add: aead_inverse_def demo_host_def null_host_def null_env_def)

lemma demo_config_json: "config_json_ok demo_host demo_config"
proof -
  have "is_utf8 (as_bytes ''cfg'')" by code_simp
  then show ?thesis by (simp add: config_json_ok_def demo_host_def)
qed

lemma parse_45454: "parse_i32 ''45454'' = Some 45454"
  by (simp add: parse_i32_def parse_unsigned_def parse_nat_def digit_val_def)

lemma demo_verified: "verify_config demo_host demo_config = Ok demo_config"
proof -
  have "trim ''AQ=='' = ''AQ==''" "trim ''45454'' = ''45454''" "trim [] = []"
    by (rule trim_printable; simp add: printable_def)+
  then have s: "sanitize_config demo_config = demo_config"
    by (simp add: sanitize_config_def demo_config_def)
  have "decode ''AQ=='' = Ok [1]" by code_simp
  then have "config_valid demo_host demo_config"
    by (simp add: config_valid_def demo_config_def port_ok_def parse_45454 demo_host_def null_host_def
        get_path_transmitic_config_dir_def)
  with s show ?thesis by (simp add: verify_config_Ok)
qed

lemma demo_paths:
  "get_path_transmitic_config_dir demo_host = Ok ''/c/transmitic_config''"
  "get_path_config_json demo_host = Ok ''/c/transmitic_config/transmitic_config.json''"
  "get_path_encrypted_config demo_host = Ok ''/c/transmitic_config/transmitic_config.etrc''"
proof -
  show d: "get_path_transmitic_config_dir demo_host = Ok ''/c/transmitic_config''"
    by (simp add: get_path_transmitic_config_dir_def demo_host_def null_host_def path_push_def
        starts_with_def ends_with_def path_sep_def)
  show "get_path_config_json demo_host = Ok ''/c/transmitic_config/transmitic_config.json''"
    "get_path_encrypted_config demo_host = Ok ''/c/transmitic_config/transmitic_config.etrc''"
    by (simp_all add: get_path_config_json_def get_path_encrypted_config_def d path_push_def
        starts_with_def ends_with_def path_sep_def)
qed

text \<open>The host after the configuration directory has been made and the configuration written.\<close>

definition demo_disk :: host_state where
  "demo_disk = demo_state\<lparr>hs_fs := demo_fs\<lparr>
     fs_is_dir := (\<lambda>k. k \<in> set (prefixes [''/'', ''c'', ''transmitic_config'']) \<or> fs_is_dir demo_fs k),
     fs_files := (\<lambda>_. None)([''/'', ''c'', ''transmitic_config'', ''transmitic_config.json''] := Some (as_bytes ''cfg''))\<rparr>\<rparr>"

lemma demo_iters:
  "path_iter ''/c/transmitic_config'' = [''/'', ''c'', ''transmitic_config'']"
  "path_iter ''/c/transmitic_config/transmitic_config.json''
     = [''/'', ''c'', ''transmitic_config'', ''transmitic_config.json'']"
  "path_iter ''/c/transmitic_config/transmitic_config.etrc''
     = [''/'', ''c'', ''transmitic_config'', ''transmitic_config.etrc'']"
  by code_simp+

lemma demo_written:
  assumes "verify_config demo_host cf = Ok cf'"
  shows "write_config demo_host cf None n it ver demo_disk = (Ok cf', demo_disk)"
proof -
  have "fs_write ''/c/transmitic_config/transmitic_config.json'' (as_bytes ''cfg'') (hs_fs demo_disk)
      = (Ok (), hs_fs demo_disk)"
    by (simp add: fs_write_def demo_iters fs_may_write_def demo_disk_def demo_state_def demo_fs_def fs_put_def
        del: as_bytes_append)
  then show ?thesis
    by (simp add: write_config_def io_bind_def io_lift_def io_ok_def assms get_expected_config_path_def
        demo_paths on_fs_def) (simp add: demo_host_def io_ok_def)
qed

lemma demo_new:
  "new_config demo_host True None demo_state
     = (Ok (demo_cfg\<lparr>c_first_start := True\<rparr>), demo_disk\<lparr>hs_keys := []\<rparr>)"
proof -
  let ?h1 = "demo_state\<lparr>hs_fs := demo_fs\<lparr>
     fs_is_dir := (\<lambda>k. k \<in> set (prefixes [''/'', ''c'', ''transmitic_config'']) \<or> fs_is_dir demo_fs k)\<rparr>\<rparr>"
  have dir: "create_config_dir demo_host demo_state = (Ok (), ?h1)"
    by (simp add: create_config_dir_def io_bind_def io_lift_def demo_paths on_fs_def fs_create_dir_all_def
        demo_iters Let_def demo_state_def demo_fs_def)
  have enc: "encode [1] = ''AQ==''" by code_simp
  have key: "he_key_ok demo_host [1]" by (simp add: demo_host_def null_host_def)
  have w: "fs_write ''/c/transmitic_config/transmitic_config.json'' (as_bytes ''cfg'') (hs_fs ?h1)
      = (Ok (), hs_fs demo_disk)"
    by (simp add: fs_write_def demo_iters fs_may_write_def demo_disk_def demo_state_def demo_fs_def fs_put_def)
  have new: "create_new_config demo_host None NONCE_INIT PBKDF2_ITERATIONS CONFIG_VERSION ?h1
      = (Ok (), demo_disk\<lparr>hs_keys := []\<rparr>)"
    using w demo_verified
    by (simp add: create_new_config_def generate_id_pair_def demo_state_def io_bind_def key enc
        demo_config_def [symmetric] write_config_def io_lift_def io_ok_def get_expected_config_path_def
        demo_paths on_fs_def) (simp add: demo_host_def demo_disk_def demo_state_def io_ok_def)
  have rd: "fs_read_to_string ''/c/transmitic_config/transmitic_config.json'' (hs_fs demo_disk)
      = (Ok ''cfg'', hs_fs demo_disk)"
  proof -
    have "is_utf8 (as_bytes ''cfg'')" by code_simp
    then show ?thesis
      by (simp add: fs_read_to_string_def demo_iters demo_disk_def demo_state_def demo_fs_def)
  qed
  have ex: "fs_exists ''/c/transmitic_config/transmitic_config.json'' (hs_fs demo_disk)"
    by (simp add: fs_exists_def demo_iters demo_disk_def)
  have of_json: "he_config_of_json demo_host s = Some demo_config" for s by (simp add: demo_host_def)
  have read: "read_config demo_host None (demo_disk\<lparr>hs_keys := []\<rparr>)
      = (Ok (demo_config, NONCE_INIT), demo_disk\<lparr>hs_keys := []\<rparr>)"
    by (simp add: read_config_def io_bind_def io_lift_def get_expected_config_path_def demo_paths
        io_query_def ex on_fs_def rd io_ok_def of_json demo_verified del: and_then_Ok_iff)
  have id: "get_bytes_from_base64_str (cf_my_private_id demo_config) = Ok [1]"
  proof -
    have "decode ''AQ=='' = Ok [1]" by code_simp
    then show ?thesis by (simp add: get_bytes_from_base64_str_def demo_config_def)
  qed
  show ?thesis
    using new by (simp add: new_config_def io_bind_def io_lift_def dir read demo_paths id io_ok_def
        demo_cfg_def NONCE_INIT_def PBKDF2_ITERATIONS_def CONFIG_VERSION_def)
qed

theorem config_stays_valid_witness:
  "config_valid demo_host (c_config_file (fst (foldl (\<lambda>s e. snd (config_op demo_host e s))
     (demo_cfg\<lparr>c_first_start := True\<rparr>, demo_disk\<lparr>hs_keys := []\<rparr>) [SetPort ''1'', RemoveUserEvent ''x''])))"
  using config_stays_valid [OF demo_new, of "[SetPort ''1'', RemoveUserEvent ''x'']"]
  unfolding Let_def by blast

lemma demo_cfg_ok: "config_ok demo_host demo_cfg"
  using new_config_ok [OF demo_new] by (simp add: config_ok_def)

theorem config_edit_atomic_witness:
  "c_config_file (fst (snd (set_port demo_host ''x'' (demo_cfg, demo_disk)))) = demo_config"
proof -
  let ?f = "\<lambda>cf. Ok (Some (cf\<lparr>cf_sharing_port := ''x''\<rparr>)) :: (error, config_file option) outcome"
  obtain r c' h' where e: "edit_config demo_host ?f (demo_cfg, demo_disk) = (r, (c', h'))"
    by (metis prod.exhaust)
  have "trim ''x'' = ''x''" by (rule trim_printable) (simp add: printable_def)
  then have "\<not> config_valid demo_host (sanitize_config (demo_config\<lparr>cf_sharing_port := ''x''\<rparr>))"
    by (simp add: config_valid_def sanitize_config_def port_ok_def parse_i32_def parse_unsigned_def
        parse_nat_def digit_val_def)
  then show ?thesis
    using config_edit_atomic [OF e] e
    by (auto simp: set_port_def demo_cfg_def split: if_splits)
qed

definition bob_config :: config_file where
  "bob_config = demo_config\<lparr>cf_shared_users := [demo_user ''bob'' ''AAAA''],
     cf_shared_files := [\<lparr>csf_path = ''/a'', csf_shared_with = [''bob'']\<rparr>]\<rparr>"

lemma bob_ok: "config_ok demo_host (demo_cfg\<lparr>c_config_file := bob_config\<rparr>)"
proof -
  have u: "user_ok demo_host (demo_user ''bob'' ''AAAA'')"
    using demo_user_ok by (simp add: user_ok_def demo_host_def lower_def)
  have "file_contains_only_valid_chars ''/a''" by code_simp
  moreover have "trim ''bob'' = ''bob''" by (rule trim_printable) (simp add: printable_def)
  ultimately show ?thesis using demo_cfg_ok u
    by (auto simp: config_ok_def config_valid_def config_trimmed_def bob_config_def demo_cfg_def
        demo_paths file_ok_def demo_user_def starts_with_def)
qed

lemma demo_file_verified:
  "verify_config demo_host (demo_config\<lparr>cf_shared_files := [\<lparr>csf_path = ''/a'', csf_shared_with = []\<rparr>]\<rparr>)
     = Ok (demo_config\<lparr>cf_shared_files := [\<lparr>csf_path = ''/a'', csf_shared_with = []\<rparr>]\<rparr>)"
proof -
  have d: "sanitize_config demo_config = demo_config" "config_valid demo_host demo_config"
    using demo_verified by (simp_all add: verify_config_Ok)
  have "strip_file_url (trim ''/a'') = ''/a''" "file_contains_only_valid_chars ''/a''" by code_simp+
  then have "sanitize_file \<lparr>csf_path = ''/a'', csf_shared_with = []\<rparr> = \<lparr>csf_path = ''/a'', csf_shared_with = []\<rparr>"
    by (simp add: sanitize_file_def)
  with d \<open>file_contains_only_valid_chars ''/a''\<close> show ?thesis
    by (simp add: verify_config_Ok config_valid_def demo_paths file_ok_def starts_with_def)
      (simp add: sanitize_config_def demo_config_def)
qed

lemma demo_bob_removed:
  "remove_user demo_host ''bob'' (demo_cfg\<lparr>c_config_file := bob_config\<rparr>, demo_disk)
     = (Ok (), (next_nonce (demo_cfg\<lparr>c_config_file := bob_config\<rparr>))\<lparr>c_config_file :=
          demo_config\<lparr>cf_shared_files := [\<lparr>csf_path = ''/a'', csf_shared_with = []\<rparr>]\<rparr>\<rparr>, demo_disk)"
proof -
  let ?c = "demo_cfg\<lparr>c_config_file := bob_config\<rparr>"
  have edit: "bob_config\<lparr>cf_shared_files := map (unshare ''bob'') (cf_shared_files bob_config),
       cf_shared_users := filter (\<lambda>u. su_nickname u \<noteq> ''bob'') (cf_shared_users bob_config)\<rparr>
     = demo_config\<lparr>cf_shared_files := [\<lparr>csf_path = ''/a'', csf_shared_with = []\<rparr>]\<rparr>"
    by (simp add: bob_config_def unshare_def demo_user_def demo_config_def)
  have pw: "c_password ?c = None" by (simp add: demo_cfg_def)
  show ?thesis
    by (simp add: remove_user_def edit_config_run write_and_set_run edit pw demo_written [OF demo_file_verified])
qed

theorem remove_user_clean_witness:
  "\<exists>c' h'. remove_user demo_host ''bob'' (demo_cfg\<lparr>c_config_file := bob_config\<rparr>, demo_disk) = (Ok (), (c', h'))
     \<and> ''bob'' \<notin> set (map su_nickname (cf_shared_users (c_config_file c')))"
  using demo_bob_removed remove_user_clean [OF bob_ok demo_bob_removed] by blast

lemma demo_encrypted_write:
  "\<exists>h'. write_and_set_config demo_host demo_config (demo_cfg\<lparr>c_password := Some ''pw''\<rparr>, demo_disk)
     = (Ok (), demo_cfg\<lparr>c_password := Some ''pw'', c_nonce := 1\<rparr>, h')
     \<and> fs_denied (hs_fs h') = (\<lambda>_. False)"
proof -
  have str: "\<exists>s h1. get_encrypted_config_str demo_host t pw n 600000 v demo_disk = (Ok s, h1)
      \<and> hs_fs h1 = hs_fs demo_disk" for t pw n v
    by (simp add: get_encrypted_config_str_def io_bind_def fill_salt_def demo_disk_def demo_state_def
        demo_host_def null_host_def null_env_def io_ok_def)
  have w: "\<exists>fs'. fs_write ''/c/transmitic_config/transmitic_config.etrc'' bs (hs_fs demo_disk) = (Ok (), fs')
      \<and> fs_denied fs' = (\<lambda>_. False)" for bs
    by (simp add: fs_write_def demo_iters fs_may_write_def demo_disk_def demo_state_def demo_fs_def fs_put_def)
  have "\<exists>h'. write_config demo_host demo_config (Some ''pw'') 1 600000 0 demo_disk = (Ok demo_config, h')
      \<and> fs_denied (hs_fs h') = (\<lambda>_. False)"
  proof -
    obtain s h1 where s: "get_encrypted_config_str demo_host (he_config_to_json demo_host demo_config) ''pw'' 1 600000 0 demo_disk = (Ok s, h1)"
      "hs_fs h1 = hs_fs demo_disk" using str by blast
    obtain fs' where "fs_write ''/c/transmitic_config/transmitic_config.etrc'' (as_bytes s) (hs_fs h1) = (Ok (), fs')"
      "fs_denied fs' = (\<lambda>_. False)"
      using w s(2) by metis
    with s show ?thesis
      by (simp add: write_config_def io_bind_def io_lift_def io_ok_def demo_verified
          get_expected_config_path_def demo_paths on_fs_def)
  qed
  then show ?thesis
    by (auto simp: write_and_set_run next_nonce_def demo_cfg_def NONCE_MAX_def)
qed



end
