(* ===== verification/Sharing.thy ===== *)
theory Sharing
  imports Config
begin

text \<open>
  What a user is offered: \<open>get_everything_file\<close> and \<open>process_shared_file\<close> of \<open>config.rs\<close>. The disk
  is what \<open>metadata\<close> and \<open>read_dir\<close> return; the recursion into directories is given fuel, since
  a link to a directory above may make it endless.
\<close>

subsection \<open>The disk as it is listed\<close>

datatype dir_entry = EntryPath string | EntryFailed | EntryNotUtf8

record disk_env =
  de_meta :: "string \<Rightarrow> (bool \<times> u64) option"
  de_list :: "string \<Rightarrow> dir_entry list option"

definition metadata :: "disk_env \<Rightarrow> string \<Rightarrow> (error, bool \<times> u64) outcome" where
  "metadata disk path = ok_or (IoError NotFound) (de_meta disk path)"

definition path_is_dir :: "disk_env \<Rightarrow> string \<Rightarrow> bool" where
  "path_is_dir disk path \<longleftrightarrow> (case de_meta disk path of Some (d, _) \<Rightarrow> d | None \<Rightarrow> False)"

text \<open>\<open>u64 +=\<close>: a debug build panics when it overflows, a release build wraps.\<close>

definition add_u64 :: "bool \<Rightarrow> u64 \<Rightarrow> u64 \<Rightarrow> (error, u64) outcome" where
  "add_u64 dbg a b = (if dbg \<and> 2 ^ 64 \<le> unat a + unat b then Panic else Ok (a + b))"

text \<open>A computation with fuel: \<open>None\<close> when the fuel has run out.\<close>

definition fuel_bind ::
  "('e, 'a) outcome option \<Rightarrow> ('a \<Rightarrow> ('e, 'b) outcome option) \<Rightarrow> ('e, 'b) outcome option" where
  "fuel_bind m f =
     (case m of
        None \<Rightarrow> None
      | Some (Ok x) \<Rightarrow> f x
      | Some (Err e) \<Rightarrow> Some (Err e)
      | Some Panic \<Rightarrow> Some Panic
      | Some (Exit c) \<Rightarrow> Some (Exit c))"

lemma fuel_bind_Ok_iff [simp]:
  "fuel_bind m f = Some (Ok y) \<longleftrightarrow> (\<exists>x. m = Some (Ok x) \<and> f x = Some (Ok y))"
  by (auto simp: fuel_bind_def split: option.split outcome.split)

lemma fuel_bind_cong [fundef_cong]:
  "m = m' \<Longrightarrow> (\<And>x. m' = Some (Ok x) \<Longrightarrow> f x = f' x) \<Longrightarrow> fuel_bind m f = fuel_bind m' f'"
  by (auto simp: fuel_bind_def split: option.split outcome.split)

subsection \<open>Building the tree\<close>

text \<open>What the loop does with a new node: add its size, set the text of the size, push it.\<close>

definition push_node :: "bool \<Rightarrow> shared_file \<Rightarrow> shared_file \<Rightarrow> (error, shared_file) outcome" where
  "push_node dbg new f =
     and_then (add_u64 dbg (sf_file_size f) (sf_file_size new)) (\<lambda>total.
       Ok (SharedFile (sf_path f) (sf_is_directory f) (sf_files f @ [new]) total (get_file_size_string total)))"

text \<open>The new node of an entry, before a directory is processed.\<close>

definition entry_node :: "disk_env \<Rightarrow> string \<Rightarrow> (error, shared_file) outcome" where
  "entry_node disk path_string =
     (if path_is_dir disk path_string then Ok (new_shared_file path_string True [] 0)
      else and_then (metadata disk path_string) (\<lambda>(_, len). Ok (new_shared_file path_string False [] len)))"

fun process_shared_file :: "bool \<Rightarrow> disk_env \<Rightarrow> string \<Rightarrow> nat \<Rightarrow> shared_file \<Rightarrow> (error, shared_file) outcome option"
  and process_entries :: "bool \<Rightarrow> disk_env \<Rightarrow> string \<Rightarrow> nat \<Rightarrow> dir_entry list \<Rightarrow> shared_file \<Rightarrow> (error, shared_file) outcome option"
where
  "process_shared_file dbg disk config_dir 0 f = None"
| "process_shared_file dbg disk config_dir (Suc fuel) f =
     (if \<not> sf_is_directory f then Some (Ok f)
      else (case de_list disk (sf_path f) of
         None \<Rightarrow> Some (Err (IoError NotFound))
       | Some entries \<Rightarrow> process_entries dbg disk config_dir fuel entries f))"
| "process_entries dbg disk config_dir fuel [] f = Some (Ok f)"
| "process_entries dbg disk config_dir fuel (e # es) f =
     (case e of
        EntryFailed \<Rightarrow> Some (Err (IoError OtherIo))
      | EntryNotUtf8 \<Rightarrow> Some (Err (ConfigError NotUtf8))
      | EntryPath path_string \<Rightarrow>
          if contains_str config_dir path_string then process_entries dbg disk config_dir fuel es f
          else
            fuel_bind (Some (entry_node disk path_string)) (\<lambda>node.
            fuel_bind
              (if sf_is_directory node then process_shared_file dbg disk config_dir fuel node
               else Some (Ok node)) (\<lambda>new.
            fuel_bind (Some (push_node dbg new f)) (\<lambda>f'.
              process_entries dbg disk config_dir fuel es f'))))"

text \<open>Sending a message to the app loop with \<open>?\<close>, and with \<open>.ok()\<close>.\<close>

type_synonym app_channel = "app_agg_message channel"

definition send_app :: "app_agg_message \<Rightarrow> app_channel \<Rightarrow> (error, unit) outcome \<times> app_channel" where
  "send_app m ch = (case ch_send m ch of Some ch' \<Rightarrow> (Ok (), ch') | None \<Rightarrow> (Err (TransferError SendFailed), ch))"

fun everything_loop ::
  "bool \<Rightarrow> disk_env \<Rightarrow> nat \<Rightarrow> string \<Rightarrow> string \<Rightarrow> config_shared_file list \<Rightarrow> shared_file \<Rightarrow> app_channel
     \<Rightarrow> (error, shared_file) outcome option \<times> app_channel" where
  "everything_loop dbg disk fuel config_dir nickname [] ev ch = (Some (Ok ev), ch)"
| "everything_loop dbg disk fuel config_dir nickname (file # rest) ev ch =
     (if nickname \<notin> set (csf_shared_with file)
      then everything_loop dbg disk fuel config_dir nickname rest ev ch
      else (case de_meta disk (csf_path file) of
         None \<Rightarrow>
           (case send_app (LogError (''Path unable to share. Fix issue or stop sharing file. '' @ csf_path file,
                              Some (IoError NotFound))) ch of
              (Ok _, ch') \<Rightarrow> everything_loop dbg disk fuel config_dir nickname rest ev ch'
            | (_, ch') \<Rightarrow> (Some (Err (TransferError SendFailed)), ch'))
       | Some (is_directory, len) \<Rightarrow>
           (case fuel_bind
                   (process_shared_file dbg disk config_dir fuel
                     (new_shared_file (csf_path file) is_directory [] (if is_directory then 0 else len)))
                   (\<lambda>new. Some (and_then (add_u64 dbg (sf_file_size ev) (sf_file_size new)) (\<lambda>total.
                      Ok (SharedFile (sf_path ev) (sf_is_directory ev) (sf_files ev @ [new]) total
                            (sf_size_string ev))))) of
              Some (Ok ev') \<Rightarrow> everything_loop dbg disk fuel config_dir nickname rest ev' ch
            | r \<Rightarrow> (r, ch))))"

definition get_everything_file ::
  "bool \<Rightarrow> disk_env \<Rightarrow> nat \<Rightarrow> config \<Rightarrow> string \<Rightarrow> app_channel \<Rightarrow> (error, shared_file) outcome option \<times> app_channel" where
  "get_everything_file dbg disk fuel config nickname ch =
     (case everything_loop dbg disk fuel (c_path_dir_config config) nickname
             (cf_shared_files (c_config_file config)) (new_shared_file ''everything/'' True [] 0) ch of
        (r, ch') \<Rightarrow> (fuel_bind r (\<lambda>ev. Some (Ok (set_file_size_string ev))), ch'))"

subsection \<open>What the tree is\<close>

text \<open>
  A built node: only directories have files, a directory's size is the sum of its files' sizes
  (in \<open>u64\<close>), every text shows its size, and no path below has the configuration directory in it.
\<close>

fun built :: "string \<Rightarrow> shared_file \<Rightarrow> bool" where
  "built config_dir (SharedFile p d fs n s) =
     ((if d then n = sum_list (map sf_file_size fs) else fs = [])
      \<and> s = get_file_size_string n
      \<and> list_all (\<lambda>f. \<not> contains_str config_dir (sf_path f)) fs
      \<and> list_all (built config_dir) fs)"

lemma built_new: "built dir (new_shared_file p d [] (if d then 0 else n))"
  by (simp add: new_shared_file_def)

lemma push_node_Ok:
  assumes "push_node dbg new f = Ok f'" and "built dir f" and "built dir new"
    and "sf_is_directory f" and "\<not> contains_str dir (sf_path new)"
  shows "built dir f' \<and> sf_is_directory f' \<and> sf_path f' = sf_path f \<and> sf_files f' = sf_files f @ [new]"
  using assms by (cases f) (auto simp: push_node_def add_u64_def split: if_splits)

lemma entry_node_Ok:
  "entry_node disk p = Ok node \<Longrightarrow> built dir node \<and> sf_path node = p"
  by (auto simp: entry_node_def new_shared_file_def split: if_splits)

lemma process_entries_Cons_Ok:
  "process_entries dbg disk dir fuel (e # es) f = Some (Ok f') \<longleftrightarrow>
     (\<exists>p. e = EntryPath p \<and>
        (if contains_str dir p then process_entries dbg disk dir fuel es f = Some (Ok f')
         else \<exists>node new f1. entry_node disk p = Ok node
           \<and> (if sf_is_directory node then process_shared_file dbg disk dir fuel node else Some (Ok node)) = Some (Ok new)
           \<and> push_node dbg new f = Ok f1 \<and> process_entries dbg disk dir fuel es f1 = Some (Ok f')))"
  by (cases e) auto

declare process_entries.simps(2) [simp del]

lemma entry_node_files: "entry_node disk p = Ok node \<Longrightarrow> sf_files node = []"
  by (auto simp: entry_node_def new_shared_file_def split: if_splits)

definition built_from :: "string \<Rightarrow> shared_file \<Rightarrow> shared_file \<Rightarrow> bool" where
  "built_from dir f f' \<longleftrightarrow> built dir f' \<and> sf_path f' = sf_path f \<and> sf_is_directory f' = sf_is_directory f"

lemma entries_built:
  assumes sub: "\<And>g g'. process_shared_file dbg disk dir fuel g = Some (Ok g') \<Longrightarrow> built dir g \<Longrightarrow>
      sf_files g = [] \<Longrightarrow> built_from dir g g'"
  shows "process_entries dbg disk dir fuel es f = Some (Ok f') \<Longrightarrow> built dir f \<Longrightarrow> sf_is_directory f \<Longrightarrow>
     built_from dir f f'"
proof (induction es arbitrary: f)
  case Nil
  then show ?case by (simp add: built_from_def)
next
  case (Cons e es)
  from Cons.prems(1) obtain p where step: "if contains_str dir p
      then process_entries dbg disk dir fuel es f = Some (Ok f')
      else \<exists>node new f1. entry_node disk p = Ok node
        \<and> (if sf_is_directory node then process_shared_file dbg disk dir fuel node else Some (Ok node)) = Some (Ok new)
        \<and> push_node dbg new f = Ok f1 \<and> process_entries dbg disk dir fuel es f1 = Some (Ok f')"
    unfolding process_entries_Cons_Ok by blast
  show ?case
  proof (cases "contains_str dir p")
    case True
    with step have "process_entries dbg disk dir fuel es f = Some (Ok f')" by simp
    from Cons.IH [OF this Cons.prems(2,3)] show ?thesis .
  next
    case False
    with step obtain node new f1 where n: "entry_node disk p = Ok node"
      and w: "(if sf_is_directory node then process_shared_file dbg disk dir fuel node else Some (Ok node)) = Some (Ok new)"
      and p: "push_node dbg new f = Ok f1" and r: "process_entries dbg disk dir fuel es f1 = Some (Ok f')"
      by auto
    note node = entry_node_Ok [OF n, of dir] entry_node_files [OF n]
    have new: "built dir new \<and> sf_path new = p"
      using w node sub [of node new] by (auto simp: built_from_def split: if_splits)
    from push_node_Ok [OF p Cons.prems(2) conjunct1 [OF new] Cons.prems(3)] new False
    have f1: "built dir f1" "sf_is_directory f1" "sf_path f1 = sf_path f" by auto
    from Cons.IH [OF r f1(1,2)] f1 Cons.prems(3) show ?thesis by (simp add: built_from_def)
  qed
qed

lemma process_built:
  "process_shared_file dbg disk dir fuel f = Some (Ok f') \<Longrightarrow> built dir f \<Longrightarrow> sf_files f = [] \<Longrightarrow>
     built_from dir f f'"
proof (induction fuel arbitrary: f f')
  case 0
  then show ?case by simp
next
  case (Suc fuel)
  show ?case
  proof (cases "sf_is_directory f")
    case True
    with Suc.prems(1) obtain es where "process_entries dbg disk dir fuel es f = Some (Ok f')"
      by (auto split: option.splits)
    from entries_built [OF Suc.IH this Suc.prems(2) True] show ?thesis .
  next
    case False
    with Suc.prems show ?thesis by (simp add: built_from_def)
  qed
qed

subsection \<open>The offer to one user\<close>

text \<open>The files of the configuration that are offered: shared with the user, and there.\<close>

definition offered :: "disk_env \<Rightarrow> string \<Rightarrow> config_shared_file \<Rightarrow> bool" where
  "offered disk nickname f \<longleftrightarrow> nickname \<in> set (csf_shared_with f) \<and> de_meta disk (csf_path f) \<noteq> None"

lemma add_u64_Ok: "add_u64 dbg a b = Ok t \<Longrightarrow> t = a + b"
  by (auto simp: add_u64_def split: if_splits)

lemma everything_loop_Ok:
  assumes "everything_loop dbg disk fuel dir nickname files ev ch = (Some (Ok ev'), ch')"
  shows "\<exists>new. sf_files ev' = sf_files ev @ new
     \<and> map sf_path new = map csf_path (filter (offered disk nickname) files)
     \<and> list_all (built dir) new
     \<and> sf_file_size ev' = sf_file_size ev + sum_list (map sf_file_size new)
     \<and> sf_path ev' = sf_path ev \<and> sf_is_directory ev' = sf_is_directory ev"
  using assms
proof (induction files arbitrary: ev ch)
  case Nil
  then show ?case by simp
next
  case (Cons sf rest)
  show ?case
  proof (cases "nickname \<in> set (csf_shared_with sf)")
    case False
    with Cons show ?thesis by (simp add: offered_def)
  next
    case shared: True
    show ?thesis
    proof (cases "de_meta disk (csf_path sf)")
      case None
      with Cons.prems shared obtain ch1 where
        "everything_loop dbg disk fuel dir nickname rest ev ch1 = (Some (Ok ev'), ch')"
        by (auto split: prod.splits outcome.splits)
      from Cons.IH [OF this] None show ?thesis by (simp add: offered_def)
    next
      case (Some dl)
      obtain d len where dl: "dl = (d, len)" by (cases dl)
      let ?new = "new_shared_file (csf_path sf) d [] (if d then 0 else len)"
      from Cons.prems shared Some dl obtain new total where
        p: "process_shared_file dbg disk dir fuel ?new = Some (Ok new)"
        and t: "add_u64 dbg (sf_file_size ev) (sf_file_size new) = Ok total"
        and r: "everything_loop dbg disk fuel dir nickname rest
           (SharedFile (sf_path ev) (sf_is_directory ev) (sf_files ev @ [new]) total (sf_size_string ev)) ch
             = (Some (Ok ev'), ch')"
        by (auto simp: fuel_bind_def split: option.splits outcome.splits)
      have "built_from dir ?new new"
        using process_built [OF p] built_new [of dir "csf_path sf" d len]
        by (simp add: new_shared_file_def)
      then have new: "built dir new" "sf_path new = csf_path sf"
        by (simp_all add: built_from_def new_shared_file_def)
      from Cons.IH [OF r] obtain more where more: "sf_files ev' = (sf_files ev @ [new]) @ more"
        "map sf_path more = map csf_path (filter (offered disk nickname) rest)"
        "list_all (built dir) more" "sf_file_size ev' = total + sum_list (map sf_file_size more)"
        "sf_path ev' = sf_path ev" "sf_is_directory ev' = sf_is_directory ev" by auto
      with new add_u64_Ok [OF t] shared Some show ?thesis
        by (intro exI [of _ "new # more"]) (simp add: offered_def [of _ _ sf] ac_simps)
    qed
  qed
qed


text \<open>
  Nobody is told of a file that is not shared with them: a user without a share is offered
  an empty directory.
\<close>

theorem no_share_no_offer:
  assumes "\<forall>f \<in> set (cf_shared_files (c_config_file c)). nickname \<notin> set (csf_shared_with f)"
  shows "get_everything_file dbg disk fuel c nickname ch
     = (Some (Ok (SharedFile ''everything/'' True [] 0 ''0 bytes'')), ch)"
proof -
  have loop: "everything_loop dbg disk fuel dir nickname files ev ch = (Some (Ok ev), ch)"
    if "\<forall>f \<in> set files. nickname \<notin> set (csf_shared_with f)" for dir files ev
    using that by (induction files) auto
  have "get_file_size_string 0 = ''0 bytes''"
  proof -
    have "u64_as_f64 0 = 0" by (rule u64_as_f64_exact) simp
    moreover have "show_nat 0 = ''0''" by code_simp
    ultimately show ?thesis by (simp add: get_file_size_string_def size_unit_def)
  qed
  then show ?thesis
    by (simp add: get_everything_file_def loop [OF assms] fuel_bind_def new_shared_file_def)
qed

subsection \<open>Termination\<close>

text \<open>
  A path whose directories, apart from those that are skipped, have finite depth: no link leads
  back to a directory above.
\<close>

inductive listable :: "disk_env \<Rightarrow> string \<Rightarrow> string \<Rightarrow> bool" for disk config_dir where
  "(\<And>es p. de_list disk path = Some es \<Longrightarrow> EntryPath p \<in> set es \<Longrightarrow> \<not> contains_str config_dir p \<Longrightarrow>
      path_is_dir disk p \<Longrightarrow> listable disk config_dir p) \<Longrightarrow> listable disk config_dir path"

text \<open>More fuel never hurts, once there is enough.\<close>

definition enough :: "bool \<Rightarrow> disk_env \<Rightarrow> string \<Rightarrow> nat \<Rightarrow> shared_file \<Rightarrow> bool" where
  "enough dbg disk dir n f \<longleftrightarrow> (\<forall>m \<ge> n. process_shared_file dbg disk dir m f \<noteq> None)"

lemma entries_enough:
  assumes "\<And>p. EntryPath p \<in> set es \<Longrightarrow> \<not> contains_str dir p \<Longrightarrow> path_is_dir disk p \<Longrightarrow>
      enough dbg disk dir n (new_shared_file p True [] 0)" and "n \<le> m"
  shows "process_entries dbg disk dir m es f \<noteq> None"
  using assms(1)
proof (induction es arbitrary: f)
  case Nil
  then show ?case by simp
next
  case (Cons e es)
  have rest: "process_entries dbg disk dir m es g \<noteq> None" for g
    by (rule Cons.IH) (use Cons.prems in auto)
  show ?case
  proof (cases e)
    case (EntryPath p)
    show ?thesis
    proof (cases "contains_str dir p")
      case True
      with EntryPath rest show ?thesis by (simp add: process_entries.simps(2))
    next
      case False
      have "(if sf_is_directory node then process_shared_file dbg disk dir m node else Some (Ok node)) \<noteq> None"
        if n: "entry_node disk p = Ok node" for node
      proof (cases "path_is_dir disk p")
        case True
        then have "node = new_shared_file p True [] 0" using n by (simp add: entry_node_def)
        with Cons.prems [of p] EntryPath False True assms(2) show ?thesis by (simp add: enough_def)
      next
        case False
        then have "\<not> sf_is_directory node"
          using n by (auto simp: entry_node_def new_shared_file_def split: if_splits)
        then show ?thesis by simp
      qed
      with rest False EntryPath show ?thesis
        by (auto simp: process_entries.simps(2) fuel_bind_def split: option.split outcome.split)
    qed
  qed (simp_all add: process_entries.simps(2))
qed

lemma listable_enough:
  "listable disk dir path \<Longrightarrow> \<exists>n. \<forall>f. sf_path f = path \<longrightarrow> enough dbg disk dir n f"
proof (induction rule: listable.induct)
  case (1 path)
  show ?case
  proof (cases "de_list disk path")
    case None
    have "enough dbg disk dir 1 f" if p: "sf_path f = path" for f
      unfolding enough_def
    proof (intro allI impI)
      fix m :: nat assume "1 \<le> m"
      then show "process_shared_file dbg disk dir m f \<noteq> None" using None p by (cases m) simp_all
    qed
    then show ?thesis by blast
  next
    case (Some es)
    define need where "need p = (SOME n. \<forall>f. sf_path f = p \<longrightarrow> enough dbg disk dir n f)" for p
    have need: "enough dbg disk dir (need p) (new_shared_file p True [] 0)"
      if "EntryPath p \<in> set es" "\<not> contains_str dir p" "path_is_dir disk p" for p
    proof -
      from "1.IH" [OF Some that] have "\<forall>f. sf_path f = p \<longrightarrow> enough dbg disk dir (need p) f"
        unfolding need_def by (rule someI_ex)
      then show ?thesis by (simp add: new_shared_file_def)
    qed
    define n where "n = Max (insert 0 (need ` {p. EntryPath p \<in> set es}))"
    have fin: "finite {p. EntryPath p \<in> set es}"
      by (rule finite_subset [of _ "(\<lambda>e. case e of EntryPath p \<Rightarrow> p | _ \<Rightarrow> []) ` set es"])
        (auto simp: image_iff split: dir_entry.split intro!: bexI)
    have "enough dbg disk dir n (new_shared_file p True [] 0)"
      if "EntryPath p \<in> set es" "\<not> contains_str dir p" "path_is_dir disk p" for p
    proof -
      have "need p \<le> n" unfolding n_def using fin that(1) by (intro Max_ge) auto
      with need [OF that] show ?thesis by (auto simp: enough_def)
    qed
    then have entries: "process_entries dbg disk dir m es f \<noteq> None" if "n \<le> m" for m f
      using entries_enough [of es dir disk dbg n m f] that by blast
    have "enough dbg disk dir (Suc n) f" if p: "sf_path f = path" for f
      unfolding enough_def
    proof (intro allI impI)
      fix m assume "Suc n \<le> m"
      then obtain k where m: "m = Suc k" "n \<le> k" by (cases m) auto
      then show "process_shared_file dbg disk dir m f \<noteq> None"
        using Some p entries [OF m(2)] by simp
    qed
    then show ?thesis by blast
  qed
qed

lemma everything_loop_enough:
  assumes "\<forall>f \<in> set files. \<forall>d len. nickname \<in> set (csf_shared_with f) \<longrightarrow> de_meta disk (csf_path f) = Some (d, len) \<longrightarrow>
      enough dbg disk dir n (new_shared_file (csf_path f) d [] (if d then 0 else len))" and "n \<le> m"
  shows "fst (everything_loop dbg disk m dir nickname files ev ch) \<noteq> None"
  using assms
proof (induction files arbitrary: ev ch)
  case Nil
  then show ?case by simp
next
  case (Cons sf rest)
  have rest: "fst (everything_loop dbg disk m dir nickname rest ev' ch') \<noteq> None" for ev' ch'
    by (rule Cons.IH) (use Cons.prems in auto)
  show ?case
  proof (cases "nickname \<in> set (csf_shared_with sf) \<and> de_meta disk (csf_path sf) \<noteq> None")
    case False
    then have "nickname \<notin> set (csf_shared_with sf) \<or> de_meta disk (csf_path sf) = None" by blast
    with rest show ?thesis by (elim disjE) (simp_all split: prod.split outcome.split)
  next
    case True
    then obtain d len where dl: "de_meta disk (csf_path sf) = Some (d, len)" by auto
    with True Cons.prems have "process_shared_file dbg disk dir m
        (new_shared_file (csf_path sf) d [] (if d then 0 else len)) \<noteq> None"
      by (simp add: enough_def)
    with True dl rest show ?thesis
      by (cases d) (auto simp: fuel_bind_def split: option.split outcome.split)
  qed
qed

text \<open>
  C31. Building the offer ends: if no shared directory leads back to a directory above it, then
  some amount of fuel is enough, and so is any larger amount.
\<close>

theorem everything_file_terminates:
  assumes "\<forall>f \<in> set (cf_shared_files (c_config_file c)). listable disk (c_path_dir_config c) (csf_path f)"
  shows "\<exists>n. \<forall>m \<ge> n. fst (get_everything_file dbg disk m c nickname ch) \<noteq> None"
proof -
  let ?dir = "c_path_dir_config c" and ?files = "cf_shared_files (c_config_file c)"
  define need where "need f = (SOME n. \<forall>g. sf_path g = csf_path f \<longrightarrow> enough dbg disk ?dir n g)" for f :: config_shared_file
  have need: "\<forall>g. sf_path g = csf_path f \<longrightarrow> enough dbg disk ?dir (need f) g" if "f \<in> set ?files" for f
    unfolding need_def by (rule someI_ex [OF listable_enough]) (use assms that in blast)
  define n where "n = Max (insert 0 (need ` set ?files))"
  have n: "enough dbg disk ?dir n (new_shared_file (csf_path f) d [] l)" if "f \<in> set ?files" for f d l
  proof -
    have "need f \<le> n" unfolding n_def using that by (intro Max_ge) auto
    with need [OF that] show ?thesis by (auto simp: enough_def new_shared_file_def)
  qed
  have "fst (get_everything_file dbg disk m c nickname ch) \<noteq> None" if "n \<le> m" for m
  proof -
    have "fst (everything_loop dbg disk m ?dir nickname ?files (new_shared_file ''everything/'' True [] 0) ch) \<noteq> None"
      by (rule everything_loop_enough [OF _ that]) (use n in blast)
    then show ?thesis
      by (auto simp: get_everything_file_def fuel_bind_def split: prod.split option.split outcome.split)
  qed
  then show ?thesis by blast
qed

subsection \<open>Errors and a hole\<close>

lemma process_entries_bad:
  assumes "EntryPath p \<in> set es" and "\<not> contains_str dir p" and "de_meta disk p = None"
  shows "process_entries dbg disk dir fuel es f \<noteq> Some (Ok f')"
  using assms(1)
proof (induction es arbitrary: f)
  case (Cons e es)
  have bad: "entry_node disk p \<noteq> Ok node" for node
    using assms(3) by (simp add: entry_node_def path_is_dir_def metadata_def)
  show ?case
  proof (cases "e = EntryPath p")
    case True
    with bad assms(2) show ?thesis by (simp add: process_entries_Cons_Ok)
  next
    case False
    with Cons have "process_entries dbg disk dir fuel es g \<noteq> Some (Ok f')" for g by auto
    then show ?thesis by (auto simp: process_entries_Cons_Ok)
  qed
qed simp

lemma everything_loop_bad:
  assumes "f \<in> set files" and "nickname \<in> set (csf_shared_with f)" and "de_meta disk (csf_path f) = Some (True, len)"
    and "\<And>g. process_shared_file dbg disk dir fuel (new_shared_file (csf_path f) True [] 0) \<noteq> Some (Ok g)"
  shows "fst (everything_loop dbg disk fuel dir nickname files ev ch) \<noteq> Some (Ok ev')"
  using assms(1)
proof (induction files arbitrary: ev ch)
  case (Cons sf rest)
  show ?case
  proof (cases "sf = f")
    case True
    with assms show ?thesis
      by (auto simp: fuel_bind_def split: option.split outcome.split)
  next
    case False
    with Cons have "fst (everything_loop dbg disk fuel dir nickname rest e c) \<noteq> Some (Ok ev')" for e c by auto
    then show ?thesis by (auto split: option.split outcome.split prod.split)
  qed
qed simp

text \<open>
  A missing shared path is skipped, but one entry without metadata inside a shared directory
  (a link to nowhere) makes the whole offer fail: no list at all is built for that user.
\<close>

theorem one_bad_entry_fails_all:
  assumes "f \<in> set (cf_shared_files (c_config_file c))" and "nickname \<in> set (csf_shared_with f)"
    and "de_meta disk (csf_path f) = Some (True, len)" and "de_list disk (csf_path f) = Some es"
    and "EntryPath p \<in> set es" and "\<not> contains_str (c_path_dir_config c) p" and "de_meta disk p = None"
  shows "fst (get_everything_file dbg disk fuel c nickname ch) \<noteq> Some (Ok ev)"
proof -
  have "process_shared_file dbg disk (c_path_dir_config c) fuel (new_shared_file (csf_path f) True [] 0) \<noteq> Some (Ok g)"
    for g
    using process_entries_bad [OF assms(5-7)] assms(4) by (cases fuel) (simp_all add: new_shared_file_def)
  from everything_loop_bad [OF assms(1-3) this]
  have "everything_loop dbg disk fuel (c_path_dir_config c) nickname (cf_shared_files (c_config_file c)) e ch
      \<noteq> (Some (Ok ev'), ch')" for e ev' ch'
    by (metis fst_conv)
  then show ?thesis
    by (auto simp: get_everything_file_def fuel_bind_def split: prod.split option.splits outcome.splits)
qed

definition demo_dirs :: disk_env where
  "demo_dirs =
     \<lparr>de_meta = (\<lambda>p. if p \<in> {''/a'', ''/c//transmitic_config''} then Some (True, 0)
        else if p \<in> {''/a/x'', ''/c//transmitic_config/transmitic_config.json''} then Some (False, 5) else None),
      de_list = (\<lambda>p. if p = ''/a'' then Some [EntryPath ''/a/x'', EntryPath ''/a/gone'']
        else if p = ''/c//transmitic_config''
        then Some [EntryPath ''/c//transmitic_config/transmitic_config.json'']
        else None)\<rparr>"

theorem one_bad_entry_fails_all_witness:
  "\<nexists>ev. fst (get_everything_file True demo_dirs 5 (demo_cfg\<lparr>c_config_file := bob_config\<rparr>) ''bob'' new_channel)
     = Some (Ok ev)"
proof -
  let ?c = "demo_cfg\<lparr>c_config_file := bob_config\<rparr>"
  have f: "\<lparr>csf_path = ''/a'', csf_shared_with = [''bob'']\<rparr> \<in> set (cf_shared_files (c_config_file ?c))"
    by (simp add: bob_config_def)
  have "\<not> contains_str ''/c/transmitic_config'' ''/a/gone''" by code_simp
  then have d: "\<not> contains_str (c_path_dir_config ?c) ''/a/gone''" by (simp add: demo_cfg_def)
  show ?thesis
    using one_bad_entry_fails_all [OF f, of "''bob''" demo_dirs 0 "[EntryPath ''/a/x'', EntryPath ''/a/gone'']"
        "''/a/gone''"] d
    by (simp add: demo_dirs_def)
qed

definition leak_config :: config_file where
  "leak_config = demo_config\<lparr>cf_shared_users := [demo_user ''bob'' ''AAAA''],
     cf_shared_files := [\<lparr>csf_path = ''/c//transmitic_config'', csf_shared_with = [''bob'']\<rparr>]\<rparr>"

lemma leak_strings:
  "\<not> starts_with ''/c/transmitic_config'' ''/c//transmitic_config''"
  "file_contains_only_valid_chars ''/c//transmitic_config''"
  "\<not> contains_str ''/c/transmitic_config'' ''/c//transmitic_config/transmitic_config.json''"
  "path_iter ''/c//transmitic_config/transmitic_config.json'' = path_iter ''/c/transmitic_config/transmitic_config.json''"
  by code_simp+

text \<open>
  The rule that the configuration directory cannot be shared is a comparison of texts: a path
  with a doubled slash names that directory, is accepted, and the file with the private key
  is offered.
\<close>

theorem config_dir_can_be_offered:
  "config_valid demo_host leak_config
   \<and> get_path_config_json demo_host = Ok ''/c/transmitic_config/transmitic_config.json''
   \<and> (\<exists>ev key. fst (get_everything_file False demo_dirs (Suc (Suc 0)) (demo_cfg\<lparr>c_config_file := leak_config\<rparr>) ''bob'' new_channel)
          = Some (Ok ev) \<and> key \<in> set (all_nodes ev)
        \<and> path_iter (sf_path key) = path_iter ''/c/transmitic_config/transmitic_config.json'')"
proof (intro conjI)
  have u: "user_ok demo_host (demo_user ''bob'' ''AAAA'')"
    using demo_user_ok by (simp add: user_ok_def demo_host_def lower_def)
  have d: "config_valid demo_host demo_config" using demo_verified by (simp add: verify_config_Ok)
  show "config_valid demo_host leak_config"
    using u d leak_strings by (auto simp: config_valid_def leak_config_def demo_paths file_ok_def demo_user_def)
  show "get_path_config_json demo_host = Ok ''/c/transmitic_config/transmitic_config.json''"
    by (rule demo_paths)
  let ?key = "new_shared_file ''/c//transmitic_config/transmitic_config.json'' False [] 5"
  have n: "entry_node demo_dirs ''/c//transmitic_config/transmitic_config.json'' = Ok ?key"
    by (simp add: entry_node_def path_is_dir_def metadata_def demo_dirs_def)
  let ?dir = "new_shared_file ''/c//transmitic_config'' True [] 0"
  obtain f1 where f1: "push_node False ?key ?dir = Ok f1" "?key \<in> set (all_nodes f1)"
    by (simp add: push_node_def add_u64_def new_shared_file_def)
  have list: "de_list demo_dirs ''/c//transmitic_config''
      = Some [EntryPath ''/c//transmitic_config/transmitic_config.json'']"
    by (simp add: demo_dirs_def)
  have p: "process_shared_file False demo_dirs ''/c/transmitic_config'' (Suc (Suc 0)) ?dir = Some (Ok f1)"
    using leak_strings(3) n f1 list
    by (simp add: process_entries.simps(2) new_shared_file_def fuel_bind_def)
  have "de_meta demo_dirs ''/c//transmitic_config'' = Some (True, 0)" by (simp add: demo_dirs_def)
  with p have "\<exists>ev. fst (get_everything_file False demo_dirs (Suc (Suc 0)) (demo_cfg\<lparr>c_config_file := leak_config\<rparr>) ''bob'' new_channel)
      = Some (Ok ev) \<and> ?key \<in> set (all_nodes ev)"
    using f1(2) by (simp add: get_everything_file_def leak_config_def demo_cfg_def fuel_bind_def add_u64_def
        new_shared_file_def)
  then show "\<exists>ev key. fst (get_everything_file False demo_dirs (Suc (Suc 0)) (demo_cfg\<lparr>c_config_file := leak_config\<rparr>) ''bob'' new_channel)
          = Some (Ok ev) \<and> key \<in> set (all_nodes ev)
        \<and> path_iter (sf_path key) = path_iter ''/c/transmitic_config/transmitic_config.json''"
    using leak_strings(4) by (metis new_shared_file_def shared_file.sel(1))
qed

definition plain_dirs :: disk_env where
  "plain_dirs = \<lparr>de_meta = (\<lambda>p. if p = ''/a'' then Some (False, 7) else None), de_list = (\<lambda>_. None)\<rparr>"

theorem everything_file_terminates_witness:
  "\<exists>n. \<forall>m \<ge> n. fst (get_everything_file True plain_dirs m (demo_cfg\<lparr>c_config_file := bob_config\<rparr>) ''bob'' new_channel) \<noteq> None"
proof (rule everything_file_terminates)
  have "listable plain_dirs dir p" for dir p
    by (rule listable.intros) (simp add: plain_dirs_def)
  then show "\<forall>f \<in> set (cf_shared_files (c_config_file (demo_cfg\<lparr>c_config_file := bob_config\<rparr>))).
      listable plain_dirs (c_path_dir_config (demo_cfg\<lparr>c_config_file := bob_config\<rparr>)) (csf_path f)"
    by blast
qed


theorem no_share_no_offer_witness:
  "fst (get_everything_file True plain_dirs 0 (demo_cfg\<lparr>c_config_file := bob_config\<rparr>) ''eve'' new_channel)
     = Some (Ok (SharedFile ''everything/'' True [] 0 ''0 bytes''))"
  using no_share_no_offer [of "demo_cfg\<lparr>c_config_file := bob_config\<rparr>" "''eve''" True plain_dirs 0 new_channel]
  by (simp add: bob_config_def)

end
