(* ===== verification/Handshake.thy ===== *)
theory Handshake
  imports Encrypted_Stream Config_Check
begin

text \<open>
  \<open>transmitic_stream.rs\<close>: the handshake of a connection. Each end sends a header and a fresh
  Diffie-Hellman key signed with its private id, and looks for the user whose public id verifies
  the other's signature. Ed25519 and X25519 are the record \<open>id_env\<close>; the fresh secret is an
  argument.
\<close>

subsection \<open>State\<close>

record id_env =
  id_key_ok :: "bytes \<Rightarrow> bool"
  id_sign :: "bytes \<Rightarrow> bytes \<Rightarrow> bytes"
  id_verify :: "bytes \<Rightarrow> bytes \<Rightarrow> bytes \<Rightarrow> bool"
  dh_public :: "bytes \<Rightarrow> bytes"
  dh_shared :: "bytes \<Rightarrow> bytes \<Rightarrow> bytes"

record transmitic_stream =
  ts_stream :: tcp_stream
  ts_connecting_ip :: string
  ts_shared_users :: "shared_user list"
  ts_private_key_pair :: bytes
  ts_private_id_bytes :: bytes
  ts_matched_shared_user :: "shared_user option"

type_synonym 'a ts_op = "(transmitic_stream, error, 'a) io"

definition BUFFER_SIZE :: nat where "BUFFER_SIZE = 32 + 64"

definition new_transmitic_stream ::
  "id_env \<Rightarrow> tcp_stream \<Rightarrow> string \<Rightarrow> shared_user list \<Rightarrow> bytes \<Rightarrow> (error, transmitic_stream) outcome" where
  "new_transmitic_stream env stream connecting_ip shared_users private_id_bytes =
     (if id_key_ok env private_id_bytes
      then Ok \<lparr>ts_stream = stream, ts_connecting_ip = connecting_ip, ts_shared_users = shared_users,
        ts_private_key_pair = private_id_bytes, ts_private_id_bytes = private_id_bytes,
        ts_matched_shared_user = None\<rparr>
      else Panic)"

definition on_tcp :: "(tcp_stream, error, 'a) io \<Rightarrow> 'a ts_op" where
  "on_tcp m ts = (case m (ts_stream ts) of (r, t) \<Rightarrow> (r, ts\<lparr>ts_stream := t\<rparr>))"

subsection \<open>Headers\<close>

definition header_bytes :: bytes where
  "header_bytes = TRAN_MAGIC_NUMBER @ be_enc 2 TRAN_API_MAJOR @ be_enc 2 TRAN_API_MINOR"

definition send_transmitic_header :: "unit ts_op" where
  "send_transmitic_header = on_tcp (write_all header_bytes)"

definition check_header :: "bytes \<Rightarrow> (error, unit) outcome" where
  "check_header buffer =
     (if take 4 buffer \<noteq> TRAN_MAGIC_NUMBER then Err (StreamError (MagicMismatch (take 4 buffer)))
      else
        (let api_major = be_dec (take 2 (drop 4 buffer)) in
         if api_major \<noteq> TRAN_API_MAJOR then Err (StreamError (ApiMajorMismatch api_major)) else Ok ()))"

definition receive_transmitic_header :: "unit ts_op" where
  "receive_transmitic_header = io_bind (on_tcp (read_exact 8)) (\<lambda>buffer. io_lift (check_header buffer))"

subsection \<open>Keys\<close>

definition send_diffie_helman_key :: "id_env \<Rightarrow> bytes \<Rightarrow> bytes ts_op" where
  "send_diffie_helman_key env secret =
     io_self (\<lambda>ts.
       (let public = dh_public env secret; signed = id_sign env (ts_private_key_pair ts) public in
        io_bind (io_lift (slice 0 32 public)) (\<lambda>a.
        io_bind (io_lift (slice 0 64 signed)) (\<lambda>b.
        io_then (on_tcp (write_all (a @ b))) (io_ok secret)))))"

text \<open>The loop over the users: an id that is not base64 ends it with an error.\<close>

fun match_user :: "id_env \<Rightarrow> bytes \<Rightarrow> bytes \<Rightarrow> shared_user list \<Rightarrow> (error, shared_user option) outcome" where
  "match_user env msg sig [] = Ok None"
| "match_user env msg sig (u # us) =
     and_then (get_bytes_from_base64_str (su_public_id u)) (\<lambda>public_id.
       if id_verify env public_id msg sig then Ok (Some u) else match_user env msg sig us)"

text \<open>A user matched before stays matched when the loop finds none: the field is only ever set.\<close>

definition receive_diffie_helman_key :: "id_env \<Rightarrow> bytes ts_op" where
  "receive_diffie_helman_key env =
     io_bind (on_tcp (read_exact BUFFER_SIZE)) (\<lambda>buffer.
     (let remote_public = take 32 buffer; remote_signed = drop 32 buffer in
      io_bind (io_query (\<lambda>ts. match_user env remote_public remote_signed (ts_shared_users ts))) (\<lambda>found.
      io_then (io_mod (\<lambda>ts. if found = None then ts else ts\<lparr>ts_matched_shared_user := found\<rparr>))
      (io_then (io_query (\<lambda>ts. ensure (ts_matched_shared_user ts \<noteq> None) (StreamError RemoteIdNotFound)))
        (io_ok remote_public)))))"

definition get_encryption_key :: "id_env \<Rightarrow> bytes \<Rightarrow> bytes \<Rightarrow> bytes" where
  "get_encryption_key env secret remote = dh_shared env secret remote"

definition get_encrypted_stream :: "bytes \<Rightarrow> encrypted_stream ts_op" where
  "get_encrypted_stream encryption_key =
     io_query (\<lambda>ts.
       case ts_matched_shared_user ts of
         None \<Rightarrow> Exit (exit_value ExitEncStreamNoUser)
       | Some user \<Rightarrow> Ok (new_encrypted_stream (ts_stream ts) encryption_key user (ts_private_id_bytes ts)))"

definition ts_connect :: "id_env \<Rightarrow> bytes \<Rightarrow> encrypted_stream ts_op" where
  "ts_connect env secret =
     io_then send_transmitic_header
     (io_then receive_transmitic_header
     (io_bind (send_diffie_helman_key env secret) (\<lambda>local_secret.
      io_bind (receive_diffie_helman_key env) (\<lambda>remote.
        get_encrypted_stream (get_encryption_key env local_secret remote)))))"

definition ts_wait_for_incoming :: "id_env \<Rightarrow> bytes \<Rightarrow> encrypted_stream ts_op" where
  "ts_wait_for_incoming env secret =
     io_then receive_transmitic_header
     (io_then send_transmitic_header
     (io_bind (receive_diffie_helman_key env) (\<lambda>remote.
      io_bind (send_diffie_helman_key env secret) (\<lambda>local_secret.
        get_encrypted_stream (get_encryption_key env local_secret remote)))))"

subsection \<open>The steps\<close>

lemma length_header [simp]: "length header_bytes = 8"
  by (simp add: header_bytes_def TRAN_MAGIC_NUMBER_def)

lemma check_own_header: "check_header header_bytes = Ok ()"
  by (simp add: check_header_def header_bytes_def TRAN_MAGIC_NUMBER_def TRAN_API_MAJOR_def Let_def be_dec_enc_mod)

lemma send_header_run:
  "send_transmitic_header ts = (case write_all header_bytes (ts_stream ts) of (r, t) \<Rightarrow> (r, ts\<lparr>ts_stream := t\<rparr>))"
  by (simp add: send_transmitic_header_def on_tcp_def)

lemma match_user_Some:
  "match_user env msg sig us = Ok (Some u) \<Longrightarrow>
     \<exists>before after k. us = before @ u # after \<and> decode (su_public_id u) = Ok k \<and> id_verify env k msg sig
       \<and> (\<forall>v \<in> set before. \<exists>k'. decode (su_public_id v) = Ok k' \<and> \<not> id_verify env k' msg sig)"
proof (induction us)
  case (Cons v us)
  from Cons.prems obtain k where k: "decode (su_public_id v) = Ok k"
    by (auto simp: get_bytes_from_base64_str_def)
  show ?case
  proof (cases "id_verify env k msg sig")
    case True
    with Cons.prems k have "v = u" by (simp add: get_bytes_from_base64_str_def)
    with True k show ?thesis by (intro exI [of _ "[]"] exI [of _ us] exI [of _ k]) simp
  next
    case False
    with Cons k obtain before after k' where "us = before @ u # after" "decode (su_public_id u) = Ok k'"
      "id_verify env k' msg sig"
      "\<forall>v \<in> set before. \<exists>k'. decode (su_public_id v) = Ok k' \<and> \<not> id_verify env k' msg sig"
      by (auto simp: get_bytes_from_base64_str_def)
    with False k show ?thesis
      by (intro exI [of _ "v # before"] exI [of _ after] exI [of _ k']) auto
  qed
qed simp

lemma match_user_honest:
  assumes "us = before @ u # after" and "decode (su_public_id u) = Ok k" and "id_verify env k msg sig"
    and "\<forall>v \<in> set before. \<exists>k'. decode (su_public_id v) = Ok k' \<and> \<not> id_verify env k' msg sig"
  shows "match_user env msg sig us = Ok (Some u)"
  using assms(4) unfolding assms(1)
  by (induction before) (auto simp: get_bytes_from_base64_str_def assms(2,3))

lemma receive_key_Ok:
  assumes "receive_diffie_helman_key env ts = (Ok remote, ts')" and "ts_matched_shared_user ts = None"
  shows "\<exists>u sig. match_user env remote sig (ts_shared_users ts) = Ok (Some u) \<and> length remote = 32 \<and> length sig = 64
     \<and> t_in (ts_stream ts) = remote @ sig @ t_in (ts_stream ts')
     \<and> ts_matched_shared_user ts' = Some u \<and> ts_shared_users ts' = ts_shared_users ts
     \<and> ts_private_id_bytes ts' = ts_private_id_bytes ts \<and> t_out (ts_stream ts') = t_out (ts_stream ts)"
proof -
  from assms(1) [unfolded receive_diffie_helman_key_def Let_def] obtain buffer ts1 where r: "on_tcp (read_exact BUFFER_SIZE) ts = (Ok buffer, ts1)"
    and rest: "io_bind (io_query (\<lambda>ts. match_user env (take 32 buffer) (drop 32 buffer) (ts_shared_users ts))) (\<lambda>found.
      io_then (io_mod (\<lambda>ts. if found = None then ts else ts\<lparr>ts_matched_shared_user := found\<rparr>))
      (io_then (io_query (\<lambda>ts. ensure (ts_matched_shared_user ts \<noteq> None) (StreamError RemoteIdNotFound)))
        (io_ok (take 32 buffer)))) ts1 = (Ok remote, ts')"
    by (rule io_bind_OkE)
  from r have ts1: "ts1 = ts\<lparr>ts_stream := ts_stream ts1\<rparr>"
    and b: "length buffer = 96" "t_in (ts_stream ts) = buffer @ t_in (ts_stream ts1)"
      "t_out (ts_stream ts1) = t_out (ts_stream ts)"
    by (auto simp: on_tcp_def BUFFER_SIZE_def dest!: read_exact_length split: prod.splits)
  have f: "ts_matched_shared_user ts1 = None" "ts_shared_users ts1 = ts_shared_users ts"
    "ts_private_id_bytes ts1 = ts_private_id_bytes ts"
    using assms(2) by (subst ts1, simp)+
  from rest f(1) obtain u where m: "match_user env (take 32 buffer) (drop 32 buffer) (ts_shared_users ts) = Ok (Some u)"
    and ts': "ts' = ts1\<lparr>ts_matched_shared_user := Some u\<rparr>" and remote: "remote = take 32 buffer"
    by (auto simp: io_bind_def io_query_def io_mod_def io_ok_def f(2) split: outcome.splits if_splits)
  have "t_in (ts_stream ts) = take 32 buffer @ drop 32 buffer @ t_in (ts_stream ts')"
    unfolding ts' using b(2) by simp
  with m b f show ?thesis
    unfolding remote by (intro exI [of _ u] exI [of _ "drop 32 buffer"]) (simp add: ts')
qed

definition frame_condition :: "transmitic_stream \<Rightarrow> transmitic_stream \<Rightarrow> bool" where
  "frame_condition ts ts' \<longleftrightarrow> ts_matched_shared_user ts' = ts_matched_shared_user ts
     \<and> ts_shared_users ts' = ts_shared_users ts \<and> ts_private_id_bytes ts' = ts_private_id_bytes ts"

lemma write_all_t_in: "write_all bs t = (r, t') \<Longrightarrow> t_in t' = t_in t"
  using write_all_in [of bs t] by simp

lemma send_header_frame:
  "send_transmitic_header ts = (r, ts') \<Longrightarrow> frame_condition ts ts' \<and> t_in (ts_stream ts') = t_in (ts_stream ts)"
  by (auto simp: send_transmitic_header_def on_tcp_def frame_condition_def split: prod.splits dest: write_all_t_in)

lemma send_key_frame:
  "send_diffie_helman_key env secret ts = (Ok s, ts') \<Longrightarrow>
     s = secret \<and> frame_condition ts ts' \<and> t_in (ts_stream ts') = t_in (ts_stream ts)"
  by (auto simp: send_diffie_helman_key_def io_self_def Let_def io_bind_def io_lift_def io_ok_def on_tcp_def
      frame_condition_def split: prod.splits outcome.splits dest: write_all_t_in)

lemma receive_header_Ok:
  "receive_transmitic_header ts = (Ok x, ts') \<Longrightarrow>
     \<exists>h. length h = 8 \<and> check_header h = Ok () \<and> frame_condition ts ts' \<and> t_in (ts_stream ts) = h @ t_in (ts_stream ts')"
  by (auto simp: receive_transmitic_header_def on_tcp_def io_bind_def io_lift_def frame_condition_def
      split: prod.splits outcome.splits dest!: read_exact_length)

text \<open>What a completed handshake says of the other end, in either role.\<close>

definition authenticated :: "id_env \<Rightarrow> bytes \<Rightarrow> transmitic_stream \<Rightarrow> encrypted_stream \<Rightarrow> bool" where
  "authenticated env secret ts es \<longleftrightarrow>
     (\<exists>h remote sig before u after k rest.
        t_in (ts_stream ts) = h @ remote @ sig @ rest \<and> length h = 8 \<and> length remote = 32 \<and> length sig = 64
        \<and> check_header h = Ok ()
        \<and> ts_shared_users ts = before @ u # after \<and> decode (su_public_id u) = Ok k \<and> id_verify env k remote sig
        \<and> (\<forall>v \<in> set before. \<exists>k'. decode (su_public_id v) = Ok k' \<and> \<not> id_verify env k' remote sig)
        \<and> es_shared_user es = u \<and> es_key es = dh_shared env secret remote \<and> es_nonce es = 0
        \<and> es_private_id_bytes es = ts_private_id_bytes ts \<and> t_in (es_stream es) = rest)"

lemma get_encrypted_stream_Ok:
  "ts_matched_shared_user ts = Some u \<Longrightarrow>
     get_encrypted_stream key ts = (Ok (new_encrypted_stream (ts_stream ts) key u (ts_private_id_bytes ts)), ts)"
  by (simp add: get_encrypted_stream_def io_query_def)

lemma connect_authenticated:
  assumes "ts_connect env secret ts = (Ok es, ts')" and "ts_matched_shared_user ts = None"
  shows "authenticated env secret ts es"
proof -
  from assms(1) obtain t1 t2 t3 t4 s remote x y where
    a: "send_transmitic_header ts = (Ok x, t1)" and b: "receive_transmitic_header t1 = (Ok y, t2)"
    and c: "send_diffie_helman_key env secret t2 = (Ok s, t3)"
    and d: "receive_diffie_helman_key env t3 = (Ok remote, t4)"
    and e: "get_encrypted_stream (get_encryption_key env s remote) t4 = (Ok es, ts')"
    unfolding ts_connect_def by (elim io_bind_OkE)
  note fa = send_header_frame [OF a]
  from receive_header_Ok [OF b] obtain h where h: "length h = 8" "check_header h = Ok ()"
    "frame_condition t1 t2" "t_in (ts_stream t1) = h @ t_in (ts_stream t2)" by blast
  note fc = send_key_frame [OF c]
  have "ts_matched_shared_user t3 = None" using assms(2) fa h(3) fc by (simp add: frame_condition_def)
  from receive_key_Ok [OF d this] obtain u sig where
    m: "match_user env remote sig (ts_shared_users t3) = Ok (Some u)" "length remote = 32" "length sig = 64"
      "t_in (ts_stream t3) = remote @ sig @ t_in (ts_stream t4)" "ts_matched_shared_user t4 = Some u"
      "ts_private_id_bytes t4 = ts_private_id_bytes t3" by blast
  from match_user_Some [OF m(1)] obtain before after k where
    k: "ts_shared_users t3 = before @ u # after" "decode (su_public_id u) = Ok k" "id_verify env k remote sig"
      "\<forall>v \<in> set before. \<exists>k'. decode (su_public_id v) = Ok k' \<and> \<not> id_verify env k' remote sig" by blast
  have es: "es = new_encrypted_stream (ts_stream t4) (dh_shared env secret remote) u (ts_private_id_bytes t4)"
    using e get_encrypted_stream_Ok [OF m(5)] fc by (auto simp: get_encryption_key_def)
  show ?thesis
    unfolding authenticated_def
    using fa h fc m k
    by (intro exI [of _ h] exI [of _ remote] exI [of _ sig] exI [of _ before] exI [of _ u] exI [of _ after]
        exI [of _ k] exI [of _ "t_in (ts_stream t4)"])
      (simp add: frame_condition_def es new_encrypted_stream_def NONCE_INIT_def)
qed

lemma wait_authenticated:
  assumes "ts_wait_for_incoming env secret ts = (Ok es, ts')" and "ts_matched_shared_user ts = None"
  shows "authenticated env secret ts es"
proof -
  from assms(1) obtain t1 t2 t3 t4 s remote x y where
    b: "receive_transmitic_header ts = (Ok y, t1)" and a: "send_transmitic_header t1 = (Ok x, t2)"
    and d: "receive_diffie_helman_key env t2 = (Ok remote, t3)"
    and c: "send_diffie_helman_key env secret t3 = (Ok s, t4)"
    and e: "get_encrypted_stream (get_encryption_key env s remote) t4 = (Ok es, ts')"
    unfolding ts_wait_for_incoming_def by (elim io_bind_OkE)
  note fa = send_header_frame [OF a]
  from receive_header_Ok [OF b] obtain h where h: "length h = 8" "check_header h = Ok ()"
    "frame_condition ts t1" "t_in (ts_stream ts) = h @ t_in (ts_stream t1)" by blast
  note fc = send_key_frame [OF c]
  have "ts_matched_shared_user t2 = None" using assms(2) fa h(3) by (simp add: frame_condition_def)
  from receive_key_Ok [OF d this] obtain u sig where
    m: "match_user env remote sig (ts_shared_users t2) = Ok (Some u)" "length remote = 32" "length sig = 64"
      "t_in (ts_stream t2) = remote @ sig @ t_in (ts_stream t3)" "ts_matched_shared_user t3 = Some u"
      "ts_private_id_bytes t3 = ts_private_id_bytes t2" by blast
  from match_user_Some [OF m(1)] obtain before after k where
    k: "ts_shared_users t2 = before @ u # after" "decode (su_public_id u) = Ok k" "id_verify env k remote sig"
      "\<forall>v \<in> set before. \<exists>k'. decode (su_public_id v) = Ok k' \<and> \<not> id_verify env k' remote sig" by blast
  have m4: "ts_matched_shared_user t4 = Some u" using fc m(5) by (simp add: frame_condition_def)
  have es: "es = new_encrypted_stream (ts_stream t4) (dh_shared env secret remote) u (ts_private_id_bytes t4)"
    using e get_encrypted_stream_Ok [OF m4] fc by (auto simp: get_encryption_key_def)
  show ?thesis
    unfolding authenticated_def
    using fa h fc m k
    by (intro exI [of _ h] exI [of _ remote] exI [of _ sig] exI [of _ before] exI [of _ u] exI [of _ after]
        exI [of _ k] exI [of _ "t_in (ts_stream t3)"])
      (simp add: frame_condition_def es new_encrypted_stream_def NONCE_INIT_def)
qed

text \<open>
  C5. Authentication: an encrypted stream exists only if the other end sent the right header and a
  Diffie-Hellman key with a signature that the public id of some allowed user verifies; the
  stream belongs to the first such user, its key comes from exactly that Diffie-Hellman key and
  its nonce starts at 0.
\<close>

theorem handshake_authenticates:
  assumes "new_transmitic_stream env tcp ip users key = Ok ts"
    and "ts_connect env secret ts = (Ok es, ts') \<or> ts_wait_for_incoming env secret ts = (Ok es, ts')"
  shows "authenticated env secret ts es \<and> es_shared_user es \<in> set users"
proof -
  have new: "ts_matched_shared_user ts = None" "ts_shared_users ts = users"
    using assms(1) by (auto simp: new_transmitic_stream_def split: if_splits)
  have "authenticated env secret ts es"
    using assms(2) connect_authenticated [OF _ new(1)] wait_authenticated [OF _ new(1)] by blast
  then show ?thesis using new(2) by (auto simp: authenticated_def)
qed

subsection \<open>Both ends\<close>

text \<open>The second message of an end: its Diffie-Hellman key and the signature.\<close>

definition hello :: "id_env \<Rightarrow> bytes \<Rightarrow> bytes \<Rightarrow> bytes" where
  "hello env key secret = dh_public env secret @ id_sign env key (dh_public env secret)"

text \<open>
  What the handshake relies on, of X25519 and Ed25519: lengths, a common secret, and a signature
  that the signer's public id verifies.
\<close>

definition keys_ok :: "id_env \<Rightarrow> bool" where
  "keys_ok env \<longleftrightarrow>
     (\<forall>s. length (dh_public env s) = 32) \<and> (\<forall>k m. length (id_sign env k m) = 64)
     \<and> (\<forall>a b. dh_shared env a (dh_public env b) = dh_shared env b (dh_public env a))"

text \<open>The first user in the list whose public id verifies what the holder of \<open>key\<close> signs.\<close>

definition knows :: "id_env \<Rightarrow> shared_user list \<Rightarrow> shared_user \<Rightarrow> bytes \<Rightarrow> bool" where
  "knows env users u key \<longleftrightarrow>
     (\<exists>before after k. users = before @ u # after \<and> decode (su_public_id u) = Ok k
        \<and> (\<forall>m. id_verify env k m (id_sign env key m))
        \<and> (\<forall>v \<in> set before. \<exists>k'. decode (su_public_id v) = Ok k' \<and> (\<forall>m. \<not> id_verify env k' m (id_sign env key m))))"

lemma knows_match:
  "knows env users u key \<Longrightarrow> match_user env m (id_sign env key m) users = Ok (Some u)"
  unfolding knows_def by (metis match_user_honest)

lemma send_key_ok:
  assumes "keys_ok env" and "t_room (ts_stream ts) = None"
  shows "send_diffie_helman_key env secret ts
     = (Ok secret, ts\<lparr>ts_stream := (ts_stream ts)\<lparr>t_out := t_out (ts_stream ts) @ hello env (ts_private_key_pair ts) secret\<rparr>\<rparr>)"
  using assms by (simp add: send_diffie_helman_key_def io_self_def Let_def io_bind_def io_lift_def
      slice_front keys_ok_def on_tcp_def write_all_Ok io_ok_def hello_def)

lemma receive_key_ok:
  assumes "keys_ok env" and "knows env (ts_shared_users ts) u key"
    and "t_in (ts_stream ts) = hello env key secret @ rest"
  shows "receive_diffie_helman_key env ts
     = (Ok (dh_public env secret), ts\<lparr>ts_stream := (ts_stream ts)\<lparr>t_in := rest\<rparr>, ts_matched_shared_user := Some u\<rparr>)"
proof -
  have l: "length (dh_public env secret) = 32" "length (id_sign env key (dh_public env secret)) = 64"
    using assms(1) by (simp_all add: keys_ok_def)
  have "read_exact BUFFER_SIZE (ts_stream ts) = (Ok (hello env key secret), (ts_stream ts)\<lparr>t_in := rest\<rparr>)"
    by (rule read_exact_Ok [OF assms(3)]) (simp add: hello_def l BUFFER_SIZE_def)
  then show ?thesis
    using knows_match [OF assms(2), of "dh_public env secret"]
    by (simp add: receive_diffie_helman_key_def on_tcp_def io_bind_def io_query_def io_mod_def io_ok_def
        hello_def l Let_def)
qed

lemma send_header_ok:
  "t_room (ts_stream ts) = None \<Longrightarrow> send_transmitic_header ts
     = (Ok (), ts\<lparr>ts_stream := (ts_stream ts)\<lparr>t_out := t_out (ts_stream ts) @ header_bytes\<rparr>\<rparr>)"
  by (simp add: send_transmitic_header_def on_tcp_def write_all_Ok)

lemma receive_header_ok:
  "t_in (ts_stream ts) = header_bytes @ rest \<Longrightarrow>
     receive_transmitic_header ts = (Ok (), ts\<lparr>ts_stream := (ts_stream ts)\<lparr>t_in := rest\<rparr>\<rparr>)"
  by (simp add: receive_transmitic_header_def on_tcp_def read_exact_Ok [of _ header_bytes rest]
      io_bind_def io_lift_def check_own_header)

lemma both_ends:
  assumes "keys_ok env"
    and c: "new_transmitic_stream env \<lparr>t_in = header_bytes @ hello env skey b @ crest, t_out = [], t_room = None\<rparr> cip cusers ckey = Ok cts"
    and s: "new_transmitic_stream env \<lparr>t_in = header_bytes @ hello env ckey a @ srest, t_out = [], t_room = None\<rparr> sip susers skey = Ok sts"
    and "knows env cusers server skey" and "knows env susers client ckey"
  shows "\<exists>ces cts' ses sts'. ts_connect env a cts = (Ok ces, cts') \<and> ts_wait_for_incoming env b sts = (Ok ses, sts')
     \<and> t_out (es_stream ces) = header_bytes @ hello env ckey a \<and> t_in (es_stream ces) = crest
     \<and> t_out (es_stream ses) = header_bytes @ hello env skey b \<and> t_in (es_stream ses) = srest
     \<and> es_key ces = es_key ses \<and> es_nonce ces = es_nonce ses
     \<and> es_shared_user ces = server \<and> es_shared_user ses = client"
proof -
  have ct: "cts = \<lparr>ts_stream = \<lparr>t_in = header_bytes @ hello env skey b @ crest, t_out = [], t_room = None\<rparr>,
      ts_connecting_ip = cip, ts_shared_users = cusers, ts_private_key_pair = ckey, ts_private_id_bytes = ckey,
      ts_matched_shared_user = None\<rparr>"
    using c by (simp add: new_transmitic_stream_def split: if_splits)
  have st: "sts = \<lparr>ts_stream = \<lparr>t_in = header_bytes @ hello env ckey a @ srest, t_out = [], t_room = None\<rparr>,
      ts_connecting_ip = sip, ts_shared_users = susers, ts_private_key_pair = skey, ts_private_id_bytes = skey,
      ts_matched_shared_user = None\<rparr>"
    using s by (simp add: new_transmitic_stream_def split: if_splits)
  have "ts_connect env a cts = (Ok (new_encrypted_stream \<lparr>t_in = crest, t_out = header_bytes @ hello env ckey a, t_room = None\<rparr>
        (dh_shared env a (dh_public env b)) server ckey), 
      cts\<lparr>ts_stream := \<lparr>t_in = crest, t_out = header_bytes @ hello env ckey a, t_room = None\<rparr>,
        ts_matched_shared_user := Some server\<rparr>)"
    unfolding ts_connect_def ct
    by (simp add: io_bind_def send_header_ok receive_header_ok send_key_ok [OF assms(1)]
        receive_key_ok [OF assms(1), of _ server skey b crest] assms(4) get_encrypted_stream_Ok get_encryption_key_def)
  moreover have "ts_wait_for_incoming env b sts = (Ok (new_encrypted_stream \<lparr>t_in = srest, t_out = header_bytes @ hello env skey b, t_room = None\<rparr>
        (dh_shared env b (dh_public env a)) client skey),
      sts\<lparr>ts_stream := \<lparr>t_in = srest, t_out = header_bytes @ hello env skey b, t_room = None\<rparr>,
        ts_matched_shared_user := Some client\<rparr>)"
    unfolding ts_wait_for_incoming_def st
    by (simp add: io_bind_def send_header_ok receive_header_ok send_key_ok [OF assms(1)]
        receive_key_ok [OF assms(1), of _ client ckey a srest] assms(5) get_encrypted_stream_Ok get_encryption_key_def)
  moreover have "dh_shared env a (dh_public env b) = dh_shared env b (dh_public env a)"
    using assms(1) by (simp add: keys_ok_def)
  ultimately show ?thesis by (auto simp: new_encrypted_stream_def)
qed

text \<open>
  C6. Agreement: when two ends that know each other's public ids run the handshake on a connection
  that does not break, in the two roles, both succeed; each sends exactly what the other reads,
  both derive the same key, and each stream belongs to the user that the other end is.
\<close>

theorem handshake_agreement:
  assumes "keys_ok env"
    and "new_transmitic_stream env \<lparr>t_in = header_bytes @ hello env skey b @ crest, t_out = [], t_room = None\<rparr> cip cusers ckey = Ok cts"
    and "new_transmitic_stream env \<lparr>t_in = header_bytes @ hello env ckey a @ srest, t_out = [], t_room = None\<rparr> sip susers skey = Ok sts"
    and "knows env cusers server skey" and "knows env susers client ckey"
  shows "\<exists>ces cts' ses sts'. ts_connect env a cts = (Ok ces, cts') \<and> ts_wait_for_incoming env b sts = (Ok ses, sts')
     \<and> t_out (es_stream ces) = header_bytes @ hello env ckey a \<and> t_in (es_stream ces) = crest
     \<and> t_out (es_stream ses) = header_bytes @ hello env skey b \<and> t_in (es_stream ses) = srest
     \<and> es_key ces = es_key ses \<and> es_nonce ces = es_nonce ses
     \<and> es_shared_user ces = server \<and> es_shared_user ses = client"
  by (rule both_ends [OF assms])

subsection \<open>Failing handshakes\<close>

lemma decode_loop_not_Exit: "decode_loop n i bs \<noteq> Exit x"
  by (induction n i bs rule: decode_loop.induct) (auto simp: and_then_Exit Let_def split: if_splits list.splits)

lemma base64_not_Exit: "get_bytes_from_base64_str s \<noteq> Exit x"
proof -
  have "decode s \<noteq> Exit x" by (auto simp: decode_def Let_def decode_loop_not_Exit)
  then show ?thesis by (cases "decode s") (simp_all add: get_bytes_from_base64_str_def)
qed

lemma match_user_not_Exit: "match_user env m sig us \<noteq> Exit x"
  by (induction us) (auto simp: and_then_Exit base64_not_Exit)

lemma no_exit_steps:
  "no_exit (on_tcp (write_all bs))" "no_exit (on_tcp (read_exact n))"
  "no_exit (io_ok y)" "no_exit (io_mod g)" "no_exit (io_lift (slice i j zs))" "no_exit (io_lift (check_header h))"
  "no_exit (io_query (\<lambda>ts. match_user env m sig (ts_shared_users ts)))"
  "no_exit (io_query (\<lambda>ts. ensure (P ts) e))"
  by (auto simp: no_exit_def on_tcp_def write_all_def read_exact_def io_ok_def io_mod_def io_lift_def io_query_def
      slice_def check_header_def Let_def match_user_not_Exit split: option.split)

lemma no_exit_parts:
  "no_exit send_transmitic_header" "no_exit receive_transmitic_header"
  "no_exit (send_diffie_helman_key env secret)" "no_exit (receive_diffie_helman_key env)"
  unfolding send_transmitic_header_def receive_transmitic_header_def send_diffie_helman_key_def
    receive_diffie_helman_key_def Let_def
  by (intro no_exit_bind no_exit_steps no_exit_self)+

lemma receive_key_matched:
  "receive_diffie_helman_key env ts = (Ok remote, ts') \<Longrightarrow> ts_matched_shared_user ts' \<noteq> None"
  by (auto simp: receive_diffie_helman_key_def io_bind_def io_query_def io_mod_def io_ok_def Let_def
      split: prod.splits outcome.splits if_splits)

text \<open>
  The process never ends in a handshake: the branch of \<open>get_encrypted_stream\<close> that calls
  \<open>exit\<close> is not reached, because the key of an unknown user has been refused before.
\<close>

lemma handshake_never_exits:
  "fst (ts_connect env secret ts) \<noteq> Exit x \<and> fst (ts_wait_for_incoming env secret ts) \<noteq> Exit x"
proof (intro conjI notI)
  assume "fst (ts_connect env secret ts) = Exit x"
  then obtain ts' where "ts_connect env secret ts = (Exit x, ts')" by (metis prod.collapse)
  then obtain t s remote t' where "receive_diffie_helman_key env t = (Ok remote, t')"
    "get_encrypted_stream (get_encryption_key env s remote) t' = (Exit x, ts')"
    unfolding ts_connect_def by - ((erule io_bind_ExitE, rule no_exit_parts)+, blast)
  with receive_key_matched show False by (fastforce simp: get_encrypted_stream_def io_query_def)
next
  assume "fst (ts_wait_for_incoming env secret ts) = Exit x"
  then obtain ts' where "ts_wait_for_incoming env secret ts = (Exit x, ts')" by (metis prod.collapse)
  then obtain t s remote t' t'' where "receive_diffie_helman_key env t = (Ok remote, t')"
    "send_diffie_helman_key env secret t' = (Ok s, t'')"
    "get_encrypted_stream (get_encryption_key env s remote) t'' = (Exit x, ts')"
    unfolding ts_wait_for_incoming_def by - ((erule io_bind_ExitE, rule no_exit_parts)+, blast)
  with receive_key_matched send_key_frame show False
    by (fastforce simp: get_encrypted_stream_def io_query_def frame_condition_def)
qed

subsection \<open>An instance\<close>

definition demo_sign :: "bytes \<Rightarrow> bytes \<Rightarrow> bytes" where
  "demo_sign k m = take 64 (k @ m @ replicate 64 0)"

definition demo_ids :: id_env where
  "demo_ids = \<lparr>id_key_ok = (\<lambda>k. k \<noteq> []), id_sign = demo_sign, id_verify = (\<lambda>k m sig. sig = demo_sign k m),
     dh_public = (\<lambda>s. take 32 (s @ replicate 32 0)),
     dh_shared = (\<lambda>s p. map2 (+) (take 32 (s @ replicate 32 0)) p)\<rparr>"

lemma map2_add_commute: "map2 (+) xs ys = map2 (+) ys (xs :: u8 list)"
  by (induction xs ys rule: list_induct2') (simp_all add: add.commute)

lemma demo_keys_ok: "keys_ok demo_ids"
  by (auto simp: keys_ok_def demo_ids_def demo_sign_def intro: map2_add_commute)

lemma demo_knows: "knows demo_ids [demo_user n (encode k)] (demo_user n (encode k)) k"
  by (auto simp: knows_def demo_ids_def demo_user_def decode_encode intro!: exI [of _ "[]"])

definition demo_end :: "bytes \<Rightarrow> bytes \<Rightarrow> shared_user \<Rightarrow> transmitic_stream" where
  "demo_end k inp u =
     \<lparr>ts_stream = \<lparr>t_in = inp, t_out = [], t_room = None\<rparr>, ts_connecting_ip = [], ts_shared_users = [u],
      ts_private_key_pair = k, ts_private_id_bytes = k, ts_matched_shared_user = None\<rparr>"

abbreviation demo_bob :: shared_user where "demo_bob \<equiv> demo_user ''bob'' (encode [2])"
abbreviation demo_ann :: shared_user where "demo_ann \<equiv> demo_user ''ann'' (encode [1])"

definition demo_client :: transmitic_stream where
  "demo_client = demo_end [1] (header_bytes @ hello demo_ids [2] [6] @ []) demo_bob"

definition demo_server :: transmitic_stream where
  "demo_server = demo_end [2] (header_bytes @ hello demo_ids [1] [5] @ []) demo_ann"

lemma demo_new_client:
  "new_transmitic_stream demo_ids \<lparr>t_in = header_bytes @ hello demo_ids [2] [6] @ [], t_out = [], t_room = None\<rparr> []
     [demo_bob] [1] = Ok demo_client"
  by (simp add: new_transmitic_stream_def demo_client_def demo_end_def demo_ids_def)

lemma demo_new_server:
  "new_transmitic_stream demo_ids \<lparr>t_in = header_bytes @ hello demo_ids [1] [5] @ [], t_out = [], t_room = None\<rparr> []
     [demo_ann] [2] = Ok demo_server"
  by (simp add: new_transmitic_stream_def demo_server_def demo_end_def demo_ids_def)

theorem handshake_agreement_witness:
  "\<exists>ces cts' ses sts'. ts_connect demo_ids [5] demo_client = (Ok ces, cts')
     \<and> ts_wait_for_incoming demo_ids [6] demo_server = (Ok ses, sts') \<and> es_key ces = es_key ses
     \<and> es_shared_user ces = demo_bob \<and> es_shared_user ses = demo_ann"
  using handshake_agreement [OF demo_keys_ok demo_new_client demo_new_server demo_knows demo_knows] by blast

theorem handshake_authenticates_witness:
  "\<exists>ces. authenticated demo_ids [5] demo_client ces \<and> es_shared_user ces = demo_bob"
proof -
  obtain ces cts' where c: "ts_connect demo_ids [5] demo_client = (Ok ces, cts')"
    using both_ends [OF demo_keys_ok demo_new_client demo_new_server demo_knows demo_knows] by blast
  from handshake_authenticates [OF demo_new_client disjI1 [OF c]] show ?thesis by auto
qed

end
