(* ===== verification/Net.thy ===== *)
theory Net
  imports Sharing Handshake
begin

text \<open>
  Addresses and outgoing connections: \<open>resolve_address\<close> and \<open>tcp_connect\<close> of \<open>utils.rs\<close>, and the
  steps from a user's address to an encrypted stream, which \<open>outgoing_downloader.rs\<close> has twice.
  How a socket address is parsed and printed, the name service and which addresses answer are
  the record \<open>net_env\<close>, as is the fresh secret of the key exchange.
\<close>

record sock_addr =
  sa_ip :: string
  sa_port :: nat
  sa_v6 :: bool

record net_env =
  ne_parse_addr :: "string \<Rightarrow> sock_addr option"
  ne_lookup :: "string \<Rightarrow> sock_addr list option"
  ne_connect :: "sock_addr \<Rightarrow> tcp_stream option"
  ne_secret :: bytes

text \<open>A message sent with \<open>.ok()\<close>: a closed channel is not an error.\<close>

definition send_app_ok :: "app_agg_message \<Rightarrow> app_channel \<Rightarrow> app_channel" where
  "send_app_ok m ch = snd (send_app m ch)"

definition host_port :: "string \<Rightarrow> string \<Rightarrow> string" where
  "host_port host port = host @ '':'' @ port"

definition resolve_address ::
  "net_env \<Rightarrow> string \<Rightarrow> string \<Rightarrow> shared_user \<Rightarrow> app_channel \<Rightarrow> (error, sock_addr list) outcome \<times> app_channel" where
  "resolve_address net host port user ch =
     (case ne_parse_addr net (host_port host port) of
        Some addr \<Rightarrow> (Ok [addr], send_app_ok (LogDebug (''Resolved: Already an IP '' @ sa_ip addr, None)) ch)
      | None \<Rightarrow>
          (case (case ne_parse_addr net (host_port (''['' @ host @ '']'') port) of
                   Some addr \<Rightarrow> if sa_v6 addr then Some addr else None | None \<Rightarrow> None) of
             Some addr \<Rightarrow>
               (Ok [addr], send_app_ok (LogDebug (''Resolved: Already an IP, modified '' @ sa_ip addr, None)) ch)
           | None \<Rightarrow>
               (case ne_lookup net (host_port host port) of
                  None \<Rightarrow> (Err (TransferError (ResolveFailed (su_nickname user))), ch)
                | Some addrs \<Rightarrow>
                    (Ok addrs, send_app_ok (LogDebug (''Resolved: IP '' @ host_port host port @ '' -> ''
                       @ join_with (CHR '','') (map sa_ip addrs), None)) ch))))"

fun tcp_connect :: "net_env \<Rightarrow> sock_addr list \<Rightarrow> (error, sock_addr \<times> tcp_stream) outcome" where
  "tcp_connect net [] = Err (TransferError ConnectTimeout)"
| "tcp_connect net (addr # addrs) =
     (case ne_connect net addr of Some t \<Rightarrow> Ok (addr, t) | None \<Rightarrow> tcp_connect net addrs)"

text \<open>\<open>TransmiticStream::new\<close> for one user and \<open>connect\<close>; the peer's address is the one dialled.\<close>

definition connect_user ::
  "id_env \<Rightarrow> net_env \<Rightarrow> sock_addr \<times> tcp_stream \<Rightarrow> shared_user \<Rightarrow> bytes \<Rightarrow> (error, encrypted_stream) outcome" where
  "connect_user ids net conn user private_id_bytes =
     and_then (new_transmitic_stream ids (snd conn) (sa_ip (fst conn)) [user] private_id_bytes) (\<lambda>ts.
       fst (ts_connect ids (ne_secret net) ts))"

lemma tcp_connect_first:
  "tcp_connect net addrs = Ok (a, t) \<Longrightarrow>
     \<exists>pre post. addrs = pre @ a # post \<and> ne_connect net a = Some t \<and> (\<forall>b \<in> set pre. ne_connect net b = None)"
proof (induction addrs)
  case (Cons b addrs)
  show ?case
  proof (cases "ne_connect net b")
    case None
    with Cons obtain pre post where "addrs = pre @ a # post" "ne_connect net a = Some t"
      "\<forall>b \<in> set pre. ne_connect net b = None" by auto
    with None show ?thesis by (intro exI [of _ "b # pre"] exI [of _ post]) simp
  next
    case (Some t')
    with Cons.prems show ?thesis by (intro exI [of _ "[]"] exI [of _ addrs]) simp
  qed
qed simp

lemma tcp_connect_no_panic: "tcp_connect net addrs \<noteq> Panic" "tcp_connect net addrs \<noteq> Exit c"
  by (induction addrs) (auto split: option.split)

text \<open>
  Where a connection goes: an address that parses as it is written is used as it is, so is an
  IPv6 address written without its brackets, and only another host is looked up; of the addresses
  the first that answers is taken.
\<close>

theorem resolve_then_connect:
  assumes "resolve_address net host port user ch = (Ok addrs, ch')" and "tcp_connect net addrs = Ok (a, t)"
  shows "ne_connect net a = Some t \<and>
     (ne_parse_addr net (host_port host port) = Some a
      \<or> (ne_parse_addr net (host_port host port) = None
         \<and> (ne_parse_addr net (host_port (''['' @ host @ '']'') port) = Some a \<and> sa_v6 a
            \<or> (\<exists>pre post. ne_lookup net (host_port host port) = Some (pre @ a # post)
                 \<and> (\<forall>b \<in> set pre. ne_connect net b = None)))))"
  using assms(1) tcp_connect_first [OF assms(2)]
  by (auto simp: resolve_address_def Cons_eq_append_conv split: option.splits if_splits)

definition demo_net :: "tcp_stream \<Rightarrow> net_env" where
  "demo_net t =
     \<lparr>ne_parse_addr = (\<lambda>s. if s = ''[::1]:7'' then Some \<lparr>sa_ip = ''::1'', sa_port = 7, sa_v6 = True\<rparr> else None),
      ne_lookup = (\<lambda>_. None), ne_connect = (\<lambda>_. Some t), ne_secret = [5]\<rparr>"

theorem resolve_then_connect_witness:
  "\<exists>a. sa_ip a = ''::1'' \<and> sa_v6 a
     \<and> ne_connect (demo_net \<lparr>t_in = [], t_out = [], t_room = None\<rparr>) a \<noteq> None"
proof -
  let ?t = "\<lparr>t_in = [], t_out = [], t_room = None\<rparr>"
  let ?a = "\<lparr>sa_ip = ''::1'', sa_port = 7, sa_v6 = True\<rparr>"
  have r: "fst (resolve_address (demo_net ?t) ''::1'' ''7'' (demo_user ''bob'' []) new_channel) = Ok [?a]"
    by (simp add: resolve_address_def demo_net_def host_port_def)
  then obtain ch where "resolve_address (demo_net ?t) ''::1'' ''7'' (demo_user ''bob'' []) new_channel = (Ok [?a], ch)"
    by (metis prod.collapse)
  from resolve_then_connect [OF this, of ?a ?t] show ?thesis
    by (intro exI [of _ ?a]) (simp add: demo_net_def)
qed

subsection \<open>Bytes on the wire\<close>

text \<open>Reading a frame takes bytes off the wire, so a loop that reads ends.\<close>

definition wire_left :: "encrypted_stream \<Rightarrow> nat" where
  "wire_left es = length (t_in (es_stream es))"

lemma es_read_stream_wire:
  "es_read_stream n es = (r, es') \<Longrightarrow>
     wire_left es' \<le> wire_left es \<and> (\<forall>u. r = Ok u \<longrightarrow> wire_left es' + n = wire_left es)"
  by (auto simp: es_read_stream_def wire_left_def read_exact_def split: if_splits)

abbreviation wire_within :: "nat \<Rightarrow> encrypted_stream \<Rightarrow> bool" where
  "wire_within k es \<equiv> wire_left es \<le> k"

lemma wire_keeps [keeps_intros]:
  "keeps (wire_within k) (es_read_stream n)" "keeps (wire_within k) (es_decrypt_to env n off err)"
  "keeps (wire_within k) increment_nonce"
  by (auto simp: keeps_def es_read_stream_def es_decrypt_to_def increment_nonce_def wire_left_def read_exact_def
      split: option.splits outcome.splits)

lemma keeps_rest:
  assumes "io_bind m f s = (r, t)" and "m s = (Ok x, s')" and "keeps P (f x)" and "P s'"
  shows "P t"
  using assms keeps_run [OF assms(3) _ assms(4), of r t] by (simp add: io_bind_def)

lemma es_read_wire:
  assumes "es_read env es = (Ok u, es')"
  shows "wire_left es' < wire_left es"
proof -
  let ?n = "PAYLOAD_OFFSET + CRYPTO_EXTENSION_SIZE"
  from assms [unfolded es_read_def Let_def] obtain a es1 where
    a: "es_read_stream ?n es = (Ok a, es1)" by (rule io_bind_OkE)
  have less: "wire_left es1 < wire_left es"
    using es_read_stream_wire [OF a] by (simp add: size_consts)
  have "wire_within (wire_left es1) es'"
    by (rule keeps_rest [OF assms [unfolded es_read_def Let_def] a]) (intro keeps_intros, simp)
  with less show ?thesis by simp
qed

end
