(* ===== verification/Uploader.thy ===== *)
theory Uploader
  imports Net
begin

text \<open>
  \<open>SingleUploader\<close> of \<open>incoming_uploader.rs\<close>: the thread that serves one connection. Its state holds its
  fields and what the outside will answer: \<open>ul_polls\<close> are the results of the next calls of
  \<open>try_recv\<close>, \<open>ul_progress_due\<close> whether more than a second has passed at the next throttled updates
  and \<open>ul_reads\<close> how many bytes the next reads of a file return at most. The list of users who
  have the latest file list is shared between uploaders; here it is a field.
\<close>

subsection \<open>State\<close>

datatype upload_poll = UpEmpty | UpShutdown | UpNothing | UpClosed

record single_uploader =
  ul_polls :: "upload_poll list"
  ul_config :: config
  ul_nickname :: string
  ul_app_sender :: app_channel
  ul_should_shutdown :: bool
  ul_active_msg :: u16
  ul_progress_due :: "bool list"
  ul_reads :: "nat list"
  ul_list_cache :: "string list"

text \<open>
  What an uploader finds outside: cipher and keys, the disk as it is listed and read, the network's
  name service, JSON. A tree deeper than \<open>up_fuel\<close> is one that the operating system refuses to
  follow (a link to a directory above it).
\<close>

record upload_env =
  up_crypto :: crypto_env
  up_ids :: id_env
  up_dbg :: bool
  up_disk :: disk_env
  up_fuel :: nat
  up_read :: "string \<Rightarrow> bytes option"
  up_to_json :: "shared_file \<Rightarrow> string"
  up_net :: net_env

type_synonym 'a su_op = "(single_uploader, error, 'a) io"
type_synonym 'a ul_op = "(single_uploader \<times> encrypted_stream, error, 'a) io"

datatype run_loop_result = Served | ReverseConnected

definition new_single_uploader :: "upload_poll list \<Rightarrow> config \<Rightarrow> app_channel \<Rightarrow> string list \<Rightarrow> single_uploader" where
  "new_single_uploader polls c ch cache =
     \<lparr>ul_polls = polls, ul_config = c, ul_nickname = [], ul_app_sender = ch, ul_should_shutdown = False,
      ul_active_msg = 0, ul_progress_due = [], ul_reads = [], ul_list_cache = cache\<rparr>"

definition ul_send :: "app_agg_message \<Rightarrow> unit su_op" where
  "ul_send m s = (case send_app m (ul_app_sender s) of (r, ch) \<Rightarrow> (r, s\<lparr>ul_app_sender := ch\<rparr>))"

definition on_ul :: "'a su_op \<Rightarrow> 'a ul_op" where
  "on_ul m st = (case m (fst st) of (r, s) \<Rightarrow> (r, (s, snd st)))"

definition on_ues :: "'a es_op \<Rightarrow> 'a ul_op" where
  "on_ues m st = (case m (snd st) of (r, es) \<Rightarrow> (r, (fst st, es)))"

abbreviation ul_log :: "(remark \<Rightarrow> app_agg_message) \<Rightarrow> (single_uploader \<Rightarrow> string) \<Rightarrow> unit ul_op" where
  "ul_log level f \<equiv> on_ul (io_self (\<lambda>s. ul_send (level (f s, None))))"

subsection \<open>Messages from the manager\<close>

fun ul_read_polls :: "upload_poll list \<Rightarrow> unit su_op" where
  "ul_read_polls [] = io_ok ()"
| "ul_read_polls (p # ps) =
     io_then (io_mod (\<lambda>s. s\<lparr>ul_polls := ps\<rparr>))
     (case p of
        UpEmpty \<Rightarrow> io_ok ()
      | UpShutdown \<Rightarrow> io_then (io_mod (\<lambda>s. s\<lparr>ul_should_shutdown := True\<rparr>)) (ul_read_polls ps)
      | UpNothing \<Rightarrow> ul_read_polls ps
      | UpClosed \<Rightarrow>
          io_then (io_mod (\<lambda>s. s\<lparr>ul_should_shutdown := True\<rparr>))
            (io_self (\<lambda>s. ul_send (LogInfo (''Receiver disconnected '' @ ul_nickname s, None)))))"

definition ul_read_receiver :: "unit su_op" where
  "ul_read_receiver = io_self (\<lambda>s. ul_read_polls (ul_polls s))"

text \<open>The manager's messages, and whether to end.\<close>

definition told_to_stop :: "bool ul_op" where
  "told_to_stop = io_then (on_ul ul_read_receiver) (io_get (\<lambda>(s, es). ul_should_shutdown s))"

subsection \<open>Sending the list\<close>

definition remember_list_sent :: "unit su_op" where
  "remember_list_sent =
     io_mod (\<lambda>s. if ul_nickname s \<in> set (ul_list_cache s) then s
       else s\<lparr>ul_list_cache := ul_list_cache s @ [ul_nickname s]\<rparr>)"

text \<open>The bytes of the list that are left; all pieces but the last have \<open>MAX_DATA_SIZE\<close> bytes.\<close>

function list_loop :: "upload_env \<Rightarrow> bytes \<Rightarrow> run_loop_result ul_op" where
  "list_loop env rest =
     (if MAX_DATA_SIZE < length rest then
        io_then (on_ues (es_write (up_crypto env) MSG_FILE_LIST_PIECE (take MAX_DATA_SIZE rest)))
        (io_bind told_to_stop (\<lambda>stop.
         if stop then io_ok Served else list_loop env (drop MAX_DATA_SIZE rest)))
      else
        io_then (on_ues (es_write (up_crypto env) MSG_FILE_LIST_FINAL rest))
        (io_bind told_to_stop (\<lambda>stop.
         if stop then io_ok Served else io_then (on_ul remember_list_sent) (io_ok Served))))"
  by pat_completeness auto
termination
  by (relation "measure (\<lambda>(env, rest). length rest)") (auto simp: size_consts)

declare list_loop.simps [simp del]

definition send_list :: "upload_env \<Rightarrow> bytes \<Rightarrow> run_loop_result ul_op" where
  "send_list env json =
     io_then (ul_log LogDebug (\<lambda>s. ul_nickname s @ '' requested file list'')) (list_loop env json)"

subsection \<open>Sending a file\<close>

text \<open>\<open>File::read\<close> into a buffer of \<open>MAX_DATA_SIZE\<close> bytes: at least one byte unless at the end.\<close>

definition read_some :: "bytes \<Rightarrow> bytes su_op" where
  "read_some rest s =
     (case ul_reads s of
        [] \<Rightarrow> (Ok (take MAX_DATA_SIZE rest), s)
      | n # ns \<Rightarrow> (Ok (take (max 1 (min n MAX_DATA_SIZE)) rest), s\<lparr>ul_reads := ns\<rparr>))"

definition upload_state :: "string \<Rightarrow> nat \<Rightarrow> unit ul_op" where
  "upload_state path percent =
     on_ul (io_self (\<lambda>s. ul_send (UploadStateChange
       \<lparr>sus_nickname = ul_nickname s, sus_path = path, sus_percent = percent, sus_is_online = True\<rparr>)))"

definition throttled_upload :: "string \<Rightarrow> nat \<Rightarrow> nat \<Rightarrow> unit ul_op" where
  "throttled_upload path current file_size =
     io_bind (io_get (\<lambda>(s, es). ul_progress_due s)) (\<lambda>due.
       case due of
         [] \<Rightarrow> io_ok ()
       | d # ds \<Rightarrow>
           io_then (on_ul (io_mod (\<lambda>s. s\<lparr>ul_progress_due := ds\<rparr>)))
             (if d then upload_state path (min (f64_percent current file_size) 99) else io_ok ()))"

text \<open>
  One turn of the loop: the result is whether the file is finished, whether the manager has asked to
  stop, what is left of the file and the bytes sent so far.
\<close>

record send_progress =
  sp_finished :: bool
  sp_stopped :: bool
  sp_rest :: bytes
  sp_sent :: nat

definition send_step :: "upload_env \<Rightarrow> shared_file \<Rightarrow> string \<Rightarrow> bytes \<Rightarrow> nat \<Rightarrow> send_progress ul_op" where
  "send_step env f path rest current =
     io_bind (on_ul (read_some rest)) (\<lambda>chunk.
     let current' = current + length chunk;
         finished = (unat (sf_file_size f) \<le> current' \<or> chunk = [])
     in io_then (on_ues (es_write (up_crypto env) (if finished then MSG_FILE_FINISHED else MSG_FILE_CHUNK) chunk))
        (if finished then io_ok \<lparr>sp_finished = True, sp_stopped = False, sp_rest = drop (length chunk) rest, sp_sent = current'\<rparr>
         else
           io_then (throttled_upload path current' (unat (sf_file_size f)))
           (io_bind told_to_stop (\<lambda>stop.
             io_ok \<lparr>sp_finished = False, sp_stopped = stop, sp_rest = drop (length chunk) rest, sp_sent = current'\<rparr>))))"

lemma read_some_prefix:
  "on_ul (read_some rest) st = (Ok chunk, st') \<Longrightarrow> \<exists>left. rest = chunk @ left"
  by (auto simp: on_ul_def read_some_def split: list.splits prod.splits) (metis append_take_drop_id)+

lemma send_step_less:
  assumes "send_step env f path rest current st = (Ok p, st')" and "\<not> sp_finished p"
  shows "length (sp_rest p) < length rest"
  using assms unfolding send_step_def Let_def
  by (auto simp: io_ok_def elim!: io_bind_OkE split: if_splits dest!: read_some_prefix)

text \<open>The loop; the result is whether the file was sent to its end.\<close>

function send_loop :: "upload_env \<Rightarrow> shared_file \<Rightarrow> string \<Rightarrow> bytes \<Rightarrow> nat \<Rightarrow> bool ul_op" where
  "send_loop env f path rest current st =
     (case send_step env f path rest current st of
        (Ok p, st1) \<Rightarrow>
          (if sp_finished p then (Ok True, st1)
           else if sp_stopped p then (Ok False, st1)
           else send_loop env f path (sp_rest p) (sp_sent p) st1)
      | (Err e, st1) \<Rightarrow> (Err e, st1) | (Panic, st1) \<Rightarrow> (Panic, st1) | (Exit c, st1) \<Rightarrow> (Exit c, st1))"
  by pat_completeness auto
termination
  by (relation "measure (\<lambda>(env, f, path, rest, current, st). length rest)") (auto dest: send_step_less [OF sym])

declare send_loop.simps [simp del]

definition send_file :: "upload_env \<Rightarrow> shared_file \<Rightarrow> string \<Rightarrow> nat \<Rightarrow> run_loop_result ul_op" where
  "send_file env f path seek_point =
     io_bind (io_lift (ok_or (IoError NotFound) (up_read env path))) (\<lambda>content.
     io_then (ul_log LogInfo (\<lambda>s. ''Sending '' @ ul_nickname s @ '' file '' @ path))
     (io_then (upload_state path 0)
     (io_bind (send_loop env f path (drop seek_point content) seek_point) (\<lambda>finished.
      if finished then
        io_then (upload_state path 100)
        (io_then (ul_log LogInfo (\<lambda>s. ''File transfer to '' @ ul_nickname s @ '' completed '' @ path)) (io_ok Served))
      else io_ok Served))))"

text \<open>The client's choice: only files of the list are sent.\<close>

definition serve_choice :: "upload_env \<Rightarrow> shared_file \<Rightarrow> string \<Rightarrow> nat \<Rightarrow> run_loop_result ul_op" where
  "serve_choice env everything_file choice seek_point =
     (case get_file_by_path choice everything_file of
        None \<Rightarrow>
          io_then (ul_log LogWarning (\<lambda>s. ul_nickname s @ '' chose invalid file '' @ choice))
          (io_then (on_ues (es_write (up_crypto env) MSG_FILE_INVALID_FILE [])) (io_ok Served))
      | Some f \<Rightarrow>
          if sf_is_directory f then
            io_then (ul_log LogWarning (\<lambda>s. ul_nickname s @ '' chose directory. Not allowed. '' @ choice))
            (io_then (on_ues (es_write (up_crypto env) MSG_CANNOT_SELECT_DIRECTORY [])) (io_ok Served))
          else send_file env f choice seek_point)"

text \<open>The payload of a choice: the seek point, then the path.\<close>

definition serve_selection :: "upload_env \<Rightarrow> shared_file \<Rightarrow> run_loop_result ul_op" where
  "serve_selection env everything_file =
     io_bind (io_query (\<lambda>(s, es). get_payload (up_crypto env) es)) (\<lambda>payload.
     io_bind (io_lift (slice 0 8 payload)) (\<lambda>seek_bytes.
     io_bind (io_lift (from_utf8 (drop 8 payload))) (\<lambda>choice.
     io_then (ul_log LogDebug (\<lambda>s. ul_nickname s @ '' chose file '' @ choice @ '' at seek point ''
        @ show_nat (be_dec seek_bytes)))
       (serve_choice env everything_file choice (be_dec seek_bytes)))))"

subsection \<open>Serving\<close>

definition run_loop :: "upload_env \<Rightarrow> shared_file \<Rightarrow> bytes \<Rightarrow> run_loop_result ul_op" where
  "run_loop env everything_file json =
     io_then (on_ues (es_read (up_crypto env)))
     (io_bind told_to_stop (\<lambda>stop.
      if stop then io_ok Served
      else
        io_bind (io_query (\<lambda>(s, es). get_message es)) (\<lambda>m.
        io_then (on_ul (io_mod (\<lambda>s. s\<lparr>ul_active_msg := m\<rparr>)))
        (if m = MSG_FILE_LIST then send_list env json
         else if m = MSG_FILE_SELECTION_CONTINUE then serve_selection env everything_file
         else if m = MSG_REVERSE \<or> m = MSG_REVERSE_NO_LIST then
           io_then (on_ues (io_mod (\<lambda>es. es\<lparr>es_reverse_message := m\<rparr>))) (io_ok ReverseConnected)
         else io_query (\<lambda>(s, es). Err (TransferError (InvalidClientSelection (ul_nickname s) m)))))))"

text \<open>Reading takes bytes off the wire and nothing puts them back, so serving a connection ends.\<close>

lemma write_wire [keeps_intros]: "keeps (wire_within k) (es_write env m p)"
proof -
  have parts: "keeps (wire_within k) (es_copy off src)" "keeps (wire_within k) increment_nonce"
    "keeps (wire_within k) (es_encrypt_out env n err)" for off src n err
    by (auto simp: keeps_def es_copy_def increment_nonce_def es_encrypt_out_def es_write_stream_def wire_left_def write_all_in
        split: outcome.split option.split prod.split dest!: arg_cong [where f = snd])
  show ?thesis
    unfolding es_write_def es_write_message_def es_write_payload_def by (intro keeps_intros parts)
qed

text \<open>
  The contract of a property of the stream that writing a frame keeps: everything that serves a
  request keeps it.
\<close>

locale stream_property =
  fixes Q :: "encrypted_stream \<Rightarrow> bool"
  assumes write_keeps: "keeps Q (es_write env m p)"
begin

lemma ul_stream [keeps_intros]: "keeps (\<lambda>st. Q (snd st)) (on_ul m)"
  by (simp add: keeps_def on_ul_def split: prod.split)

lemma ues_stream: "keeps Q m \<Longrightarrow> keeps (\<lambda>st. Q (snd st)) (on_ues m)"
  by (auto simp: keeps_def on_ues_def split: prod.split)

lemma told_stream: "keeps (\<lambda>st. Q (snd st)) told_to_stop"
  unfolding told_to_stop_def by (intro keeps_intros)

lemma list_loop_stream: "keeps (\<lambda>st. Q (snd st)) (list_loop env rest)"
proof (induction env rest rule: list_loop.induct)
  case (1 env rest)
  have w: "keeps (\<lambda>st. Q (snd st)) (on_ues (es_write (up_crypto env) m p))" for m p
    by (rule ues_stream [OF write_keeps])
  show ?case
  proof (cases "MAX_DATA_SIZE < length rest")
    case True
    with 1 have "keeps (\<lambda>st. Q (snd st)) (list_loop env (drop MAX_DATA_SIZE rest))" by blast
    with True show ?thesis
      by (subst list_loop.simps) (auto intro!: keeps_intros w told_stream)
  next
    case False
    then show ?thesis
      by (subst list_loop.simps) (auto intro!: keeps_intros w told_stream)
  qed
qed

lemma step_stream: "keeps (\<lambda>st. Q (snd st)) (send_step env f path rest current)"
  unfolding send_step_def throttled_upload_def upload_state_def Let_def
  by (auto intro!: keeps_intros ues_stream write_keeps told_stream split: list.split)

lemma send_loop_stream: "keeps (\<lambda>st. Q (snd st)) (send_loop env f path rest current)"
proof (rule keepsI)
  show "Q (snd (snd (send_loop env f path rest current st)))" if "Q (snd st)" for st
    using that
  proof (induction env f path rest current st rule: send_loop.induct)
    case (1 env f path rest current st)
    obtain r st1 where s: "send_step env f path rest current st = (r, st1)" by (metis prod.exhaust)
    from keeps_run [OF step_stream s 1(2)] 1(1) [OF s [symmetric]] s show ?case
      by (subst send_loop.simps) (auto split: outcome.split)
  qed
qed

lemma serve_stream:
  "keeps (\<lambda>st. Q (snd st)) (send_list env json)" "keeps (\<lambda>st. Q (snd st)) (serve_selection env ev)"
  unfolding send_list_def serve_selection_def serve_choice_def send_file_def upload_state_def
  by (auto intro!: keeps_intros list_loop_stream send_loop_stream ues_stream write_keeps split: option.split)

end

interpretation wire_prop: stream_property "wire_within k" for k
  by unfold_locales (rule write_wire)

interpretation wf_prop: stream_property es_wf
  by unfold_locales (rule keeps_write)

lemma run_loop_wire:
  assumes "run_loop env ev json st = (Ok u, st')"
  shows "wire_left (snd st') < wire_left (snd st)"
proof -
  from assms [unfolded run_loop_def] obtain a st1 where
    a: "on_ues (es_read (up_crypto env)) st = (Ok a, st1)" by (rule io_bind_OkE)
  then have less: "wire_left (snd st1) < wire_left (snd st)"
    by (auto simp: on_ues_def split: prod.splits dest: es_read_wire)
  have rev: "keeps (wire_within k) (io_mod (\<lambda>es. es\<lparr>es_reverse_message := m\<rparr>))" for k m
    by (rule keeps_mod) (simp add: wire_left_def)
  have "wire_within (wire_left (snd st1)) (snd st')"
    by (rule keeps_rest [OF assms [unfolded run_loop_def] a])
      (auto intro!: keeps_intros wire_prop.told_stream wire_prop.serve_stream wire_prop.ues_stream rev)
  with less show ?thesis by simp
qed

text \<open>The loop of a connection, from its first request on.\<close>

function serve_loop :: "upload_env \<Rightarrow> shared_file \<Rightarrow> bytes \<Rightarrow> run_loop_result ul_op" where
  "serve_loop env ev json st =
     (case told_to_stop st of
        (Ok stop, st1) \<Rightarrow>
          (if stop then (Ok Served, st1)
           else (case run_loop env ev json st1 of
                   (Ok Served, st2) \<Rightarrow> serve_loop env ev json st2
                 | (Ok ReverseConnected, st2) \<Rightarrow> (Ok ReverseConnected, st2)
                 | (Err e, st2) \<Rightarrow> (Err e, st2) | (Panic, st2) \<Rightarrow> (Panic, st2) | (Exit c, st2) \<Rightarrow> (Exit c, st2)))
      | (Err e, st1) \<Rightarrow> (Err e, st1) | (Panic, st1) \<Rightarrow> (Panic, st1) | (Exit c, st1) \<Rightarrow> (Exit c, st1))"
  by pat_completeness auto
termination
proof (relation "measure (\<lambda>(env, ev, json, st). wire_left (snd st))", goal_cases)
  case (2 env ev json st r st1 stop r2 st2 res)
  have "keeps (\<lambda>st'. snd st' = snd st) told_to_stop"
    by (auto simp: told_to_stop_def keeps_def on_ul_def io_bind_def io_get_def split: prod.split outcome.split)
  from keeps_run [OF this 2(1) [symmetric]] have same: "snd st1 = snd st" by simp
  from 2 have "run_loop env ev json st1 = (Ok Served, st2)" by simp
  from run_loop_wire [OF this] same show ?case by simp
qed simp

declare serve_loop.simps [simp del]

subsection \<open>One connection\<close>

text \<open>A connection: its socket, and the address of the peer with whether it is IPv6, if it is known.\<close>

record connection =
  cn_stream :: tcp_stream
  cn_peer :: "(string \<times> bool) option"

type_synonym 'a conn_op = "(single_uploader \<times> tcp_stream, error, 'a) io"

definition on_su :: "'a su_op \<Rightarrow> 'a conn_op" where
  "on_su m st = (case m (fst st) of (r, s) \<Rightarrow> (r, (s, snd st)))"

definition with_es :: "'a ul_op \<Rightarrow> encrypted_stream \<Rightarrow> ('a \<times> encrypted_stream) conn_op" where
  "with_es m es st =
     (case m (fst st, es) of (r, (s, es')) \<Rightarrow> (and_then r (\<lambda>x. Ok (x, es')), (s, es_stream es')))"

definition with_ts :: "encrypted_stream ts_op \<Rightarrow> transmitic_stream \<Rightarrow> encrypted_stream conn_op" where
  "with_ts m ts st =
     (case m ts of
        (Ok es, ts') \<Rightarrow> (Ok es, (fst st, es_stream es))
      | (r, ts') \<Rightarrow> (r, (fst st, ts_stream ts')))"

text \<open>An address of a user that may be the peer's: the same, or an IPv4 address embedded in an IPv6 one.\<close>

definition addr_matches :: "string \<Rightarrow> bool \<Rightarrow> sock_addr \<Rightarrow> bool" where
  "addr_matches ip v6 a \<longleftrightarrow> sa_ip a = ip \<or> \<not> sa_v6 a \<and> v6 \<and> ''::ffff:'' @ sa_ip a = ip"

fun retained_users ::
  "net_env \<Rightarrow> string \<Rightarrow> bool \<Rightarrow> shared_user list \<Rightarrow> app_channel \<Rightarrow> shared_user list \<times> app_channel" where
  "retained_users net ip v6 [] ch = ([], ch)"
| "retained_users net ip v6 (u # us) ch =
     (case resolve_address net (su_ip u) ''0'' u ch of
        (r, ch1) \<Rightarrow>
          (case retained_users net ip v6 us ch1 of
             (kept, ch2) \<Rightarrow>
               (case r of Ok addrs \<Rightarrow> if list_ex (addr_matches ip v6) addrs then u # kept else kept | _ \<Rightarrow> kept, ch2)))"

text \<open>The users that the peer may be; \<open>None\<close> when the connection is denied.\<close>

definition admit_users :: "upload_env \<Rightarrow> string \<Rightarrow> bool \<Rightarrow> shared_user option \<Rightarrow> shared_user list option su_op" where
  "admit_users env ip v6 reverse_user =
     io_self (\<lambda>s.
       let cf = c_config_file (ul_config s) in
       case reverse_user of
         Some user \<Rightarrow>
           if cf_ignore_incoming cf then io_lift (Exit (exit_value ExitInvalidStateIgnoreAndRev)) else io_ok (Some [user])
       | None \<Rightarrow>
           if cf_ignore_incoming cf then io_ok (Some (cf_shared_users cf))
           else
             (case retained_users (up_net env) ip v6 (cf_shared_users cf) (ul_app_sender s) of
                (users, ch) \<Rightarrow>
                  io_then (io_mod (\<lambda>s. s\<lparr>ul_app_sender := ch\<rparr>))
                  (if users = [] then
                     io_then (ul_send (LogWarning (''Unknown IP tried to connect. Denied.: '' @ ip, None))) (io_ok None)
                   else
                     io_then (ul_send (LogInfo (''User(s) trying to connect: ''
                       @ join_with (CHR '','') (map su_nickname users), None))) (io_ok (Some users)))))"

text \<open>The handshake; towards a reverse user it begins here and ends with the kind of the connection.\<close>

definition shake_hands ::
  "upload_env \<Rightarrow> string \<Rightarrow> shared_user list \<Rightarrow> shared_user option \<Rightarrow> encrypted_stream conn_op" where
  "shake_hands env ip users reverse_user =
     io_self (\<lambda>(s, t).
       io_bind (io_lift (new_transmitic_stream (up_ids env) t ip users (c_local_private_key_bytes (ul_config s)))) (\<lambda>ts.
       case reverse_user of
         None \<Rightarrow> with_ts (ts_wait_for_incoming (up_ids env) (ne_secret (up_net env))) ts
       | Some user \<Rightarrow>
           (let rev_message = (if su_nickname user \<in> set (ul_list_cache s) then MSG_REVERSE_NO_LIST else MSG_REVERSE) in
            io_bind (with_ts (ts_connect (up_ids env) (ne_secret (up_net env))) ts) (\<lambda>es.
            io_bind (with_es (on_ues (es_write (up_crypto env) rev_message [])) es) (\<lambda>(_, es'). io_ok es')))))"

definition process_not_allowed :: "unit su_op" where
  "process_not_allowed =
     io_self (\<lambda>s. ul_send (LogWarning (''User tried to connect but is currently set to Block: '' @ ul_nickname s, None)))"

text \<open>The tree that the user is offered.\<close>

definition build_offer :: "upload_env \<Rightarrow> string \<Rightarrow> shared_file su_op" where
  "build_offer env nickname s =
     (case get_everything_file (up_dbg env) (up_disk env) (up_fuel env) (ul_config s) nickname (ul_app_sender s) of
        (r, ch) \<Rightarrow> (case r of Some x \<Rightarrow> x | None \<Rightarrow> Err (IoError OtherIo), s\<lparr>ul_app_sender := ch\<rparr>))"

definition ul_send_unwrap :: "app_agg_message \<Rightarrow> unit su_op" where
  "ul_send_unwrap m s = (case ul_send m s of (Ok _, s') \<Rightarrow> (Ok (), s') | (_, s') \<Rightarrow> (Panic, s'))"

definition serve_user :: "upload_env \<Rightarrow> string \<Rightarrow> encrypted_stream \<Rightarrow> run_loop_result conn_op" where
  "serve_user env ip es =
     io_then (on_su (io_self (\<lambda>s. ul_send (LogInfo (''User successfully connected: '' @ ul_nickname s @ '' - '' @ ip, None)))))
     (io_bind (on_su (build_offer env (su_nickname (es_shared_user es)))) (\<lambda>everything_file.
      io_bind (with_es (serve_loop env everything_file (as_bytes (up_to_json env everything_file))) es) (\<lambda>(r, es').
      case r of
        Served \<Rightarrow> io_ok Served
      | ReverseConnected \<Rightarrow> io_then (on_su (ul_send_unwrap (ReverseConnection es'))) (io_ok ReverseConnected))))"

definition uploader_run :: "upload_env \<Rightarrow> (string \<times> bool) option \<Rightarrow> shared_user option \<Rightarrow> run_loop_result conn_op" where
  "uploader_run env peer reverse_user =
     io_bind (io_lift (ok_or (IoError OtherIo) peer)) (\<lambda>(ip, v6).
     io_then (on_su (ul_send (LogInfo (''Incoming Connecting: '' @ ip, None))))
     (io_bind (on_su (admit_users env ip v6 reverse_user)) (\<lambda>admitted.
      case admitted of
        None \<Rightarrow> io_ok Served
      | Some users \<Rightarrow>
          io_bind (shake_hands env ip users reverse_user) (\<lambda>es.
          io_then (on_su (io_mod (\<lambda>s. s\<lparr>ul_nickname := su_nickname (es_shared_user es)\<rparr>)))
          (if \<not> su_allowed (es_shared_user es) then io_then (on_su process_not_allowed) (io_ok Served)
           else serve_user env ip es)))))"

text \<open>The thread of a connection; the result is whether the socket is shut down at its end.\<close>

definition single_thread ::
  "upload_env \<Rightarrow> connection \<Rightarrow> shared_user option \<Rightarrow> upload_poll list \<Rightarrow> config \<Rightarrow> app_channel \<Rightarrow> string list
     \<Rightarrow> (error, bool) outcome \<times> (single_uploader \<times> tcp_stream)" where
  "single_thread env conn reverse_user polls c ch cache =
     (case uploader_run env (cn_peer conn) reverse_user (new_single_uploader polls c ch cache, cn_stream conn) of
        (Ok Served, st) \<Rightarrow> (Ok True, st)
      | (Ok ReverseConnected, st) \<Rightarrow> (Ok False, st)
      | (Exit n, st) \<Rightarrow> (Exit n, st)
      | (Err e, st) \<Rightarrow>
          io_then (on_su (ul_send_unwrap (LogDebug (''Uploader run error. '', Some e))))
            (io_self (\<lambda>(s, t).
               if ul_active_msg s = MSG_FILE_SELECTION_CONTINUE
               then io_then (on_su (ul_send_unwrap (UploadDisconnected (ul_nickname s)))) (io_ok True)
               else io_ok True)) st
      | (Panic, st) \<Rightarrow> io_then (on_su (ul_send_unwrap (LogDebug (''Uploader thread error. '', None)))) (io_ok True) st)"

subsection \<open>Only offered files are read\<close>

definition offered_files :: "shared_file \<Rightarrow> string set" where
  "offered_files ev = {sf_path f | f. f \<in> set (all_nodes ev) \<and> \<not> sf_is_directory f}"

lemma step_reads_nothing: "send_step (env\<lparr>up_read := rd\<rparr>) f path rest current = send_step env f path rest current"
  by (simp add: send_step_def)

lemma send_loop_reads_nothing:
  "send_loop (env\<lparr>up_read := rd\<rparr>) f path rest current st = send_loop env f path rest current st"
proof (induction env f path rest current st rule: send_loop.induct)
  case (1 env f path rest current st)
  show ?case
    using 1
    by (auto simp: send_loop.simps [of env f path rest current st]
        send_loop.simps [of "env\<lparr>up_read := rd\<rparr>" f path rest current st] step_reads_nothing split: prod.split outcome.split)
qed

lemma list_loop_reads_nothing: "list_loop (env\<lparr>up_read := rd\<rparr>) rest = list_loop env rest"
proof (induction env rest rule: list_loop.induct)
  case (1 env rest)
  then show ?case
    by (simp add: list_loop.simps [of env rest] list_loop.simps [of "env\<lparr>up_read := rd\<rparr>" rest] cong: if_cong)
qed

lemma selection_reads_offered:
  assumes "\<forall>p \<in> offered_files ev. rd p = up_read env p"
  shows "serve_selection (env\<lparr>up_read := rd\<rparr>) ev = serve_selection env ev"
proof -
  have one: "send_file (env\<lparr>up_read := rd\<rparr>) f choice n = send_file env f choice n"
    if "get_file_by_path choice ev = Some f" "\<not> sf_is_directory f" for f choice n
  proof -
    from get_file_by_path_SomeD [OF that(1)] that(2) have "choice \<in> offered_files ev"
      by (auto simp: offered_files_def)
    with assms have "rd choice = up_read env choice" by blast
    moreover have "send_loop (env\<lparr>up_read := rd\<rparr>) = send_loop env"
      by (intro ext) (rule send_loop_reads_nothing)
    ultimately show ?thesis unfolding send_file_def by simp
  qed
  have "serve_choice (env\<lparr>up_read := rd\<rparr>) ev choice n = serve_choice env ev choice n" for choice n
    using one by (auto simp: serve_choice_def split: option.split)
  then show ?thesis by (simp add: serve_selection_def)
qed

lemma run_loop_reads_offered:
  assumes "\<forall>p \<in> offered_files ev. rd p = up_read env p"
  shows "run_loop (env\<lparr>up_read := rd\<rparr>) ev json = run_loop env ev json"
  by (simp add: run_loop_def selection_reads_offered [OF assms] send_list_def list_loop_reads_nothing cong: if_cong)

text \<open>
  C2. Only files of the list leave the disk: whatever the peer asks for, and for as long as the
  connection lives, what the uploader does and sends is the same for any two disks that agree
  on the files (not directories) of the tree built for that user.
\<close>

theorem only_offered_files_leave:
  assumes "\<forall>p \<in> offered_files ev. rd p = up_read env p"
  shows "serve_loop (env\<lparr>up_read := rd\<rparr>) ev json st = serve_loop env ev json st"
  using assms
proof (induction env ev json st rule: serve_loop.induct)
  case (1 env ev json st)
  show ?case
    using 1
    by (auto simp: serve_loop.simps [of env ev json st] serve_loop.simps [of "env\<lparr>up_read := rd\<rparr>" ev json st]
        run_loop_reads_offered split: prod.split outcome.split run_loop_result.split)
qed

definition demo_upload :: upload_env where
  "demo_upload = \<lparr>up_crypto = null_env, up_ids = demo_ids, up_dbg = False, up_disk = demo_dirs, up_fuel = 10,
     up_read = (\<lambda>p. if p = ''/s/a'' then Some [7, 9] else Some [1]), up_to_json = (\<lambda>_. ''json''),
     up_net = demo_net \<lparr>t_in = [], t_out = [], t_room = None\<rparr>\<rparr>"

definition demo_offer :: shared_file where
  "demo_offer = SharedFile ''everything/'' True [SharedFile ''/s/a'' False [] 2 []] 2 []"

definition idle_connection :: "single_uploader \<times> encrypted_stream" where
  "idle_connection = (new_single_uploader [] demo_cfg new_channel [], null_stream [])"

theorem only_offered_files_leave_witness:
  "serve_loop (demo_upload\<lparr>up_read := (\<lambda>p. if p = ''/s/a'' then Some [7, 9] else None)\<rparr>) demo_offer [] idle_connection
     = serve_loop demo_upload demo_offer [] idle_connection"
  by (rule only_offered_files_leave) (auto simp: offered_files_def demo_offer_def demo_upload_def)

subsection \<open>Who is served\<close>

lemma conn_send_stream: "snd (snd (on_su m st)) = snd st"
  by (simp add: on_su_def split: prod.split)

lemma send_app_alive: "ch_alive (snd (send_app m ch)) = ch_alive ch" "fst (send_app m ch) = Ok () \<longleftrightarrow> ch_alive ch"
  by (auto simp: send_app_def ch_send_def)

lemma resolve_alive: "ch_alive (snd (resolve_address net host port u ch)) = ch_alive ch"
  by (simp add: resolve_address_def send_app_ok_def send_app_alive split: option.split)

lemma retained_alive: "ch_alive (snd (retained_users net ip v6 us ch)) = ch_alive ch"
proof (induction us arbitrary: ch)
  case (Cons u us)
  obtain r ch1 where r: "resolve_address net (su_ip u) ''0'' u ch = (r, ch1)" by (metis prod.exhaust)
  obtain kept ch2 where k: "retained_users net ip v6 us ch1 = (kept, ch2)" by (metis prod.exhaust)
  show ?case
    using Cons [of ch1] r k resolve_alive [of net "su_ip u" "''0''" u ch] by simp
qed simp



subsection \<open>No peer ends the process\<close>

lemma no_exit_result: "no_exit m \<Longrightarrow> m s = (r, s') \<Longrightarrow> r \<noteq> Exit x"
  by (auto simp: no_exit_def) (metis fst_conv)

lemma slice_not_Exit: "slice i j xs \<noteq> Exit x"
  by (simp add: slice_def)

lemma es_queries_not_Exit: "get_message es \<noteq> Exit x" "get_payload env es \<noteq> Exit x" "payload_size es \<noteq> Exit x"
  by (auto simp: get_message_def get_payload_def payload_size_def and_then_Exit slice_not_Exit Let_def split: if_splits)

lemma es_parts_no_exit [no_exit_intros]:
  "no_exit (es_read_stream n)" "no_exit (es_decrypt_to env n off err)" "no_exit increment_nonce"
  "no_exit (es_copy off src)" "no_exit (es_encrypt_out env n err)"
  by (auto simp: no_exit_def es_read_stream_def es_decrypt_to_def increment_nonce_def es_copy_def es_encrypt_out_def
      es_write_stream_def read_exact_def write_all_def copy_at_def split: option.splits outcome.splits)

lemma es_no_exit [no_exit_intros]: "no_exit (es_read env)" "no_exit (es_write env m p)"
  unfolding es_read_def es_write_def es_write_message_def es_write_payload_def Let_def
  by (intro no_exit_intros no_exit_query es_queries_not_Exit)+

lemma on_ul_no_exit [no_exit_intros]: "no_exit m \<Longrightarrow> no_exit (on_ul m)" "no_exit n \<Longrightarrow> no_exit (on_ues n)"
  by (auto simp: no_exit_def on_ul_def on_ues_def split: prod.split) (metis fst_conv)+

lemma ul_send_no_exit [no_exit_intros]: "no_exit (ul_send m)"
  by (auto simp: no_exit_def ul_send_def send_app_def split: option.split)

lemma ul_polls_no_exit: "no_exit (ul_read_polls ps)"
  by (induction ps) (auto intro!: no_exit_intros split: upload_poll.split)

lemma told_no_exit [no_exit_intros]: "no_exit told_to_stop"
  unfolding told_to_stop_def ul_read_receiver_def by (intro no_exit_intros ul_polls_no_exit)

lemma list_loop_no_exit: "no_exit (list_loop env rest)"
proof (induction env rest rule: list_loop.induct)
  case (1 env rest)
  show ?case
  proof (cases "MAX_DATA_SIZE < length rest")
    case True
    with 1 have "no_exit (list_loop env (drop MAX_DATA_SIZE rest))" by blast
    with True show ?thesis by (subst list_loop.simps) (auto intro!: no_exit_intros)
  next
    case False
    then show ?thesis
      by (subst list_loop.simps) (auto simp: remember_list_sent_def intro!: no_exit_intros)
  qed
qed

lemma step_no_exit: "no_exit (send_step env f path rest current)"
proof -
  have "no_exit (read_some rest)" by (auto simp: no_exit_def read_some_def split: list.split)
  then show ?thesis
    unfolding send_step_def throttled_upload_def upload_state_def Let_def
    by (auto intro!: no_exit_intros split: list.split)
qed

lemma send_loop_no_exit: "no_exit (send_loop env f path rest current)"
proof (rule no_exitI)
  show "fst (send_loop env f path rest current st) \<noteq> Exit x" for st x
  proof (induction env f path rest current st rule: send_loop.induct)
    case (1 env f path rest current st)
    obtain r st1 where s: "send_step env f path rest current st = (r, st1)" by (metis prod.exhaust)
    with 1 [OF s [symmetric]] no_exit_result [OF step_no_exit s] show ?case
      by (subst send_loop.simps) (auto split: outcome.split)
  qed
qed

lemma serve_no_exit: "no_exit (send_list env json)" "no_exit (serve_selection env ev)"
proof -
  have r: "ok_or e v \<noteq> Exit x" "from_utf8 bs \<noteq> Exit x" for e :: error and v :: "bytes option" and x bs
    by (cases v) (auto simp: from_utf8_def)
  have choice: "no_exit (serve_choice env ev choice n)" for choice n
    unfolding serve_choice_def send_file_def upload_state_def
    by (auto intro!: no_exit_intros no_exit_lift send_loop_no_exit r split: option.split)
  show "no_exit (send_list env json)" "no_exit (serve_selection env ev)"
    unfolding send_list_def serve_selection_def
    by (auto intro!: no_exit_intros no_exit_lift no_exit_query list_loop_no_exit choice
        simp: r slice_not_Exit es_queries_not_Exit split: prod.split)
qed

lemma run_loop_no_exit: "no_exit (run_loop env ev json)"
  unfolding run_loop_def
  by (auto intro!: no_exit_intros no_exit_query serve_no_exit simp: es_queries_not_Exit split: prod.split)

lemma serve_loop_no_exit: "no_exit (serve_loop env ev json)"
proof (rule no_exitI)
  show "fst (serve_loop env ev json st) \<noteq> Exit x" for st x
  proof (induction env ev json st rule: serve_loop.induct)
    case (1 env ev json st)
    obtain r st1 where t: "told_to_stop st = (r, st1)" by (metis prod.exhaust)
    obtain r2 st2 where s: "run_loop env ev json st1 = (r2, st2)" by (metis prod.exhaust)
    from t s "1.IH" [OF t [symmetric]] no_exit_result [OF told_no_exit t] no_exit_result [OF run_loop_no_exit s]
    show ?case
      by (subst serve_loop.simps) (auto split: outcome.split run_loop_result.split)
  qed
qed

lemma fuel_bind_not_Exit:
  "(\<And>x. m \<noteq> Some (Exit x)) \<Longrightarrow> (\<And>y x. m = Some (Ok y) \<Longrightarrow> f y \<noteq> Some (Exit x)) \<Longrightarrow> fuel_bind m f \<noteq> Some (Exit x)"
  by (auto simp: fuel_bind_def split: option.split outcome.split)

lemma nodes_not_Exit: "entry_node disk p \<noteq> Exit x" "push_node dbg n f \<noteq> Exit x" "add_u64 dbg a b \<noteq> Exit x"
proof -
  have m: "metadata disk p \<noteq> Exit x" for x by (cases "de_meta disk p") (simp_all add: metadata_def)
  show "entry_node disk p \<noteq> Exit x"
    using m by (auto simp: entry_node_def and_then_Exit)
  show "push_node dbg n f \<noteq> Exit x" "add_u64 dbg a b \<noteq> Exit x"
    by (auto simp: push_node_def add_u64_def and_then_Exit)
qed

lemma process_not_Exit:
  "process_shared_file dbg disk dir fuel f \<noteq> Some (Exit x)"
  "process_entries dbg disk dir fuel es f \<noteq> Some (Exit x)"
proof (induction dbg disk dir fuel f and dbg disk dir fuel es f arbitrary: x and x rule: process_shared_file_process_entries.induct)
  case (4 dbg disk dir fuel e es f)
  show ?case
  proof (cases e)
    case (EntryPath p)
    show ?thesis
    proof (cases "contains_str dir p")
      case True
      with EntryPath 4 show ?thesis by (simp add: process_entries.simps(2))
    next
      case False
      have "fuel_bind (Some (entry_node disk p)) (\<lambda>node.
            fuel_bind
              (if sf_is_directory node then process_shared_file dbg disk dir fuel node
               else Some (Ok node)) (\<lambda>new.
            fuel_bind (Some (push_node dbg new f)) (\<lambda>f'.
              process_entries dbg disk dir fuel es f'))) \<noteq> Some (Exit x)"
        using 4(2,3) EntryPath False nodes_not_Exit
        by (intro fuel_bind_not_Exit) (auto split: if_splits)
      with EntryPath False show ?thesis by (simp add: process_entries.simps(2))
    qed
  qed (simp_all add: process_entries.simps(2))
qed (auto split: option.split)

lemma everything_loop_not_Exit: "fst (everything_loop dbg disk fuel dir n fs ev ch) \<noteq> Some (Exit x)"
proof (induction fs arbitrary: ev ch)
  case (Cons f fs)
  have new: "fuel_bind (process_shared_file dbg disk dir fuel g)
      (\<lambda>new. Some (and_then (add_u64 dbg (sf_file_size ev) (sf_file_size new)) (\<lambda>total. Ok (h new total)))) \<noteq> Some (Exit x)"
    for g ev x and h :: "shared_file \<Rightarrow> u64 \<Rightarrow> shared_file"
    using process_not_Exit(1) nodes_not_Exit(3) by (intro fuel_bind_not_Exit) (auto simp: and_then_Exit)
  show ?case
    using Cons new by (auto simp: Let_def send_app_def split: option.split prod.split outcome.split)
qed simp

lemma build_offer_no_exit: "no_exit (build_offer env nickname)"
proof (rule no_exitI)
  fix s :: single_uploader and x
  obtain r ch where l: "everything_loop (up_dbg env) (up_disk env) (up_fuel env) (c_path_dir_config (ul_config s)) nickname
      (cf_shared_files (c_config_file (ul_config s))) (new_shared_file ''everything/'' True [] 0) (ul_app_sender s) = (r, ch)"
    by (metis prod.exhaust)
  with everything_loop_not_Exit [of "up_dbg env" "up_disk env" "up_fuel env" "c_path_dir_config (ul_config s)" nickname
      "cf_shared_files (c_config_file (ul_config s))" "new_shared_file ''everything/'' True [] 0" "ul_app_sender s"]
  have "r \<noteq> Some (Exit y)" for y by simp
  with l show "fst (build_offer env nickname s) \<noteq> Exit x"
    by (auto simp: build_offer_def get_everything_file_def fuel_bind_def split: option.split outcome.split)
qed

lemma on_su_no_exit [no_exit_intros]: "no_exit m \<Longrightarrow> no_exit (on_su m)"
  by (auto simp: no_exit_def on_su_def split: prod.split) (metis fst_conv)

lemma with_es_no_exit [no_exit_intros]: "no_exit m \<Longrightarrow> no_exit (with_es m es)"
  by (auto simp: no_exit_def with_es_def and_then_Exit split: prod.split) (metis fst_conv)

lemma with_ts_no_exit:
  "no_exit (with_ts (ts_connect ids secret) ts)" "no_exit (with_ts (ts_wait_for_incoming ids secret) ts)"
proof -
  have "fst (with_ts m ts st) \<noteq> Exit x" if "\<And>y. fst (m ts) \<noteq> Exit y" for m st x
    using that by (cases "m ts"; cases "fst (m ts)") (auto simp: with_ts_def split: outcome.split)
  then show "no_exit (with_ts (ts_connect ids secret) ts)" "no_exit (with_ts (ts_wait_for_incoming ids secret) ts)"
    using handshake_never_exits [of ids secret ts] by (auto intro!: no_exitI)
qed

lemma shake_no_exit: "no_exit (shake_hands env ip users rev_user)"
  unfolding shake_hands_def Let_def
  by (auto intro!: no_exit_intros no_exit_lift with_ts_no_exit simp: new_transmitic_stream_def split: option.split if_splits)

lemma serve_user_no_exit: "no_exit (serve_user env ip es)"
proof -
  have "no_exit (ul_send_unwrap m)" for m
    by (auto simp: no_exit_def ul_send_unwrap_def split: prod.split outcome.split)
  then show ?thesis
    unfolding serve_user_def
    by (auto intro!: no_exit_intros build_offer_no_exit serve_loop_no_exit split: run_loop_result.split)
qed

lemma verified_modes:
  "verify_config host c0 = Ok c \<Longrightarrow> \<not> (cf_ignore_incoming c \<and> cf_reverse_connection c)"
  by (auto simp: verify_config_def Let_def and_then_Ok_iff verify_ignore_and_reverse_def)

lemma admit_not_Exit:
  assumes "\<not> (cf_ignore_incoming (c_config_file (ul_config s)) \<and> reverse_user \<noteq> None)"
  shows "fst (admit_users env ip v6 reverse_user s) \<noteq> Exit x"
proof -
  have n: "ul_send m s' \<noteq> (Exit y, s'')" for m s' y s''
    using no_exit_run [OF ul_send_no_exit] .
  show ?thesis
    using assms n
    by (auto simp: admit_users_def io_self_def Let_def io_bind_def io_mod_def io_ok_def io_lift_def
        split: option.split prod.split outcome.split)
qed

lemma serve_admitted_no_exit:
  "no_exit (case admitted of
        None \<Rightarrow> io_ok Served
      | Some users \<Rightarrow>
          io_bind (shake_hands env ip users reverse_user) (\<lambda>es.
          io_then (on_su (io_mod (\<lambda>s. s\<lparr>ul_nickname := su_nickname (es_shared_user es)\<rparr>)))
          (if \<not> su_allowed (es_shared_user es) then io_then (on_su process_not_allowed) (io_ok Served)
           else serve_user env ip es)))"
  unfolding process_not_allowed_def
  by (cases admitted) (auto intro!: no_exit_intros shake_no_exit serve_user_no_exit)

lemma io_bind_Exit_cases:
  "io_bind m f s = (Exit x, t) \<Longrightarrow> m s = (Exit x, t) \<or> (\<exists>a s'. m s = (Ok a, s') \<and> f a s' = (Exit x, t))"
  by (auto simp: io_bind_def split: prod.splits outcome.splits)

text \<open>
  C30. No peer can end the process: with a configuration that has passed \<open>verify_config\<close>, and reverse
  connections made only when they are switched on, serving a connection never calls \<open>exit\<close>,
  whatever the peer sends.
\<close>

theorem uploader_never_exits:
  assumes "verify_config host c0 = Ok (c_config_file (ul_config s))"
    and "reverse_user \<noteq> None \<longrightarrow> cf_reverse_connection (c_config_file (ul_config s))"
  shows "fst (uploader_run env peer reverse_user (s, t)) \<noteq> Exit x"
proof -
  let ?cf = "c_config_file (ul_config s)"
  have modes: "\<not> (cf_ignore_incoming ?cf \<and> cf_reverse_connection ?cf)"
    using assms(1) by (rule verified_modes)
  show ?thesis
  proof (cases peer)
    case (Some p)
    obtain ip v6 where p: "p = (ip, v6)" by (cases p)
    show ?thesis
    proof
      assume "fst (uploader_run env peer reverse_user (s, t)) = Exit x"
      then obtain st where "uploader_run env peer reverse_user (s, t) = (Exit x, st)" by (metis prod.collapse)
      then obtain u st1 where l: "on_su (ul_send (LogInfo (''Incoming Connecting: '' @ ip, None))) (s, t) = (Ok u, st1)"
        and "io_bind (on_su (admit_users env ip v6 reverse_user)) (\<lambda>admitted. case admitted of
            None \<Rightarrow> io_ok Served
          | Some users \<Rightarrow>
              io_bind (shake_hands env ip users reverse_user) (\<lambda>es.
              io_then (on_su (io_mod (\<lambda>s. s\<lparr>ul_nickname := su_nickname (es_shared_user es)\<rparr>)))
              (if \<not> su_allowed (es_shared_user es) then io_then (on_su process_not_allowed) (io_ok Served)
               else serve_user env ip es))) st1 = (Exit x, st)"
        unfolding uploader_run_def Some p
        by (auto simp: io_lift_def io_bind_Ok elim!: io_bind_ExitE [OF _ on_su_no_exit [OF ul_send_no_exit]])
      from io_bind_Exit_cases [OF this(2)] no_exit_run [OF serve_admitted_no_exit]
      have "fst (admit_users env ip v6 reverse_user (fst st1)) = Exit x"
        by (auto simp: on_su_def split: prod.splits)
      moreover from l have "c_config_file (ul_config (fst st1)) = ?cf"
        by (auto simp: on_su_def ul_send_def split: prod.splits)
      ultimately show False
        using admit_not_Exit [of "fst st1" reverse_user env ip v6 x] modes assms(2) by auto
    qed
  qed (simp add: uploader_run_def io_bind_def io_lift_def)
qed

theorem uploader_never_exits_witness:
  "fst (uploader_run demo_upload (Some (''10.0.0.1'', False)) None
     (new_single_uploader [] demo_cfg new_channel [], \<lparr>t_in = [1], t_out = [], t_room = None\<rparr>)) \<noteq> Exit 7"
  by (rule uploader_never_exits [of demo_host demo_config])
    (simp_all add: new_single_uploader_def demo_cfg_def demo_verified)

end
