(* ===== verification/Download_Queue.thy ===== *)
theory Download_Queue
  imports Net
begin

text \<open>
  The state of a \<open>SingleDownloader\<close>, its queue and its messages, of \<open>outgoing_downloader.rs\<close>: the thread that downloads from one user. Its
  state holds its fields, the disk, the channel to the app loop and what the outside will
  answer: \<open>sd_polls\<close> are the results of the next calls of \<open>try_recv\<close>, \<open>sd_progress_due\<close> whether
  more than a second has passed at the next throttled updates. Byte counters are natural numbers: they are bounded by what is on
  the disk and on the wire.
\<close>

subsection \<open>Messages and state\<close>

definition MAX_EVERYTHING_FILE_SIZE :: nat where "MAX_EVERYTHING_FILE_SIZE = 100000000"

definition MAX_RETRY_SLEEP :: "bool \<Rightarrow> nat" where "MAX_RETRY_SLEEP dbg = (if dbg then 5 else 30)"

record download_queue_item =
  dq_path :: string
  dq_file_size :: u64

datatype message_single_downloader =
    NewConfig config
  | NewSharedUser shared_user
  | NewDownload download_queue_item
  | CancelAllDownloads
  | CancelDownload string
  | PauseDownloads
  | ResumeDownloads
  | RemoveUser
  | RestartConnection

text \<open>The receiving end of a refresh: nothing yet, a message, or the sender gone without one.\<close>

datatype refresh_rx = RxEmpty | RxFileData "remark + shared_file" | RxDisconnected

record internal_refresh_data =
  ird_error :: "remark option"
  ird_data :: "shared_file option"
  ird_recv :: "refresh_rx option"

definition new_internal_refresh_data :: internal_refresh_data where
  "new_internal_refresh_data = \<lparr>ird_error = Some (''Refresh'', None), ird_data = None, ird_recv = None\<rparr>"

datatype rev_poll = RevEmpty | RevConnection encrypted_stream | RevClosed
datatype msg_poll = MsgEmpty | MsgReceived message_single_downloader | MsgClosed

record single_downloader =
  sd_polls :: "(rev_poll \<times> msg_poll) list"
  sd_shared_user :: shared_user
  sd_path_queue_file :: string
  sd_download_queue :: "download_queue_item list"
  sd_is_downloading_paused :: bool
  sd_stop_downloading :: bool
  sd_app_sender :: app_channel
  sd_active_download_path :: "download_queue_item option"
  sd_active_download_size :: nat
  sd_active_downloaded_current_bytes :: nat
  sd_active_download_local_path :: "string option"
  sd_active_download_total_size :: string
  sd_shutdown :: bool
  sd_progress_due :: "bool list"
  sd_reverse_connection :: "encrypted_stream option"
  sd_refresh_data :: "string \<Rightarrow> internal_refresh_data option"
  sd_config :: config
  sd_fs :: file_sys

type_synonym 'a sd_op = "(single_downloader, error, 'a) io"
type_synonym 'a dl_op = "(single_downloader \<times> encrypted_stream, error, 'a) io"

definition sd_send :: "app_agg_message \<Rightarrow> unit sd_op" where
  "sd_send m s = (case send_app m (sd_app_sender s) of (r, ch) \<Rightarrow> (r, s\<lparr>sd_app_sender := ch\<rparr>))"

definition sd_on_fs :: "'a fs_op \<Rightarrow> 'a sd_op" where
  "sd_on_fs m s = (case m (sd_fs s) of (r, fs) \<Rightarrow> (r, s\<lparr>sd_fs := fs\<rparr>))"

definition on_sd :: "'a sd_op \<Rightarrow> 'a dl_op" where
  "on_sd m st = (case m (fst st) of (r, s) \<Rightarrow> (r, (s, snd st)))"

definition on_es :: "'a es_op \<Rightarrow> 'a dl_op" where
  "on_es m st = (case m (snd st) of (r, es) \<Rightarrow> (r, (fst st, es)))"

abbreviation nick :: "single_downloader \<Rightarrow> string" where
  "nick s \<equiv> su_nickname (sd_shared_user s)"

abbreviation sd_log :: "(remark \<Rightarrow> app_agg_message) \<Rightarrow> (single_downloader \<Rightarrow> string) \<Rightarrow> unit sd_op" where
  "sd_log level f \<equiv> io_self (\<lambda>s. sd_send (level (f s, None)))"

subsection \<open>The queue on the disk\<close>

definition queue_line :: "download_queue_item \<Rightarrow> string" where
  "queue_line q = show_nat (unat (dq_file_size q)) @ '':'' @ dq_path q"

definition queue_text :: "download_queue_item list \<Rightarrow> string" where
  "queue_text qs = concat (map (\<lambda>q. queue_line q @ [newline]) qs)"

definition write_queue_file :: "unit sd_op" where
  "write_queue_file =
     io_self (\<lambda>s. sd_on_fs (fs_write (sd_path_queue_file s) (as_bytes (queue_text (sd_download_queue s)))))"

definition write_queue :: "unit sd_op" where
  "write_queue s =
     (if sd_download_queue s = [] then
        (case sd_on_fs (fs_remove_file (sd_path_queue_file s)) s of
           (Err (IoError NotFound), s') \<Rightarrow> (Ok (), s')
         | (Err e, s') \<Rightarrow>
             io_then write_queue_file
               (sd_send (LogError (''Failed to delete queue file '' @ sd_path_queue_file s, Some e))) s'
         | r \<Rightarrow> r)
      else write_queue_file s)"

text \<open>One line of the queue file: empty lines are skipped, the path may hold colons.\<close>

definition parse_queue_line :: "string \<Rightarrow> string \<Rightarrow> (error, download_queue_item option) outcome" where
  "parse_queue_line nickname line0 =
     (let line = trim line0 in
      if line = [] then Ok None
      else
        (let parts = split_on (CHR '':'') line in
         if length parts < 2 then Err (TransferError (QueueLineInvalid nickname line))
         else (case parse_unsigned (2 ^ 64 - 1) (hd parts) of
                 None \<Rightarrow> Err (TransferError (QueueSizeInvalid nickname line))
               | Some n \<Rightarrow> Ok (Some \<lparr>dq_path = join_with (CHR '':'') (tl parts), dq_file_size = of_nat n\<rparr>))))"

definition initialize_download_queue :: "unit sd_op" where
  "initialize_download_queue =
     io_then (io_mod (\<lambda>s. s\<lparr>sd_download_queue := []\<rparr>))
     (io_self (\<lambda>s.
        case fst (fs_read_to_string (sd_path_queue_file s) (sd_fs s)) of
          Ok contents \<Rightarrow>
            io_for (\<lambda>line.
              io_bind (io_lift (parse_queue_line (nick s) line)) (\<lambda>item.
                case item of
                  None \<Rightarrow> io_ok ()
                | Some q \<Rightarrow> io_mod (\<lambda>s. s\<lparr>sd_download_queue := sd_download_queue s @ [q]\<rparr>)))
              (str_lines contents)
        | _ \<Rightarrow> io_ok ()))"

subsection \<open>Reports to the app loop\<close>

definition get_queue_without_active :: "single_downloader \<Rightarrow> string list" where
  "get_queue_without_active s =
     map dq_path (case sd_active_download_path s of
        Some p \<Rightarrow> filter (\<lambda>q. dq_path q \<noteq> dq_path p) (sd_download_queue s)
      | None \<Rightarrow> sd_download_queue s)"

definition app_update_offline :: "unit sd_op" where
  "app_update_offline =
     io_self (\<lambda>s. sd_send (Offline \<lparr>om_nickname = nick s, om_download_queue = map dq_path (sd_download_queue s)\<rparr>))"

definition app_update_in_progress :: "unit sd_op" where
  "app_update_in_progress =
     io_self (\<lambda>s. sd_send (InProgress
       \<lparr>ipm_nickname = nick s, ipm_path = map_option dq_path (sd_active_download_path s),
        ipm_percent = f64_percent (sd_active_downloaded_current_bytes s) (sd_active_download_size s),
        ipm_download_queue = get_queue_without_active s,
        ipm_path_local_disk = sd_active_download_local_path s,
        ipm_size_string = sd_active_download_total_size s\<rparr>))"

definition app_update_completed :: "string \<Rightarrow> string \<Rightarrow> string \<Rightarrow> unit sd_op" where
  "app_update_completed path path_local_disk size_text =
     io_self (\<lambda>s. sd_send (Completed
       \<lparr>cm_nickname = nick s, cm_path = path, cm_download_queue = get_queue_without_active s,
        cm_path_local_disk = path_local_disk, cm_size_string = size_text\<rparr>))"

definition app_update_invalid_file :: "string \<Rightarrow> string \<Rightarrow> unit sd_op" where
  "app_update_invalid_file path message =
     io_self (\<lambda>s. sd_send (InvalidFile
       \<lparr>ivm_nickname = nick s, ivm_active_path = map_option dq_path (sd_active_download_path s),
        ivm_invalid_path = path, ivm_download_queue = get_queue_without_active s, ivm_message = message\<rparr>))"

definition set_active_download_finished :: "unit sd_op" where
  "set_active_download_finished =
     io_then (io_mod (\<lambda>s. s\<lparr>sd_download_queue := tl (sd_download_queue s)\<rparr>))
     (io_then write_queue (io_mod (\<lambda>s. s\<lparr>sd_active_download_path := None\<rparr>)))"

subsection \<open>Messages from the manager\<close>

fun handle_message :: "message_single_downloader \<Rightarrow> unit sd_op" where
  "handle_message (NewDownload q) =
     io_then (io_mod (\<lambda>s. s\<lparr>sd_download_queue := sd_download_queue s @ [q]\<rparr>))
     (io_then write_queue
       (sd_log LogDebug (\<lambda>s. ''Downloader new download '' @ nick s @ '' - '' @ dq_path q)))"
| "handle_message (CancelDownload p) =
     io_then (io_mod (\<lambda>s. s\<lparr>sd_stop_downloading := True,
         sd_download_queue := filter (\<lambda>q. dq_path q \<noteq> p) (sd_download_queue s),
         sd_active_download_path := (case sd_active_download_path s of
             Some a \<Rightarrow> if dq_path a = p then None else Some a | None \<Rightarrow> None)\<rparr>))
     (io_then write_queue
     (io_then app_update_in_progress
       (sd_log LogDebug (\<lambda>s. ''Downloader cancel download '' @ nick s @ '' - '' @ p))))"
| "handle_message PauseDownloads =
     io_then (io_mod (\<lambda>s. s\<lparr>sd_stop_downloading := True, sd_is_downloading_paused := True\<rparr>))
       (sd_log LogDebug (\<lambda>s. ''Downloader pause '' @ nick s))"
| "handle_message ResumeDownloads =
     io_then (io_mod (\<lambda>s. s\<lparr>sd_is_downloading_paused := False\<rparr>))
       (sd_log LogDebug (\<lambda>s. ''Downloader resume '' @ nick s))"
| "handle_message CancelAllDownloads =
     io_then (io_mod (\<lambda>s. s\<lparr>sd_stop_downloading := True, sd_download_queue := [],
         sd_active_download_path := None\<rparr>))
     (io_then write_queue
     (io_then app_update_in_progress
       (sd_log LogDebug (\<lambda>s. ''Downloader cancel all downloads '' @ nick s))))"
| "handle_message RemoveUser =
     io_then (io_mod (\<lambda>s. s\<lparr>sd_shutdown := True, sd_stop_downloading := True, sd_download_queue := [],
         sd_active_download_path := None\<rparr>))
     (io_then write_queue (sd_log LogDebug (\<lambda>s. ''Downloader remove '' @ nick s)))"
| "handle_message (NewSharedUser u) =
     io_then (io_mod (\<lambda>s. s\<lparr>sd_stop_downloading := True, sd_shared_user := u\<rparr>))
       (sd_log LogDebug (\<lambda>s. ''Downloader update user '' @ nick s))"
| "handle_message RestartConnection =
     io_then (io_mod (\<lambda>s. s\<lparr>sd_stop_downloading := True\<rparr>))
       (sd_log LogDebug (\<lambda>s. ''Restart Downloader '' @ nick s))"
| "handle_message (NewConfig c) =
     io_then (io_mod (\<lambda>s. s\<lparr>sd_stop_downloading := True, sd_config := c\<rparr>))
       (sd_log LogDebug (\<lambda>s. ''Downloader update config '' @ nick s))"

fun handle_rev :: "rev_poll \<Rightarrow> unit sd_op" where
  "handle_rev RevEmpty = io_ok ()"
| "handle_rev (RevConnection es) =
     io_mod (\<lambda>s. s\<lparr>sd_stop_downloading := True, sd_reverse_connection := Some es\<rparr>)"
| "handle_rev RevClosed = io_lift (Err (TransferError ReceiverDisconnected))"

text \<open>The loop: both channels are polled until the second is empty.\<close>

fun read_polls :: "(rev_poll \<times> msg_poll) list \<Rightarrow> unit sd_op" where
  "read_polls [] = io_ok ()"
| "read_polls ((rv, msg) # ps) =
     io_then (io_mod (\<lambda>s. s\<lparr>sd_polls := ps\<rparr>))
     (io_then (handle_rev rv)
       (case msg of
          MsgEmpty \<Rightarrow> io_ok ()
        | MsgClosed \<Rightarrow> io_lift (Err (TransferError ReceiverDisconnected))
        | MsgReceived m \<Rightarrow> io_then (handle_message m) (read_polls ps)))"

definition read_receiver :: "unit sd_op" where
  "read_receiver = io_self (\<lambda>s. read_polls (sd_polls s))"

subsection \<open>The queue file follows the queue\<close>

definition disk_writes :: "single_downloader \<Rightarrow> bool" where
  "disk_writes s \<longleftrightarrow> fs_room (sd_fs s) = None \<and> fs_may_write (path_iter (sd_path_queue_file s)) (sd_fs s)"

definition queue_on_disk :: "single_downloader \<Rightarrow> bool" where
  "queue_on_disk s \<longleftrightarrow> fs_files (sd_fs s) (path_iter (sd_path_queue_file s)) =
     (if sd_download_queue s = [] then None else Some (as_bytes (queue_text (sd_download_queue s))))"

definition queue_synced :: "single_downloader \<Rightarrow> bool" where
  "queue_synced s \<longleftrightarrow> disk_writes s \<and> queue_on_disk s"

lemma write_queue_runs:
  assumes "disk_writes s"
  shows "\<exists>fs. write_queue s = (Ok (), s\<lparr>sd_fs := fs\<rparr>) \<and> queue_synced (s\<lparr>sd_fs := fs\<rparr>)"
proof -
  from assms have d: "fs_room (sd_fs s) = None" "fs_may_write (path_iter (sd_path_queue_file s)) (sd_fs s)"
    by (simp_all add: disk_writes_def)
  show ?thesis
  proof (cases "sd_download_queue s")
    case Nil
    show ?thesis
    proof (cases "fs_files (sd_fs s) (path_iter (sd_path_queue_file s))")
      case None
      with d Nil show ?thesis
        by (auto simp: write_queue_def sd_on_fs_def fs_remove_file_def queue_synced_def queue_on_disk_def
            disk_writes_def fs_may_write_def intro!: exI [of _ "sd_fs s"])
    next
      case (Some bs)
      with d Nil show ?thesis
        by (auto simp: write_queue_def sd_on_fs_def fs_remove_file_def queue_synced_def queue_on_disk_def
            disk_writes_def fs_may_write_def)
    qed
  next
    case (Cons q qs)
    let ?p = "path_iter (sd_path_queue_file s)"
    let ?fs = "(sd_fs s)\<lparr>fs_files := (fs_files (sd_fs s))(?p := Some (as_bytes (queue_text (sd_download_queue s))))\<rparr>"
    have "write_queue s = (Ok (), s\<lparr>sd_fs := ?fs\<rparr>)"
      using d Cons by (simp add: write_queue_def write_queue_file_def io_self_def sd_on_fs_def fs_write_def fs_put_def)
    moreover have "queue_synced (s\<lparr>sd_fs := ?fs\<rparr>)"
      using d Cons by (simp add: queue_synced_def queue_on_disk_def disk_writes_def fs_may_write_def)
    ultimately show ?thesis by blast
  qed
qed

text \<open>Changes of other fields, and reports.\<close>

lemmas synced_defs = queue_synced_def disk_writes_def queue_on_disk_def

lemma sd_send_state: "\<exists>ch. snd (sd_send m s) = s\<lparr>sd_app_sender := ch\<rparr>"
  by (auto simp: sd_send_def split: prod.split)

lemma keeps_send:
  assumes "\<And>s ch. P s \<Longrightarrow> P (s\<lparr>sd_app_sender := ch\<rparr>)"
  shows "keeps P (sd_send m)"
proof (rule keepsI)
  fix s assume "P s"
  moreover obtain ch where "snd (sd_send m s) = s\<lparr>sd_app_sender := ch\<rparr>" using sd_send_state by blast
  ultimately show "P (snd (sd_send m s))" using assms by simp
qed

lemma synced_send [keeps_intros]: "keeps queue_synced (sd_send m)"
  by (rule keeps_send) (simp add: synced_defs)

lemma synced_in_progress [keeps_intros]: "keeps queue_synced app_update_in_progress"
  unfolding app_update_in_progress_def by (intro keeps_intros)

lemma synced_mod [keeps_intros]:
  "(\<And>s. sd_fs (f s) = sd_fs s \<and> sd_path_queue_file (f s) = sd_path_queue_file s
        \<and> sd_download_queue (f s) = sd_download_queue s) \<Longrightarrow> keeps queue_synced (io_mod f)"
  by (rule keeps_mod) (simp add: synced_defs)

text \<open>The queue may change when it is written right after.\<close>

lemma synced_update:
  assumes "\<And>s. sd_fs (f s) = sd_fs s \<and> sd_path_queue_file (f s) = sd_path_queue_file s"
    and "keeps queue_synced m"
  shows "keeps queue_synced (io_then (io_mod f) (io_then write_queue m))"
proof (rule keepsI)
  fix s assume "queue_synced s"
  with assms(1) have "disk_writes (f s)" by (simp add: queue_synced_def disk_writes_def)
  from write_queue_runs [OF this] obtain fs where
    "write_queue (f s) = (Ok (), (f s)\<lparr>sd_fs := fs\<rparr>)" "queue_synced ((f s)\<lparr>sd_fs := fs\<rparr>)" by blast
  with assms(2) show "queue_synced (snd (io_then (io_mod f) (io_then write_queue m) s))"
    by (simp add: io_bind_def io_mod_def keeps_def)
qed

lemma synced_message [keeps_intros]: "keeps queue_synced (handle_message m)"
  by (cases m) (simp_all, (intro keeps_intros synced_update; simp)+)

lemma synced_rev [keeps_intros]: "keeps queue_synced (handle_rev rv)"
  by (cases rv) (auto intro!: keeps_intros)

lemma synced_polls [keeps_intros]: "keeps queue_synced (read_polls ps)"
  by (induction ps rule: read_polls.induct) (auto intro!: keeps_intros split: msg_poll.split)

lemma synced_finished [keeps_intros]: "keeps queue_synced set_active_download_finished"
  unfolding set_active_download_finished_def by (intro synced_update keeps_intros) simp_all

lemma synced_receiver [keeps_intros]: "keeps queue_synced read_receiver"
  unfolding read_receiver_def by (intro keeps_intros)

interpretation queue_machine: event_machine "\<lambda>s ps. snd (read_polls ps s)" queue_synced
  by unfold_locales (rule keepsD [OF synced_polls])

text \<open>
  C20. The queue file is the queue: from a state where the file holds the queue (and is gone when the
  queue is empty) and the disk takes writes, it holds the queue again after any number of rounds
  of messages, even when a round ends in an error.
\<close>

theorem queue_file_follows:
  assumes "queue_on_disk s" and "disk_writes s"
  shows "queue_on_disk (foldl (\<lambda>s ps. snd (read_polls ps s)) s rounds)"
  using queue_machine.run_inv [of s rounds] assms by (simp add: queue_synced_def)

definition demo_downloader :: "file_sys \<Rightarrow> config \<Rightarrow> single_downloader" where
  "demo_downloader fs c =
     \<lparr>sd_polls = [], sd_shared_user = demo_user ''bob'' (encode [2]), sd_path_queue_file = ''/c/bob.txt'',
      sd_download_queue = [], sd_is_downloading_paused = False, sd_stop_downloading = False,
      sd_app_sender = new_channel, sd_active_download_path = None, sd_active_download_size = 0,
      sd_active_downloaded_current_bytes = 0, sd_active_download_local_path = None,
      sd_active_download_total_size = [], sd_shutdown = False, sd_progress_due = [],
      sd_reverse_connection = None, sd_refresh_data = (\<lambda>_. None), sd_config = c, sd_fs = fs\<rparr>"

lemma demo_queue_path: "path_iter ''/c/bob.txt'' = [''/'', ''c'', ''bob.txt'']"
  by code_simp

lemma demo_synced: "queue_on_disk (demo_downloader demo_fs c)" "disk_writes (demo_downloader demo_fs c)"
  by (simp_all add: queue_on_disk_def disk_writes_def demo_downloader_def demo_fs_def demo_queue_path fs_may_write_def)

theorem queue_file_follows_witness:
  "queue_on_disk (snd (read_polls [(RevEmpty, MsgReceived (NewDownload \<lparr>dq_path = ''/a'', dq_file_size = 5\<rparr>)),
     (RevEmpty, MsgReceived (CancelDownload ''/a''))] (demo_downloader demo_fs demo_cfg)))"
  using queue_file_follows [OF demo_synced, where rounds = "[[(RevEmpty, MsgReceived (NewDownload \<lparr>dq_path = ''/a'', dq_file_size = 5\<rparr>)),
     (RevEmpty, MsgReceived (CancelDownload ''/a''))]]"]
  by simp

subsection \<open>The queue survives a restart\<close>

text \<open>Paths that a line of the file can hold: no line feed, and no white space at the end.\<close>

definition line_safe :: "string \<Rightarrow> bool" where
  "line_safe p \<longleftrightarrow> newline \<notin> set p \<and> no_ws_front (map rev ws_seqs) (rev p)"

lemma colon_not_ws: "w \<in> set ws_seqs \<Longrightarrow> CHR '':'' \<notin> set w"
proof -
  have "list_all (\<lambda>w. CHR '':'' \<notin> set w) ws_seqs" by code_simp
  then show "w \<in> set ws_seqs \<Longrightarrow> CHR '':'' \<notin> set w" by (simp add: list_all_iff)
qed

lemma colon_codes: "CHR '':'' \<noteq> char_of (13 :: nat)" "char_of (13 :: nat) \<noteq> CHR '':''"
    "CHR '':'' \<noteq> newline" "newline \<noteq> CHR '':''"
  by (code_simp)+

lemma digit_printable: "c \<in> set (show_nat n) \<Longrightarrow> printable c"
  using show_nat_chars [of c n] by (simp add: printable_def)

lemma starts_with_before:
  assumes "starts_with w (p @ c # r)" and "c \<notin> set w"
  shows "starts_with w p"
proof -
  from assms(1) have "prefix w (p @ c # r)" by (simp add: starts_with_iff_prefix)
  then have "prefix w p \<or> (\<exists>u. w = p @ u \<and> prefix u (c # r))" by (simp add: prefix_append)
  with assms(2) have "prefix w p" by (auto simp: prefix_Cons)
  then show ?thesis by (simp add: starts_with_iff_prefix)
qed

lemma queue_line_trimmed:
  assumes "line_safe (dq_path q)"
  shows "trim (queue_line q) = queue_line q"
proof (rule trimmed_id, unfold trimmed_def, rule conjI)
  let ?n = "show_nat (unat (dq_file_size q))"
  have "\<not> starts_with w (queue_line q)" if "w \<in> set ws_seqs" for w
  proof
    assume "starts_with w (queue_line q)"
    with colon_not_ws [OF that] have "starts_with w ?n"
      by (auto simp: queue_line_def intro: starts_with_before)
    moreover have "w \<noteq> []" "\<not> printable (hd w)" using ws_ends that by (auto simp: list_all_iff)
    ultimately show False using digit_printable [of "hd w" "unat (dq_file_size q)"]
      by (cases w; cases ?n) (auto simp: starts_with_def)
  qed
  then show "no_ws_front ws_seqs (queue_line q)" by (simp add: no_ws_front_def)
  have "\<not> starts_with w (rev (queue_line q))" if "w \<in> set (map rev ws_seqs)" for w
  proof
    assume "starts_with w (rev (queue_line q))"
    moreover have "CHR '':'' \<notin> set w" using that colon_not_ws by auto
    ultimately have "starts_with w (rev (dq_path q))"
      by (auto simp: queue_line_def intro: starts_with_before)
    with assms that show False by (auto simp: line_safe_def no_ws_front_def)
  qed
  then show "no_ws_front (map rev ws_seqs) (rev (queue_line q))" by (simp add: no_ws_front_def)
qed

lemma parse_queue_line_ok:
  assumes "line_safe (dq_path q)"
  shows "parse_queue_line nickname (queue_line q) = Ok (Some q)"
proof -
  have parts: "split_on (CHR '':'') (queue_line q) =
      show_nat (unat (dq_file_size q)) # split_on (CHR '':'') (dq_path q)"
    by (simp add: queue_line_def split_on_first colon_not_in_show)
  have "queue_line q \<noteq> []" by (simp add: queue_line_def)
  moreover have "parse_unsigned (2 ^ 64 - 1) (show_nat (unat (dq_file_size q))) = Some (unat (dq_file_size q))"
    by (rule parse_unsigned_show [OF unat_u64_bound])
  ultimately show ?thesis
    unfolding parse_queue_line_def queue_line_trimmed [OF assms] parts Let_def
    by (simp add: Suc_le_eq)
qed

lemma queue_line_no_cr: "line_safe (dq_path q) \<Longrightarrow> strip_cr (queue_line q) = queue_line q"
proof (rule ccontr)
  assume safe: "line_safe (dq_path q)" and "strip_cr (queue_line q) \<noteq> queue_line q"
  then have l: "last (queue_line q) = char_of (13 :: nat)" by (auto simp: strip_cr_def split: if_splits)
  have cr: "[char_of (13 :: nat)] \<in> set (map rev ws_seqs)" by code_simp
  show False
  proof (cases "dq_path q" rule: rev_cases)
    case Nil
    then show False using l colon_codes by (simp add: queue_line_def)
  next
    case (snoc p c)
    with l have "starts_with [char_of (13 :: nat)] (rev (dq_path q))" by (simp add: queue_line_def starts_with_def)
    with safe cr show False by (auto simp: line_safe_def no_ws_front_def)
  qed
qed

lemma queue_text_lines:
  assumes "\<forall>q \<in> set qs. line_safe (dq_path q)"
  shows "str_lines (queue_text qs) = map queue_line qs"
proof -
  have no_nl: "newline \<notin> set (queue_line q)" if "q \<in> set qs" for q
    using assms that colon_codes show_nat_chars [of newline "unat (dq_file_size q)"]
    by (auto simp: queue_line_def line_safe_def) (auto simp: newline_def)
  have as_lines: "queue_text qs = concat (map (\<lambda>l. l @ [newline]) (map queue_line qs))"
    by (simp add: queue_text_def comp_def)
  have "str_lines (queue_text qs) = map strip_cr (map queue_line qs)"
    unfolding as_lines by (rule str_lines_unlines) (use no_nl in auto)
  also have "\<dots> = map queue_line qs" using assms by (simp add: queue_line_no_cr)
  finally show ?thesis .
qed

definition load_line :: "string \<Rightarrow> string \<Rightarrow> unit sd_op" where
  "load_line nickname line =
     io_bind (io_lift (parse_queue_line nickname line)) (\<lambda>item.
       case item of
         None \<Rightarrow> io_ok ()
       | Some q \<Rightarrow> io_mod (\<lambda>s. s\<lparr>sd_download_queue := sd_download_queue s @ [q]\<rparr>))"

lemma load_lines:
  "\<forall>q \<in> set qs. line_safe (dq_path q) \<Longrightarrow>
     io_for (load_line nickname) (map queue_line qs) s = (Ok (), s\<lparr>sd_download_queue := sd_download_queue s @ qs\<rparr>)"
  by (induction qs arbitrary: s) (simp_all add: load_line_def parse_queue_line_ok io_simps)

lemma initialize_loads:
  assumes "fs_read_to_string (sd_path_queue_file s) (sd_fs s) = (Ok (queue_text qs), fs')"
    and "\<forall>q \<in> set qs. line_safe (dq_path q)"
  shows "initialize_download_queue s = (Ok (), s\<lparr>sd_download_queue := qs\<rparr>)"
  unfolding initialize_download_queue_def load_line_def [symmetric]
  using assms by (simp add: io_simps queue_text_lines load_lines)


definition waiting_downloader :: single_downloader where
  "waiting_downloader =
     (demo_downloader (demo_fs\<lparr>fs_files := [[''/'', ''c'', ''bob.txt''] \<mapsto> as_bytes (queue_text [\<lparr>dq_path = ''/a'', dq_file_size = 5\<rparr>])]\<rparr>)
        demo_cfg)\<lparr>sd_download_queue := [\<lparr>dq_path = ''/a'', dq_file_size = 5\<rparr>]\<rparr>"

lemma char_codes: "digit 5 = CHR ''5''" "newline \<noteq> CHR ''/''" "newline \<noteq> CHR ''a''"
  by code_simp+

lemma waiting_file: "queue_text [\<lparr>dq_path = ''/a'', dq_file_size = 5\<rparr>] = ''5:/a'' @ [newline]"
  by (simp add: queue_text_def queue_line_def show_nat.simps char_codes)

lemma waiting_synced: "queue_on_disk waiting_downloader" "disk_writes waiting_downloader"
  by (simp_all add: waiting_downloader_def demo_downloader_def queue_on_disk_def disk_writes_def demo_fs_def
      demo_queue_path fs_may_write_def)

lemma waiting_safe: "line_safe ''/a''"
proof -
  have "list_all printable (rev ''/a'')" by (simp add: printable_def)
  moreover have "list_all (\<lambda>w. w \<noteq> [] \<and> \<not> printable (hd w)) (map rev ws_seqs)"
    using ws_ends by (auto simp: list_all_iff hd_rev)
  ultimately have "no_ws_front (map rev ws_seqs) (rev ''/a'')" by (rule no_ws_printable [rotated])
  then show ?thesis using char_codes by (simp add: line_safe_def)
qed


text \<open>A path with white space at its end comes back without it.\<close>

lemma queue_line_loses_space:
  "parse_queue_line nickname (queue_line \<lparr>dq_path = ''/a '', dq_file_size = 5\<rparr>)
     = Ok (Some \<lparr>dq_path = ''/a'', dq_file_size = 5\<rparr>)"
proof -
  have "trim ''5:/a '' = ''5:/a''" by code_simp
  moreover have "parse_unsigned (2 ^ 64 - 1) ''5'' = Some 5"
    using parse_unsigned_show [of 5 "2 ^ 64 - 1"] by (simp add: show_nat.simps char_codes)
  ultimately show ?thesis
    by (simp add: parse_queue_line_def queue_line_def show_nat.simps char_codes Let_def)
qed

subsection \<open>Cancelling\<close>

definition but_channel :: "single_downloader \<Rightarrow> single_downloader \<Rightarrow> bool" where
  "but_channel s0 s \<longleftrightarrow> (\<exists>ch. s = s0\<lparr>sd_app_sender := ch\<rparr>)"

lemma reports_keep [keeps_intros]: "keeps (but_channel s0) (sd_send m)"
  by (rule keeps_send) (auto simp: but_channel_def)

lemma report_in_progress [keeps_intros]: "keeps (but_channel s0) app_update_in_progress"
  unfolding app_update_in_progress_def by (intro keeps_intros)

lemma change_then_report:
  assumes "handle_message msg = io_then (io_mod f) (io_then write_queue m)" and "f s = s1"
    and "disk_writes s1" and "\<And>s0. keeps (but_channel s0) m"
  shows "\<exists>fs ch. snd (handle_message msg s) = s1\<lparr>sd_fs := fs, sd_app_sender := ch\<rparr>
     \<and> queue_on_disk (s1\<lparr>sd_fs := fs, sd_app_sender := ch\<rparr>)"
proof -
  from write_queue_runs [OF assms(3)] obtain fs where
    w: "write_queue s1 = (Ok (), s1\<lparr>sd_fs := fs\<rparr>)" "queue_synced (s1\<lparr>sd_fs := fs\<rparr>)" by blast
  have "but_channel (s1\<lparr>sd_fs := fs\<rparr>) (s1\<lparr>sd_fs := fs\<rparr>)"
    unfolding but_channel_def by (rule exI [of _ "sd_app_sender s1"]) simp
  from keepsD [OF assms(4) this] obtain ch where
    "snd (m (s1\<lparr>sd_fs := fs\<rparr>)) = s1\<lparr>sd_fs := fs, sd_app_sender := ch\<rparr>" by (auto simp: but_channel_def)
  with w assms(1,2) show ?thesis
    by (auto simp: io_bind_def io_mod_def synced_defs intro!: exI [of _ fs] exI [of _ ch])
qed

text \<open>
  C21. Cancelling: after \<open>CancelDownload\<close> of a path exactly the other entries are queued, in memory and
  in the queue file, it is not the active download, and the transfer that runs is told to stop;
  \<open>CancelAllDownloads\<close> and \<open>RemoveUser\<close> empty the queue and delete its file.
\<close>

theorem cancel_forgets:
  assumes "disk_writes s"
  shows "let s' = snd (handle_message (CancelDownload p) s);
             all = snd (handle_message CancelAllDownloads s);
             gone = snd (handle_message RemoveUser s)
         in sd_download_queue s' = filter (\<lambda>q. dq_path q \<noteq> p) (sd_download_queue s) \<and> queue_on_disk s'
            \<and> sd_stop_downloading s' \<and> map_option dq_path (sd_active_download_path s') \<noteq> Some p
            \<and> sd_download_queue all = [] \<and> queue_on_disk all \<and> sd_stop_downloading all
            \<and> sd_download_queue gone = [] \<and> queue_on_disk gone \<and> sd_stop_downloading gone \<and> sd_shutdown gone"
proof -
  let ?c = "s\<lparr>sd_stop_downloading := True, sd_download_queue := filter (\<lambda>q. dq_path q \<noteq> p) (sd_download_queue s),
    sd_active_download_path := (case sd_active_download_path s of
       Some a \<Rightarrow> if dq_path a = p then None else Some a | None \<Rightarrow> None)\<rparr>"
  let ?a = "s\<lparr>sd_stop_downloading := True, sd_download_queue := [], sd_active_download_path := None\<rparr>"
  let ?g = "s\<lparr>sd_shutdown := True, sd_stop_downloading := True, sd_download_queue := [],
    sd_active_download_path := None\<rparr>"
  have dw: "disk_writes (s\<lparr>sd_stop_downloading := a, sd_download_queue := b, sd_active_download_path := c\<rparr>)"
    "disk_writes (s\<lparr>sd_shutdown := True, sd_stop_downloading := a, sd_download_queue := b, sd_active_download_path := c\<rparr>)"
    for a b c using assms by (simp_all add: disk_writes_def)
  have rep: "keeps (but_channel s0) (io_then app_update_in_progress (sd_log level f))"
    "keeps (but_channel s0) (sd_log level f)" for s0 level f
    by (intro keeps_intros)+
  obtain fs ch where c: "snd (handle_message (CancelDownload p) s) =
      ?c\<lparr>sd_fs := fs, sd_app_sender := ch\<rparr>" "queue_on_disk (?c\<lparr>sd_fs := fs, sd_app_sender := ch\<rparr>)"
    using change_then_report [OF handle_message.simps(2) refl dw(1) rep(1)] by blast
  obtain fa cha where a: "snd (handle_message CancelAllDownloads s) =
      ?a\<lparr>sd_fs := fa, sd_app_sender := cha\<rparr>" "queue_on_disk (?a\<lparr>sd_fs := fa, sd_app_sender := cha\<rparr>)"
    using change_then_report [OF handle_message.simps(5) refl dw(1) rep(1)] by blast
  obtain fg chg where g: "snd (handle_message RemoveUser s) =
      ?g\<lparr>sd_fs := fg, sd_app_sender := chg\<rparr>" "queue_on_disk (?g\<lparr>sd_fs := fg, sd_app_sender := chg\<rparr>)"
    using change_then_report [OF handle_message.simps(6) refl dw(2) rep(2)] by blast
  have "map_option dq_path (sd_active_download_path ?c) \<noteq> Some p"
    by (simp split: option.split)
  then show ?thesis
    unfolding Let_def c(1) a(1) g(1) using c(2) a(2) g(2) by simp
qed

theorem cancel_forgets_witness:
  "sd_download_queue (snd (handle_message (CancelDownload ''/a'') waiting_downloader)) = []"
proof -
  have "sd_download_queue (snd (handle_message (CancelDownload ''/a'') waiting_downloader))
      = filter (\<lambda>q. dq_path q \<noteq> ''/a'') (sd_download_queue waiting_downloader)"
    using cancel_forgets [OF waiting_synced(2), of "''/a''"] unfolding Let_def by blast
  also have "\<dots> = []" by (simp add: waiting_downloader_def)
  finally show ?thesis .
qed

end
