(* ===== verification/Download_Files.thy ===== *)
theory Download_Files
  imports Download_Queue
begin

text \<open>
  What \<open>SingleDownloader\<close> of \<open>outgoing_downloader.rs\<close> does on one connection: the list of files, one
  file, a tree of files. The state is the downloader's and the encrypted stream's.
\<close>

subsection \<open>The list of files\<close>

record lib_env =
  le_crypto :: crypto_env
  le_ids :: id_env
  le_host :: host_env
  le_of_json :: "string \<Rightarrow> shared_file option"
  le_to_json :: "shared_file \<Rightarrow> string"

function de_loop :: "crypto_env \<Rightarrow> bytes \<Rightarrow> bytes es_op" where
  "de_loop env json_bytes es =
     (case es_read env es of
        (Ok _, es1) \<Rightarrow>
          (case get_message es1 of
             Ok client_message \<Rightarrow>
               (case get_payload env es1 of
                  Ok payload \<Rightarrow>
                    (let json = json_bytes @ payload in
                     if MAX_EVERYTHING_FILE_SIZE < length json
                     then (Err (TransferError (FileListTooLarge (su_nickname (es_shared_user es1)))), es1)
                     else if client_message = MSG_FILE_LIST_FINAL then (Ok json, es1)
                     else de_loop env json es1)
                | Err e \<Rightarrow> (Err e, es1) | Panic \<Rightarrow> (Panic, es1) | Exit c \<Rightarrow> (Exit c, es1))
           | Err e \<Rightarrow> (Err e, es1) | Panic \<Rightarrow> (Panic, es1) | Exit c \<Rightarrow> (Exit c, es1))
      | (Err e, es1) \<Rightarrow> (Err e, es1) | (Panic, es1) \<Rightarrow> (Panic, es1) | (Exit c, es1) \<Rightarrow> (Exit c, es1))"
  by pat_completeness auto
termination
  by (relation "measure (\<lambda>(env, json, es). wire_left es)") (auto dest: es_read_wire [OF sym])

declare de_loop.simps [simp del]

definition download_everything_file :: "lib_env \<Rightarrow> shared_file es_op" where
  "download_everything_file env =
     io_then (es_write (le_crypto env) MSG_FILE_LIST [])
     (io_bind (de_loop (le_crypto env) []) (\<lambda>json_bytes.
      io_lift
        (and_then (from_utf8 json_bytes) (\<lambda>files_str.
         and_then (ok_or (ConfigError JsonError) (le_of_json env files_str)) (\<lambda>everything_file.
           Ok (reset_file_size_string (remove_invalid_files everything_file)))))))"

definition set_everything_file :: "lib_env \<Rightarrow> bool \<Rightarrow> unit dl_op" where
  "set_everything_file env force_download =
     io_bind
       (io_query (\<lambda>(s, es).
          if es_reverse_message es = MSG_REVERSE \<or> force_download then Ok True
          else (case sd_refresh_data s (nick s) of
                  Some d \<Rightarrow> Ok (ird_data d = None)
                | None \<Rightarrow> Err (TransferError (CacheMissing (nick s))))))
       (\<lambda>should_download.
          if should_download then
            io_then (on_sd (sd_log LogInfo (\<lambda>s. ''Download Everything File: '' @ nick s)))
            (io_bind (on_es (download_everything_file env)) (\<lambda>everything_file.
               on_sd (io_mod (\<lambda>s. s\<lparr>sd_refresh_data := (sd_refresh_data s)
                 (nick s := Some \<lparr>ird_error = None, ird_data = Some everything_file, ird_recv = None\<rparr>)\<rparr>))))
          else io_ok ())"

subsection \<open>One file\<close>

text \<open>
  What is checked before anything is asked of the server, for a file of the queue and for a file
  in a directory of the queue: the result says whether to go on.
\<close>

definition create_empty :: "bool \<Rightarrow> shared_file \<Rightarrow> string \<Rightarrow> string \<Rightarrow> unit sd_op" where
  "create_empty does_file_exist f download_dir destination =
     (if \<not> does_file_exist \<and> sf_file_size f = 0
      then io_then (sd_on_fs (fs_create_dir_all download_dir)) (sd_on_fs (fs_write destination []))
      else io_ok ())"

definition check_queue_file ::
  "download_queue_item \<Rightarrow> shared_file \<Rightarrow> bool \<Rightarrow> nat \<Rightarrow> string \<Rightarrow> string \<Rightarrow> bool sd_op" where
  "check_queue_file q f does_file_exist file_length download_dir destination =
     (if dq_file_size q \<noteq> sf_file_size f then
        io_then set_active_download_finished
        (io_then (app_update_invalid_file (dq_path q)
          ''Expected file size has changed. Suggestion: Delete file and restart download.'') (io_ok False))
      else if file_length < unat (dq_file_size q) then io_ok True
      else if file_length = unat (dq_file_size q) then
        io_then (create_empty does_file_exist f download_dir destination)
        (io_then set_active_download_finished
        (io_then (io_self (\<lambda>s. app_update_completed (dq_path q) destination (sd_active_download_total_size s)))
          (io_ok False)))
      else
        io_then set_active_download_finished
        (io_then (app_update_invalid_file (dq_path q)
          ''File is larger than expected. Suggestion: Delete file and restart download.'') (io_ok False)))"

definition check_sub_file ::
  "download_queue_item \<Rightarrow> shared_file \<Rightarrow> bool \<Rightarrow> nat \<Rightarrow> string \<Rightarrow> string \<Rightarrow> bool sd_op" where
  "check_sub_file q f does_file_exist file_length download_dir destination =
     io_self (\<lambda>s.
       if unat (dq_file_size q) < sd_active_downloaded_current_bytes s then
         io_then set_active_download_finished
         (io_then (app_update_invalid_file (dq_path q)
           ''Directory is larger than expected. Suggestion: Delete directory and restart download.'')
           (io_lift (Err (TransferError DirectoryTooLarge))))
       else if file_length < unat (sf_file_size f) then io_ok True
       else if file_length = unat (sf_file_size f) then
         io_then (create_empty does_file_exist f download_dir destination)
         (io_then (sd_log LogInfo (\<lambda>s. ''Subfile already downloaded '' @ nick s @ '' - '' @ sf_path f))
           (io_ok False))
       else
         io_then (app_update_invalid_file (sf_path f)
           ''Directory subfile is larger than expected. Suggestion: Delete file and restart download.'')
           (io_ok False))"

text \<open>Opening the destination: at its end when it exists, else a new file.\<close>

definition fs_open_destination :: "string \<Rightarrow> unit fs_op" where
  "fs_open_destination p =
     io_self (\<lambda>fs. if fs_exists p fs then
         (if fs_may_write (path_iter p) fs \<and> fs_files fs (path_iter p) \<noteq> None then io_ok ()
          else io_lift (Err (IoError OtherIo)))
       else fs_write p [])"

text \<open>Writing at the end of the open file.\<close>

definition fs_append_open :: "string \<Rightarrow> bytes \<Rightarrow> unit fs_op" where
  "fs_append_open p bs fs = fs_put (path_iter p) (case fs_files fs (path_iter p) of None \<Rightarrow> [] | Some b \<Rightarrow> b) bs fs"

definition throttled_update :: "unit sd_op" where
  "throttled_update s =
     (case sd_progress_due s of
        [] \<Rightarrow> (Ok (), s)
      | due # rest \<Rightarrow>
          (if due then app_update_in_progress (s\<lparr>sd_progress_due := rest\<rparr>) else (Ok (), s\<lparr>sd_progress_due := rest\<rparr>)))"

definition is_file_message :: "u16 \<Rightarrow> bool" where
  "is_file_message m \<longleftrightarrow> m = MSG_FILE_CHUNK \<or> m = MSG_FILE_FINISHED"

text \<open>
  Whether the file is complete: both ends must agree. The result is that and the bytes that the
  local file has.
\<close>

definition settle_chunk ::
  "shared_file \<Rightarrow> download_queue_item \<Rightarrow> string \<Rightarrow> u16 \<Rightarrow> nat \<Rightarrow> (bool \<times> nat) dl_op" where
  "settle_chunk f q destination remote_message current =
     (let is_queue_file = (sf_path f = dq_path q);
          is_remote_finished = (remote_message = MSG_FILE_FINISHED);
          is_local_finished = (current = unat (if is_queue_file then dq_file_size q else sf_file_size f))
      in if is_remote_finished \<and> is_local_finished then
           io_then
             (if is_queue_file then
                io_then (on_sd set_active_download_finished)
                  (on_sd (io_self (\<lambda>s. app_update_completed (dq_path q) destination (sd_active_download_total_size s))))
              else io_ok ())
             (io_ok (True, current))
         else if is_remote_finished \<noteq> is_local_finished then
           io_then (if is_queue_file then on_sd set_active_download_finished else io_ok ())
           (io_then (on_sd (app_update_invalid_file (sf_path f)
              ''Remote and local disagreement on finished download. Suggestion: Delete file and download again.''))
             (io_lift (Err (TransferError (FinishDisagreement is_local_finished is_remote_finished)))))
         else io_ok (False, current))"

text \<open>One turn of the loop up to the next read.\<close>

definition chunk_step ::
  "lib_env \<Rightarrow> shared_file \<Rightarrow> download_queue_item \<Rightarrow> string \<Rightarrow> u16 \<Rightarrow> nat \<Rightarrow> (bool \<times> nat) dl_op" where
  "chunk_step env f q destination remote_message current =
     io_bind (io_query (\<lambda>(s, es). get_payload (le_crypto env) es)) (\<lambda>payload.
     io_then (on_sd (io_mod (\<lambda>s. s\<lparr>sd_active_downloaded_current_bytes :=
        sd_active_downloaded_current_bytes s + length payload\<rparr>)))
     (io_then (on_sd (sd_on_fs (fs_append_open destination payload)))
     (io_then (on_sd throttled_update)
       (settle_chunk f q destination remote_message (current + length payload)))))"

text \<open>The end of a turn: the next frame, and the manager's messages; \<open>None\<close> when told to stop.\<close>

definition next_chunk :: "lib_env \<Rightarrow> u16 option dl_op" where
  "next_chunk env =
     io_then (on_es (es_read (le_crypto env)))
     (io_bind (io_query (\<lambda>(s, es). get_message es)) (\<lambda>m.
      if \<not> is_file_message m
      then io_query (\<lambda>(s, es). Err (TransferError (UnexpectedMidMessage (nick s) m)))
      else io_then (on_sd read_receiver)
        (io_query (\<lambda>(s, es). Ok (if sd_stop_downloading s then None else Some m)))))"

lemma on_sd_stream [keeps_intros]: "keeps (\<lambda>st. P (snd st)) (on_sd m)"
  by (simp add: keeps_def on_sd_def split: prod.split)

lemma chunk_step_stream: "chunk_step env f q d m n st = (r, st') \<Longrightarrow> snd st' = snd st"
proof (rule keeps_run [where P = "\<lambda>st'. snd st' = snd st"])
  show "keeps (\<lambda>st'. snd st' = snd st) (chunk_step env f q d m n)"
    unfolding chunk_step_def settle_chunk_def Let_def by (intro keeps_intros)
qed simp_all

lemma next_chunk_wire:
  assumes "next_chunk env st = (Ok v, st')"
  shows "wire_left (snd st') < wire_left (snd st)"
proof -
  from assms [unfolded next_chunk_def] obtain a st1 where
    a: "on_es (es_read (le_crypto env)) st = (Ok a, st1)" by (rule io_bind_OkE)
  then have less: "wire_left (snd st1) < wire_left (snd st)"
    by (auto simp: on_es_def split: prod.splits dest: es_read_wire)
  have "wire_within (wire_left (snd st1)) (snd st')"
    by (rule keeps_rest [OF assms [unfolded next_chunk_def] a]) (intro keeps_intros, simp)
  with less show ?thesis by simp
qed

function download_loop ::
  "lib_env \<Rightarrow> shared_file \<Rightarrow> download_queue_item \<Rightarrow> string \<Rightarrow> u16 \<Rightarrow> nat \<Rightarrow> unit dl_op" where
  "download_loop env f q destination remote_message current st =
     (case chunk_step env f q destination remote_message current st of
        (Ok (finished, current'), st1) \<Rightarrow>
          (if finished then (Ok (), st1)
           else (case next_chunk env st1 of
                   (Ok (Some m), st2) \<Rightarrow> download_loop env f q destination m current' st2
                 | (Ok None, st2) \<Rightarrow> (Ok (), st2)
                 | (Err e, st2) \<Rightarrow> (Err e, st2) | (Panic, st2) \<Rightarrow> (Panic, st2) | (Exit c, st2) \<Rightarrow> (Exit c, st2)))
      | (Err e, st1) \<Rightarrow> (Err e, st1) | (Panic, st1) \<Rightarrow> (Panic, st1) | (Exit c, st1) \<Rightarrow> (Exit c, st1))"
  by pat_completeness auto
termination
  by (relation "measure (\<lambda>(env, f, q, d, m, n, st). wire_left (snd st))")
    (auto dest!: chunk_step_stream [OF sym] next_chunk_wire [OF sym])

declare download_loop.simps [simp del]

text \<open>What the local file has so far: whether it exists, and its length.\<close>

definition local_length :: "string \<Rightarrow> (bool \<times> nat) sd_op" where
  "local_length destination =
     io_self (\<lambda>s.
       if fs_exists destination (sd_fs s)
       then io_bind (sd_on_fs (fs_metadata_len destination)) (\<lambda>n. io_ok (True, n))
       else io_ok (False, 0))"

text \<open>The selection that is sent: the length of what is there and the path.\<close>

definition selection_payload :: "nat \<Rightarrow> string \<Rightarrow> bytes" where
  "selection_payload file_length path = be_enc 8 file_length @ as_bytes path"

definition request_file ::
  "lib_env \<Rightarrow> shared_file \<Rightarrow> download_queue_item \<Rightarrow> string \<Rightarrow> string \<Rightarrow> nat \<Rightarrow> unit dl_op" where
  "request_file env f q download_dir destination file_length =
     io_then (on_es (es_write (le_crypto env) MSG_FILE_SELECTION_CONTINUE (selection_payload file_length (sf_path f))))
     (io_then (on_es (es_read (le_crypto env)))
     (io_bind (io_query (\<lambda>(s, es). get_message es)) (\<lambda>m.
      if m = MSG_FILE_INVALID_FILE then
        io_then (set_everything_file env True)
          (io_query (\<lambda>(s, es). Err (TransferError (InvalidFileOnFirstRead (nick s) (sf_path f)))))
      else if \<not> is_file_message m then
        io_query (\<lambda>(s, es). Err (TransferError (UnexpectedFirstMessage (nick s) m)))
      else
        io_then (on_sd (sd_on_fs (fs_create_dir_all download_dir)))
        (io_then (on_sd (sd_on_fs (fs_open_destination destination)))
          (download_loop env f q destination m file_length)))))"

definition download_file :: "lib_env \<Rightarrow> shared_file \<Rightarrow> string \<Rightarrow> string \<Rightarrow> unit dl_op" where
  "download_file env f download_dir name =
     (let destination = download_dir @ name in
      io_bind (on_sd (local_length destination)) (\<lambda>(does_file_exist, file_length).
      io_then (on_sd (io_mod (\<lambda>s. s\<lparr>sd_active_downloaded_current_bytes :=
        sd_active_downloaded_current_bytes s + file_length\<rparr>)))
      (io_bind (on_sd (io_query (\<lambda>s. unwrap_opt (sd_active_download_path s)))) (\<lambda>q.
       io_bind
         (on_sd (if sf_path f = dq_path q
           then check_queue_file q f does_file_exist file_length download_dir destination
           else check_sub_file q f does_file_exist file_length download_dir destination))
         (\<lambda>go. if go then request_file env f q download_dir destination file_length else io_ok ())))))"

fun download_shared_file :: "lib_env \<Rightarrow> shared_file \<Rightarrow> string \<Rightarrow> unit dl_op"
  and download_children :: "lib_env \<Rightarrow> shared_file list \<Rightarrow> string \<Rightarrow> unit dl_op" where
  "download_shared_file env (SharedFile p d fs n t) download_dir =
     io_bind (io_lift (get_sanitized_disk_file_name p)) (\<lambda>name.
       if d then download_children env fs (download_dir @ name @ [path_sep])
       else download_file env (SharedFile p d fs n t) download_dir name)"
| "download_children env [] download_dir = io_ok ()"
| "download_children env (f # fs) download_dir =
     io_then (download_shared_file env f download_dir)
     (io_then (on_sd read_receiver)
     (io_bind (io_get (\<lambda>(s, es). sd_stop_downloading s)) (\<lambda>stop.
       if stop then io_ok () else download_children env fs download_dir)))"

subsection \<open>What a download may change on the disk\<close>

text \<open>A file that is neither the queue file nor below the directory of the download stays as it is.\<close>

definition untouched :: "string \<Rightarrow> fpath \<Rightarrow> bytes option \<Rightarrow> single_downloader \<Rightarrow> bool" where
  "untouched queue_file k content s \<longleftrightarrow>
     sd_path_queue_file s = queue_file \<and> k \<noteq> path_iter queue_file \<and> fs_files (sd_fs s) k = content"

text \<open>
  The contract of a property of the disk: it depends on the disk and the name of the queue file
  only, and writing the queue keeps it. Then messages, reports and the steps of the queue keep it.
\<close>

locale disk_property =
  fixes P :: "single_downloader \<Rightarrow> bool"
  assumes disk_only: "P s \<Longrightarrow> sd_fs s' = sd_fs s \<Longrightarrow> sd_path_queue_file s' = sd_path_queue_file s \<Longrightarrow> P s'"
    and queue_write: "keeps P write_queue"
begin

lemma disk_mod: "(\<And>s. sd_fs (f s) = sd_fs s \<and> sd_path_queue_file (f s) = sd_path_queue_file s) \<Longrightarrow> keeps P (io_mod f)"
  by (rule keeps_mod) (metis disk_only)

lemma disk_send: "keeps P (sd_send m)"
  by (rule keeps_send) (rule disk_only, simp_all)

lemma disk_reports:
  "keeps P app_update_in_progress" "keeps P app_update_offline" "keeps P (app_update_completed a b c)"
  "keeps P (app_update_invalid_file a b)"
  unfolding app_update_in_progress_def app_update_offline_def app_update_completed_def app_update_invalid_file_def
  by (intro keeps_intros disk_send)+

lemma disk_finished: "keeps P set_active_download_finished"
  unfolding set_active_download_finished_def by (intro keeps_intros disk_mod queue_write) simp_all

lemma disk_message: "keeps P (handle_message m)"
  by (cases m) (simp_all, (intro keeps_intros disk_mod disk_send disk_reports queue_write; simp)+)

lemma disk_rev: "keeps P (handle_rev rv)"
  by (cases rv) (auto intro!: keeps_intros disk_mod)

lemma disk_polls: "keeps P (read_polls ps)"
proof (induction ps rule: read_polls.induct)
  case (2 rv msg ps)
  then show ?case
    by (cases msg) (simp_all, (intro keeps_intros disk_mod disk_rev disk_message; simp)+)
qed (simp add: keeps_intros)

lemma disk_receiver: "keeps P read_receiver"
  unfolding read_receiver_def by (intro keeps_intros disk_polls)

lemma disk_throttled: "keeps P throttled_update"
proof (rule keepsI)
  fix s assume "P s"
  then have next_P: "P (s\<lparr>sd_progress_due := ds\<rparr>)" for ds by (rule disk_only) simp_all
  show "P (snd (throttled_update s))"
    using \<open>P s\<close> next_P keepsD [OF disk_reports(1) next_P]
    by (auto simp: throttled_update_def split: list.split)
qed

lemmas disk_steps = disk_send disk_reports disk_finished disk_receiver disk_throttled queue_write

end

lemma untouched_fs:
  "(\<And>fs. fs_files (snd (m fs)) k = fs_files fs k) \<Longrightarrow> keeps (untouched qf k c) (sd_on_fs m)"
  by (simp add: keeps_def sd_on_fs_def untouched_def split: prod.split) (metis snd_conv)

lemma untouched_send: "keeps (untouched qf k c) (sd_send m)"
  by (rule keeps_send) (simp add: untouched_def)

lemma untouched_queue_file: "keeps (untouched qf k c) write_queue_file"
  unfolding write_queue_file_def
  by (rule keepsI) (auto simp: io_self_def untouched_def sd_on_fs_def fs_write_def fs_put_file split: prod.split
      dest!: arg_cong [where f = snd])

lemma untouched_queue: "keeps (untouched qf k c) write_queue"
proof (rule keepsI)
  fix s assume u: "untouched qf k c s"
  obtain r s1 where r: "sd_on_fs (fs_remove_file (sd_path_queue_file s)) s = (r, s1)" by (metis prod.exhaust)
  have "untouched qf k c s1"
    using u r by (auto simp: untouched_def sd_on_fs_def fs_remove_other split: prod.splits dest!: arg_cong [where f = snd])
  then have "untouched qf k c (snd (io_then write_queue_file (sd_send m) s1))" for m
    by (rule keepsD [OF keeps_bind [OF untouched_queue_file untouched_send], rotated])
  with u r \<open>untouched qf k c s1\<close> keepsD [OF untouched_queue_file u] show "untouched qf k c (snd (write_queue s))"
    by (auto simp: write_queue_def split: outcome.split error.split io_error.split)
qed

interpretation untouched_disk: disk_property "untouched qf k c" for qf k c
proof
  show "keeps (untouched qf k c) write_queue" by (rule untouched_queue)
qed (auto simp: untouched_def)

lemma on_sd_keeps [keeps_intros]: "keeps P m \<Longrightarrow> keeps (\<lambda>st. P (fst st)) (on_sd m)"
  by (simp add: keeps_def on_sd_def split: prod.split) (metis snd_conv)

lemma on_es_keeps [keeps_intros]: "keeps (\<lambda>st. P (fst st)) (on_es m)"
  by (simp add: keeps_def on_es_def split: prod.split)

lemma append_open_other: "k \<noteq> path_iter p \<Longrightarrow> fs_files (snd (fs_append_open p bs fs)) k = fs_files fs k"
  by (simp add: fs_append_open_def fs_put_file)

lemma open_destination_other: "k \<noteq> path_iter p \<Longrightarrow> fs_files (snd (fs_open_destination p fs)) k = fs_files fs k"
  by (simp add: fs_open_destination_def io_self_def io_ok_def io_lift_def fs_write_other)

lemma metadata_keeps: "snd (fs_metadata_len p fs) = fs"
  by (simp add: fs_metadata_len_def split: option.split)

lemma untouched_everything [keeps_intros]:
  "keeps (\<lambda>st. untouched qf k c (fst st)) (set_everything_file env force)"
  unfolding set_everything_file_def
  by (intro keeps_intros untouched_disk.disk_steps untouched_disk.disk_mod) simp_all

lemma untouched_create:
  assumes other: "k \<noteq> path_iter destination"
  shows "keeps (untouched qf k c) (create_empty exi f dir destination)"
  unfolding create_empty_def using other
  by (intro keeps_intros untouched_fs) (simp_all add: fs_write_other)

lemma untouched_checks:
  assumes other: "k \<noteq> path_iter destination"
  shows "keeps (untouched qf k c) (check_queue_file q f exi n dir destination)"
    and "keeps (untouched qf k c) (check_sub_file q f exi n dir destination)"
  unfolding check_queue_file_def check_sub_file_def
  by (intro keeps_intros untouched_disk.disk_steps untouched_create other)+

lemma untouched_chunk:
  assumes other: "k \<noteq> path_iter destination"
  shows "keeps (\<lambda>st. untouched qf k c (fst st)) (chunk_step env f q destination m n)"
  unfolding chunk_step_def settle_chunk_def Let_def
  by (intro keeps_intros untouched_disk.disk_steps untouched_disk.disk_mod untouched_fs append_open_other other) simp_all

lemma untouched_next: "keeps (\<lambda>st. untouched qf k c (fst st)) (next_chunk env)"
  unfolding next_chunk_def by (intro keeps_intros untouched_disk.disk_steps)

text \<open>What a turn and reading the next chunk keep, the loop keeps.\<close>

lemma keeps_download_loop:
  assumes "\<And>m n. keeps P (chunk_step env f q d m n)" and "keeps P (next_chunk env)"
  shows "keeps P (download_loop env f q d m n)"
proof -
  have "P (snd (download_loop env f q d m n st))" if "P st" for st
    using that assms
  proof (induction env f q d m n st rule: download_loop.induct)
    case (1 env f q d m n st)
    obtain r1 st1 where s1: "chunk_step env f q d m n st = (r1, st1)" by (metis prod.exhaust)
    with 1(2,3) have p1: "P st1" by (auto dest: keeps_run)
    obtain r2 st2 where s2: "next_chunk env st1 = (r2, st2)" by (metis prod.exhaust)
    with p1 1(4) have p2: "P st2" by (auto dest: keeps_run)
    from p1 p2 "1.IH" [OF s1 [symmetric]] s1 s2 1(3,4) show ?case
      by (subst download_loop.simps) (auto split: outcome.split option.split)
  qed
  then show ?thesis by (simp add: keeps_def)
qed

lemma untouched_loop:
  assumes other: "k \<noteq> path_iter destination"
  shows "keeps (\<lambda>st. untouched qf k c (fst st)) (download_loop env f q destination m n)"
  by (intro keeps_download_loop untouched_chunk untouched_next other)

lemma untouched_request:
  assumes other: "k \<noteq> path_iter destination"
  shows "keeps (\<lambda>st. untouched qf k c (fst st)) (request_file env f q dir destination n)"
  unfolding request_file_def
  by (intro keeps_intros untouched_loop untouched_fs open_destination_other other) simp_all

lemma untouched_file:
  assumes other: "k \<noteq> path_iter (dir @ name)"
  shows "keeps (\<lambda>st. untouched qf k c (fst st)) (download_file env f dir name)"
proof -
  have len: "keeps (untouched qf k c) (local_length (dir @ name))"
    unfolding local_length_def by (intro keeps_intros untouched_fs) (simp add: metadata_keeps)
  show ?thesis
    unfolding download_file_def Let_def
    by (intro keeps_intros untouched_disk.disk_mod untouched_checks untouched_request len other) (auto intro!: keeps_intros
        untouched_disk.disk_mod untouched_checks untouched_request other)
qed

text \<open>A local name put behind a directory is one more component.\<close>

lemma name_below:
  assumes "get_sanitized_disk_file_name p = Ok name" and "dir = d @ [path_sep]"
  shows "path_iter (dir @ name) = path_iter dir @ [name]"
proof (cases "d = []")
  case True
  have "path_iter ([path_sep] @ name) = [[path_sep], name]"
    using local_name_parts [OF assms(1)] by (simp add: path_iter_def Let_def starts_with_def split_on_none)
  moreover have "path_iter [path_sep] = [[path_sep]]" by (simp add: path_iter_def Let_def starts_with_def)
  ultimately show ?thesis using True assms(2) by simp
next
  case False
  then show ?thesis
    using path_iter_append_sep [OF False local_name_parts(2,1,3) [OF assms(1)]] path_iter_trailing_sep [OF False]
    by (simp add: assms(2))
qed

lemma untouched_tree:
  "dir = d @ [path_sep] \<Longrightarrow> \<not> strict_prefix (path_iter dir) k \<Longrightarrow>
     keeps (\<lambda>st. untouched qf k c (fst st)) (download_shared_file env f dir)"
  "dir = d @ [path_sep] \<Longrightarrow> \<not> strict_prefix (path_iter dir) k \<Longrightarrow>
     keeps (\<lambda>st. untouched qf k c (fst st)) (download_children env fs dir)"
proof (induction env f dir and env fs dir arbitrary: d and d rule: download_shared_file_download_children.induct)
  case (1 env p isd fs n t dir)
  have one: "keeps (\<lambda>st. untouched qf k c (fst st)) (download_file env (SharedFile p isd fs n t) dir name)"
    and sub: "isd \<Longrightarrow> keeps (\<lambda>st. untouched qf k c (fst st)) (download_children env fs (dir @ name @ [path_sep]))"
    if name: "get_sanitized_disk_file_name p = Ok name" for name
  proof -
    note below = name_below [OF name 1(2)]
    from below 1(3) have "k \<noteq> path_iter (dir @ name)" by (auto simp: strict_prefix_def)
    then show "keeps (\<lambda>st. untouched qf k c (fst st)) (download_file env (SharedFile p isd fs n t) dir name)"
      by (rule untouched_file)
    have "path_iter (dir @ name @ [path_sep]) = path_iter dir @ [name]"
      using path_iter_trailing_sep [of "dir @ name"] below 1(2) by simp
    with 1(3) have "\<not> strict_prefix (path_iter (dir @ name @ [path_sep])) k"
      by (metis prefix_order.less_trans strict_prefixI')
    then show "isd \<Longrightarrow> keeps (\<lambda>st. untouched qf k c (fst st)) (download_children env fs (dir @ name @ [path_sep]))"
      using "1.IH" [of name "dir @ name"] by simp
  qed
  show ?case
  proof (cases "get_sanitized_disk_file_name p")
    case (Ok name)
    then show ?thesis using one [OF Ok] sub [OF Ok]
      by (cases isd) (simp_all add: keeps_def io_bind_def io_lift_def)
  qed (simp_all add: keeps_def io_bind_def io_lift_def)
next
  case (2 env dir)
  then show ?case by (simp add: keeps_intros)
next
  case (3 env f fs dir)
  then show ?case
    by (auto intro!: keeps_intros untouched_disk.disk_steps)
qed

definition demo_stream :: encrypted_stream where
  "demo_stream = \<lparr>es_stream = \<lparr>t_in = [], t_out = [], t_room = None\<rparr>, es_key = [], es_nonce = 0, es_crypto_buffer = [],
     es_buffer = [], es_shared_user = demo_user ''bob'' [], es_private_id_bytes = [], es_reverse_message = 0\<rparr>"

definition empty_download :: "single_downloader" where
  "empty_download = (demo_downloader demo_fs demo_cfg)
     \<lparr>sd_active_download_path := Some \<lparr>dq_path = ''/x/../a'', dq_file_size = 0\<rparr>\<rparr>"

definition demo_lib :: lib_env where
  "demo_lib = \<lparr>le_crypto = null_env, le_ids = demo_ids, le_host = null_host, le_of_json = (\<lambda>_. None),
     le_to_json = (\<lambda>_. [])\<rparr>"

text \<open>A path of the peer that climbs up still lands in the directory.\<close>

lemma climbing_path_stays:
  "fs_files (sd_fs (fst (snd (download_shared_file demo_lib (SharedFile ''/x/../a'' False [] 0 [])
      ''/c/d/'' (empty_download, demo_stream))))) [''/'', ''c'', ''d'', ''a''] = Some []"
  by code_simp

subsection \<open>A transfer that ends has the whole file\<close>

definition expected_size :: "shared_file \<Rightarrow> download_queue_item \<Rightarrow> nat" where
  "expected_size f q = unat (if sf_path f = dq_path q then dq_file_size q else sf_file_size f)"

lemma chunk_step_value:
  assumes "chunk_step env f q d m n st = (Ok (fin, n'), st')"
  shows "\<exists>payload. get_payload (le_crypto env) (snd st) = Ok payload \<and> n' = n + length payload
     \<and> (fin \<longrightarrow> m = MSG_FILE_FINISHED \<and> n' = expected_size f q)"
  using assms unfolding chunk_step_def settle_chunk_def Let_def expected_size_def
  by (auto simp: io_query_def io_ok_def io_lift_def elim!: io_bind_OkE split: if_splits prod.splits)

lemma append_open_Ok:
  assumes "on_sd (sd_on_fs (fs_append_open d bs)) st = (Ok u, st')" and "untouched qf (path_iter d) (Some b) (fst st)"
  shows "untouched qf (path_iter d) (Some (b @ bs)) (fst st')"
  using assms by (auto simp: on_sd_def sd_on_fs_def fs_append_open_def untouched_def split: prod.splits dest!: fs_put_Ok)

lemma chunk_step_grows:
  assumes step: "chunk_step env f q d m n st = (Ok (fin, n'), st')"
    and u: "untouched qf (path_iter d) (Some b) (fst st)" and n: "n = length b"
  shows "\<exists>new. untouched qf (path_iter d) (Some (b @ new)) (fst st') \<and> n' = length (b @ new)
     \<and> get_payload (le_crypto env) (snd st) = Ok new \<and> (fin \<longrightarrow> m = MSG_FILE_FINISHED \<and> n' = expected_size f q)"
proof -
  from chunk_step_value [OF step] obtain new where new: "get_payload (le_crypto env) (snd st) = Ok new"
    "n' = n + length new" "fin \<longrightarrow> m = MSG_FILE_FINISHED \<and> n' = expected_size f q" by blast
  let ?st1 = "((fst st)\<lparr>sd_active_downloaded_current_bytes := sd_active_downloaded_current_bytes (fst st) + length new\<rparr>, snd st)"
  from step new(1) obtain st2 where a: "on_sd (sd_on_fs (fs_append_open d new)) ?st1 = (Ok (), st2)"
    and rest: "io_then (on_sd throttled_update) (settle_chunk f q d m (n + length new)) st2 = (Ok (fin, n'), st')"
    unfolding chunk_step_def
    by (cases st) (force simp: io_bind_def [where m = "io_query _"] io_bind_def [where m = "on_sd (io_mod _)"] io_query_def
        on_sd_def [where m = "io_mod _"] io_mod_def elim: io_bind_OkE)
  have "untouched qf (path_iter d) (Some b) (fst ?st1)" using u by (simp add: untouched_def)
  from append_open_Ok [OF a this] have u2: "untouched qf (path_iter d) (Some (b @ new)) (fst st2)" .
  have "untouched qf (path_iter d) (Some (b @ new)) (fst st')"
    using rest u2 unfolding settle_chunk_def Let_def
    by (rule keeps_run [rotated]) (intro keeps_intros untouched_disk.disk_steps)
  with new n show ?thesis by auto
qed

lemma next_chunk_stop:
  assumes "next_chunk env st = (Ok v, st')"
  shows "(v = None) = sd_stop_downloading (fst st')"
  using assms unfolding next_chunk_def
  by (auto simp: io_query_def elim!: io_bind_OkE split: if_splits prod.splits)

lemma loop_grows:
  assumes "download_loop env f q d m n st = (Ok u, st')"
    and "untouched qf (path_iter d) (Some b) (fst st)" and "n = length b"
  shows "sd_stop_downloading (fst st') \<or>
     (\<exists>new. untouched qf (path_iter d) (Some (b @ new)) (fst st') \<and> length (b @ new) = expected_size f q)"
  using assms
proof (induction env f q d m n st arbitrary: b rule: download_loop.induct)
  case (1 env f q d m n st)
  from "1.prems"(1) obtain fin n1 st1 where s1: "chunk_step env f q d m n st = (Ok (fin, n1), st1)"
    by (subst (asm) download_loop.simps) (auto split: prod.splits outcome.splits)
  from chunk_step_grows [OF s1 "1.prems"(2,3)] obtain new where
    new: "untouched qf (path_iter d) (Some (b @ new)) (fst st1)" "n1 = length (b @ new)"
      "fin \<longrightarrow> n1 = expected_size f q" by blast
  show ?case
  proof (cases fin)
    case True
    with "1.prems"(1) s1 have "st' = st1" by (subst (asm) download_loop.simps) simp
    with new True show ?thesis by auto
  next
    case False
    with "1.prems"(1) s1 obtain v st2 where s2: "next_chunk env st1 = (Ok v, st2)"
      by (subst (asm) download_loop.simps) (auto split: prod.splits outcome.splits option.splits)
    with new(1) have u2: "untouched qf (path_iter d) (Some (b @ new)) (fst st2)"
      by (rule keeps_run [OF untouched_next, rotated])
    show ?thesis
    proof (cases v)
      case None
      with "1.prems"(1) s1 s2 False have "st' = st2" by (subst (asm) download_loop.simps) simp
      with next_chunk_stop [OF s2] None show ?thesis by simp
    next
      case (Some m')
      with "1.prems"(1) s1 s2 False have "download_loop env f q d m' n1 st2 = (Ok u, st')"
        by (subst (asm) download_loop.simps) simp
      from "1.IH" [OF s1 [symmetric] refl refl False s2 [unfolded Some, symmetric] refl refl this u2 new(2)] show ?thesis
        by (auto intro: exI [of _ "new @ _"])
    qed
  qed
qed

text \<open>What is in the file before: nothing when it does not exist.\<close>

definition old_bytes :: "string \<Rightarrow> single_downloader \<Rightarrow> bytes" where
  "old_bytes destination s = (case fs_files (sd_fs s) (path_iter destination) of Some b \<Rightarrow> b | None \<Rightarrow> [])"

lemma local_length_run:
  assumes "\<not> fs_is_dir (sd_fs s) (path_iter d)"
  shows "local_length d s = (Ok (fs_files (sd_fs s) (path_iter d) \<noteq> None, length (old_bytes d s)), s)"
  using assms by (auto simp: local_length_def io_self_def fs_exists_def sd_on_fs_def fs_metadata_len_def
      old_bytes_def io_bind_def io_ok_def split: option.split)

lemma on_sd_Ok: "on_sd m st = (Ok x, st') \<Longrightarrow> m (fst st) = (Ok x, fst st') \<and> snd st' = snd st"
  by (auto simp: on_sd_def split: prod.splits)

lemma on_sd_run:
  "m (fst st) = (Ok x, s') \<Longrightarrow> on_sd m st = (Ok x, (s', snd st))"
  "on_sd (io_mod h) st = (Ok (), (h (fst st), snd st))"
  "on_sd (io_query g) st = (g (fst st), st)"
  by (simp_all add: on_sd_def io_mod_def io_query_def)

lemma create_empty_grows:
  assumes "create_empty (fs_files (sd_fs s) (path_iter d) \<noteq> None) f dir d s = (Ok u, s')"
    and "path_iter d \<noteq> path_iter (sd_path_queue_file s)" and "unat (sf_file_size f) = length (old_bytes d s)"
  shows "untouched (sd_path_queue_file s) (path_iter d) (Some (old_bytes d s)) s'"
proof (cases "fs_files (sd_fs s) (path_iter d)")
  case (Some b)
  with assms show ?thesis by (simp add: create_empty_def io_ok_def untouched_def old_bytes_def)
next
  case None
  then have "old_bytes d s = []" "sf_file_size f = 0"
    using assms(3) by (simp_all add: old_bytes_def unat_eq_0)
  with assms(1) None obtain u1 s1 u2 where
    a: "sd_on_fs (fs_create_dir_all dir) s = (Ok u1, s1)" and b: "sd_on_fs (fs_write d []) s1 = (Ok u2, s')"
    by (auto simp: create_empty_def elim!: io_bind_OkE)
  from a have "sd_path_queue_file s1 = sd_path_queue_file s" by (auto simp: sd_on_fs_def split: prod.splits)
  with b assms(2) \<open>old_bytes d s = []\<close> show ?thesis
    by (auto simp: sd_on_fs_def untouched_def split: prod.splits dest!: fs_write_Ok)
qed

lemma checks_Ok:
  assumes "(if sf_path f = dq_path q then check_queue_file q f (fs_files (sd_fs s) (path_iter d) \<noteq> None) n dir d
     else check_sub_file q f (fs_files (sd_fs s) (path_iter d) \<noteq> None) n dir d) s = (Ok go, s')"
    and "n = length (old_bytes d s)" and "n \<le> unat (sf_file_size f)"
    and "sf_path f = dq_path q \<longrightarrow> dq_file_size q = sf_file_size f"
    and "path_iter d \<noteq> path_iter (sd_path_queue_file s)"
  shows "if go then s' = s
     else unat (sf_file_size f) = n \<and> untouched (sd_path_queue_file s) (path_iter d) (Some (old_bytes d s)) s'"
proof -
  let ?u = "untouched (sd_path_queue_file s) (path_iter d) (Some (old_bytes d s))"
  have tail: "?u s'" if "create_empty (fs_files (sd_fs s) (path_iter d) \<noteq> None) f dir d s = (Ok u, s1)"
    and "m s1 = (r, s')" and "keeps ?u m" and "unat (sf_file_size f) = n" for u s1 m and r :: "(error, bool) outcome"
    using keeps_run [OF that(3,2)] create_empty_grows [OF that(1) assms(5)] that(4) assms(2) by simp
  have steps: "keeps ?u (io_then set_active_download_finished
        (io_then (io_self (\<lambda>s. app_update_completed (dq_path q) d (sd_active_download_total_size s))) (io_ok False)))"
    "keeps ?u (io_then (sd_log LogInfo (\<lambda>s. ''Subfile already downloaded '' @ nick s @ '' - '' @ sf_path f)) (io_ok False))"
    by (intro keeps_intros untouched_disk.disk_steps)+
  show ?thesis
  proof (cases "n < unat (sf_file_size f)")
    case True
    with assms(1,4) show ?thesis
      by (auto simp: check_queue_file_def check_sub_file_def io_self_def io_ok_def io_lift_def
          elim!: io_bind_OkE split: if_splits)
  next
    case False
    then have n: "unat (sf_file_size f) = n" using assms(3) by simp
    show ?thesis
    proof (cases "sf_path f = dq_path q")
      case True
      with n assms(1,4) have op: "io_then (create_empty (fs_files (sd_fs s) (path_iter d) \<noteq> None) f dir d)
        (io_then set_active_download_finished
        (io_then (io_self (\<lambda>s. app_update_completed (dq_path q) d (sd_active_download_total_size s))) (io_ok False))) s
        = (Ok go, s')" by (simp add: check_queue_file_def)
      then have "\<not> go" by (auto simp: io_ok_def elim!: io_bind_OkE)
      moreover from op have "?u s'" by (rule io_bind_OkE) (rule tail [OF _ _ steps(1) n])
      ultimately show ?thesis using n by simp
    next
      case sub: False
      show ?thesis
      proof (cases "unat (dq_file_size q) < sd_active_downloaded_current_bytes s")
        case True
        with sub assms(1) show ?thesis
          by (auto simp: check_sub_file_def io_self_def io_lift_def elim!: io_bind_OkE)
      next
        case False
        with sub n assms(1) have op: "io_then (create_empty (fs_files (sd_fs s) (path_iter d) \<noteq> None) f dir d)
          (io_then (sd_log LogInfo (\<lambda>s. ''Subfile already downloaded '' @ nick s @ '' - '' @ sf_path f)) (io_ok False)) s
          = (Ok go, s')" by (simp add: check_sub_file_def io_self_def)
        then have "\<not> go" by (auto simp: io_ok_def elim!: io_bind_OkE)
        moreover from op have "?u s'" by (rule io_bind_OkE) (rule tail [OF _ _ steps(2) n])
        ultimately show ?thesis using n by simp
      qed
    qed
  qed
qed

lemma open_grows:
  assumes "on_sd (sd_on_fs (fs_open_destination d)) st = (Ok u, st')"
    and "untouched qf (path_iter d) c (fst st)"
  shows "untouched qf (path_iter d) (Some (case c of Some b \<Rightarrow> b | None \<Rightarrow> [])) (fst st')"
  using assms
  by (auto simp: on_sd_def sd_on_fs_def fs_open_destination_def io_self_def io_ok_def io_lift_def untouched_def
      fs_exists_def split: prod.splits if_splits dest!: fs_write_Ok)

lemma request_grows:
  assumes "request_file env f q dir d n st = (Ok u, st')"
    and "untouched qf (path_iter d) c (fst st)" and "n = length (case c of Some b \<Rightarrow> b | None \<Rightarrow> [])"
  shows "sd_stop_downloading (fst st') \<or>
     (\<exists>new. untouched qf (path_iter d) (Some ((case c of Some b \<Rightarrow> b | None \<Rightarrow> []) @ new)) (fst st')
        \<and> n + length new = expected_size f q)"
proof -
  let ?old = "case c of Some b \<Rightarrow> b | None \<Rightarrow> []"
  note keep = keeps_run [where P = "\<lambda>st. untouched qf (path_iter d) c (fst st)"]
  from assms(1) [unfolded request_file_def] obtain x1 st1 x2 st2 m where
    a: "on_es (es_write (le_crypto env) MSG_FILE_SELECTION_CONTINUE (selection_payload n (sf_path f))) st = (Ok x1, st1)"
    and b: "on_es (es_read (le_crypto env)) st1 = (Ok x2, st2)"
    and c: "(if m = MSG_FILE_INVALID_FILE then
        io_then (set_everything_file env True)
          (io_query (\<lambda>(s, es). Err (TransferError (InvalidFileOnFirstRead (nick s) (sf_path f)))))
      else if \<not> is_file_message m then
        io_query (\<lambda>(s, es). Err (TransferError (UnexpectedFirstMessage (nick s) m)))
      else
        io_then (on_sd (sd_on_fs (fs_create_dir_all dir)))
        (io_then (on_sd (sd_on_fs (fs_open_destination d)))
          (download_loop env f q d m n))) st2 = (Ok u, st')"
    by - (erule io_bind_OkE, erule io_bind_OkE, erule io_bind_OkE, auto simp: io_query_def)
  from a assms(2) have u1: "untouched qf (path_iter d) c (fst st1)" by (auto intro: keep on_es_keeps)
  from b u1 have u2: "untouched qf (path_iter d) c (fst st2)" by (auto intro: keep on_es_keeps)
  from c have "m \<noteq> MSG_FILE_INVALID_FILE" "is_file_message m"
    by (auto simp: io_query_def elim!: io_bind_OkE split: if_splits prod.splits)
  with c obtain x3 st3 x4 st4 where
    mk: "on_sd (sd_on_fs (fs_create_dir_all dir)) st2 = (Ok x3, st3)"
    and o: "on_sd (sd_on_fs (fs_open_destination d)) st3 = (Ok x4, st4)"
    and l: "download_loop env f q d m n st4 = (Ok u, st')"
    by (auto elim!: io_bind_OkE)
  have "keeps (untouched qf (path_iter d) c) (sd_on_fs (fs_create_dir_all dir))"
    by (rule untouched_fs) simp
  from keeps_run [OF on_sd_keeps [OF this] mk u2] have "untouched qf (path_iter d) c (fst st3)" .
  from loop_grows [OF l open_grows [OF o this] assms(3)] show ?thesis by (auto simp: assms(3))
qed


definition two_bytes_download :: single_downloader where
  "two_bytes_download = (demo_downloader (demo_fs\<lparr>fs_files := [[''/'', ''c'', ''a''] \<mapsto> [7, 9]]\<rparr>) demo_cfg)
     \<lparr>sd_active_download_path := Some \<lparr>dq_path = ''/x/a'', dq_file_size = 2\<rparr>\<rparr>"


subsection \<open>The list that is accepted\<close>

lemma de_loop_Ok: "de_loop env json es = (Ok j, es') \<Longrightarrow> length j \<le> MAX_EVERYTHING_FILE_SIZE \<and> prefix json j"
proof (induction env json es rule: de_loop.induct)
  case (1 env json es)
  from "1.prems" obtain es1 m p where r: "es_read env es = (Ok (), es1)" "get_message es1 = Ok m"
    "get_payload env es1 = Ok p"
    by (subst (asm) de_loop.simps) (auto split: prod.splits outcome.splits)
  with "1.prems" have len: "\<not> MAX_EVERYTHING_FILE_SIZE < length (json @ p)"
    by (subst (asm) de_loop.simps) (auto simp: Let_def split: if_splits)
  show ?case
  proof (cases "m = MSG_FILE_LIST_FINAL")
    case True
    with r len "1.prems" show ?thesis by (subst (asm) de_loop.simps) (auto simp: Let_def)
  next
    case False
    with r len "1.prems" have "de_loop env (json @ p) es1 = (Ok j, es')"
      by (subst (asm) de_loop.simps) (simp add: Let_def)
    from "1.IH" [OF r(1) [symmetric] refl r(2,3) refl len False this] show ?thesis
      by (auto dest: append_prefixD)
  qed
qed

text \<open>The pieces of a list in order, the last of them marked.\<close>

definition list_frames :: "bytes list \<Rightarrow> bytes \<Rightarrow> frame list" where
  "list_frames pieces final = map (\<lambda>p. (MSG_FILE_LIST_PIECE, p)) pieces @ [(MSG_FILE_LIST_FINAL, final)]"

lemma list_frames_simps:
  "list_frames [] final = [(MSG_FILE_LIST_FINAL, final)]"
  "list_frames (p # ps) final = (MSG_FILE_LIST_PIECE, p) # list_frames ps final"
  by (simp_all add: list_frames_def)

lemma read_kept_trans: "read_kept a b \<Longrightarrow> read_kept b c \<Longrightarrow> read_kept a c"
  by (simp add: read_kept_def)

lemma de_loop_receives:
  assumes "incoming env rest (list_frames pieces final @ later) es"
    and "length json + length (concat pieces) + length final \<le> MAX_EVERYTHING_FILE_SIZE"
  shows "\<exists>es'. de_loop env json es = (Ok (json @ concat pieces @ final), es') \<and> incoming env rest later es'
     \<and> read_kept es es' \<and> es_nonce es' = es_nonce es + of_nat (frames_nonces (list_frames pieces final))"
  using assms
proof (induction pieces arbitrary: json es)
  case Nil
  then have "incoming env rest ((MSG_FILE_LIST_FINAL, final) # later) es" by (simp add: list_frames_simps)
  from es_read_frame [OF this] Nil(2) show ?case
    by (subst de_loop.simps) (auto simp: holds_frame_def Let_def list_frames_simps)
next
  case (Cons p pieces)
  then have "incoming env rest ((MSG_FILE_LIST_PIECE, p) # list_frames pieces final @ later) es"
    by (simp add: list_frames_simps)
  from es_read_frame [OF this] obtain es1 where r: "es_read env es = (Ok (), es1)"
    "holds_frame env (MSG_FILE_LIST_PIECE, p) es1" "incoming env rest (list_frames pieces final @ later) es1"
    "read_kept es es1" "es_nonce es1 = es_nonce es + of_nat (frame_nonces (MSG_FILE_LIST_PIECE, p))" by blast
  from Cons.IH [OF r(3), of "json @ p"] Cons.prems(2) obtain es' where
    d: "de_loop env (json @ p) es1 = (Ok ((json @ p) @ concat pieces @ final), es')" "incoming env rest later es'"
    "read_kept es1 es'" "es_nonce es' = es_nonce es1 + of_nat (frames_nonces (list_frames pieces final))"
    by auto
  have "de_loop env json es = de_loop env (json @ p) es1"
    using r(1,2) Cons.prems(2) by (subst de_loop.simps) (simp add: holds_frame_def Let_def msg_consts)
  with r d read_kept_trans [OF r(4) d(3)] show ?case by (auto simp: list_frames_simps add.assoc)
qed

lemma list_received:
  assumes w: "can_write (le_crypto env) 1 es"
    and inc: "incoming (le_crypto env) rest (list_frames pieces final @ later) (es\<lparr>es_nonce := es_nonce es + 1\<rparr>)"
    and json: "length (concat pieces @ final) \<le> MAX_EVERYTHING_FILE_SIZE" "is_utf8 (concat pieces @ final)"
      "le_of_json env (of_bytes (concat pieces @ final)) = Some parsed"
  shows "\<exists>es'. download_everything_file env es = (Ok (reset_file_size_string (remove_invalid_files parsed)), es')
     \<and> incoming (le_crypto env) rest later es'
     \<and> t_out (es_stream es') = t_out (es_stream es) @ frame_wire (le_crypto env) (es_key es) (es_nonce es) (MSG_FILE_LIST, [])"
proof -
  let ?c = "le_crypto env"
  have f: "frame_ok (MSG_FILE_LIST, [])" "frame_nonces (MSG_FILE_LIST, []) = 1"
    by (simp_all add: frame_ok_def frame_nonces_def)
  from w f(2) have "can_write ?c (frame_nonces (MSG_FILE_LIST, []) + 0) es" by simp
  from es_write_frame [OF f(1) this] obtain es1 where
    e: "es_write ?c MSG_FILE_LIST [] es = (Ok (), es1)" "wrote ?c [(MSG_FILE_LIST, [])] es es1" "can_write ?c 0 es1" by auto
  with inc f(2) have "incoming ?c rest (list_frames pieces final @ later) es1"
    by (simp add: incoming_def wrote_def can_write_def)
  from de_loop_receives [OF this, of "[]"] json(1) obtain es2 where
    "de_loop ?c [] es1 = (Ok (concat pieces @ final), es2)" "incoming ?c rest later es2" "read_kept es1 es2" by auto
  with e json(2,3) show ?thesis
    by (auto simp: download_everything_file_def io_bind_def io_lift_def from_utf8_def wrote_def read_kept_def)
qed

text \<open>
  C36. The list that is kept: at most \<open>MAX_EVERYTHING_FILE_SIZE\<close> bytes of UTF-8 that parse, whatever
  number of pieces the peer sends, with its invalid entries removed and its sizes shown anew.
\<close>

theorem accepted_list_bounded:
  assumes "download_everything_file env es = (Ok f, es')"
  shows "\<exists>json parsed. length json \<le> MAX_EVERYTHING_FILE_SIZE \<and> is_utf8 json
     \<and> le_of_json env (of_bytes json) = Some parsed \<and> f = reset_file_size_string (remove_invalid_files parsed)"
  using assms unfolding download_everything_file_def
  by (auto simp: io_lift_def from_utf8_def elim!: io_bind_OkE dest!: de_loop_Ok split: if_splits) blast

definition json_lib :: lib_env where
  "json_lib = demo_lib\<lparr>le_of_json := (\<lambda>s. Some (new_shared_file s True [] 0))\<rparr>"

definition json_stream :: encrypted_stream where
  "json_stream = null_stream (frames_wire null_env [] 1 (list_frames [as_bytes ''a''] (as_bytes ''b'')))"

lemma json_stream_ready:
  "can_write (le_crypto json_lib) 1 json_stream"
  "incoming (le_crypto json_lib) [] (list_frames [as_bytes ''a''] (as_bytes ''b'') @ [])
     (json_stream\<lparr>es_nonce := es_nonce json_stream + 1\<rparr>)"
  using null_env_ok
  by (simp_all add: can_write_def incoming_def json_lib_def demo_lib_def json_stream_def list_frames_simps unat_NONCE_MAX
      frame_ok_def size_consts frame_nonces_def es_wf_def null_stream_def new_encrypted_stream_def NONCE_INIT_def)

theorem accepted_list_bounded_witness:
  "\<exists>f es' json. download_everything_file json_lib json_stream = (Ok f, es') \<and> is_utf8 json
     \<and> f = reset_file_size_string (remove_invalid_files (new_shared_file (of_bytes json) True [] 0))"
proof -
  have "is_utf8 (as_bytes ''ab'')" by (rule is_utf8_ascii) (simp add: is_ascii_def)
  then have "is_utf8 (concat [as_bytes ''a''] @ as_bytes ''b'')"
    using as_bytes_append [of "''a''" "''b''"] by simp
  from list_received [OF json_stream_ready _ this] obtain f es' where
    r: "download_everything_file json_lib json_stream = (Ok f, es')"
    by (auto simp: json_lib_def MAX_EVERYTHING_FILE_SIZE_def)
  from accepted_list_bounded [OF r] r show ?thesis by (auto simp: json_lib_def)
qed

end
