(* ===== verification/File_Transfer.thy ===== *)
theory File_Transfer
  imports Uploader Download_Files
begin

text \<open>
  Both ends of a connection together: what the uploader writes for a request, as frames, and that the
  downloader at the other end gets from these frames the list or the file that the uploader has.
\<close>

subsection \<open>An uploader that nobody disturbs\<close>

text \<open>No message from the manager is waiting and the app loop is there.\<close>

definition quiet_upload :: "single_uploader \<Rightarrow> bool" where
  "quiet_upload s \<longleftrightarrow> ul_polls s = [] \<and> \<not> ul_should_shutdown s \<and> ch_alive (ul_app_sender s)"

lemma ul_send_quiet:
  assumes "quiet_upload s"
  shows "\<exists>ch. ul_send m s = (Ok (), s\<lparr>ul_app_sender := ch\<rparr>) \<and> quiet_upload (s\<lparr>ul_app_sender := ch\<rparr>)"
  using assms by (auto simp: ul_send_def send_app_def ch_send_def quiet_upload_def)

lemma ul_log_quiet:
  assumes "quiet_upload s"
  shows "\<exists>ch. on_ul (io_self (\<lambda>s. ul_send (m s))) (s, es) = (Ok (), (s\<lparr>ul_app_sender := ch\<rparr>, es))
     \<and> quiet_upload (s\<lparr>ul_app_sender := ch\<rparr>)"
  using ul_send_quiet [OF assms, of "m s"] by (auto simp: on_ul_def io_self_def)

lemma told_quiet: "quiet_upload s \<Longrightarrow> told_to_stop (s, es) = (Ok False, (s, es))"
  by (simp add: told_to_stop_def ul_read_receiver_def on_ul_def io_self_def io_bind_def io_ok_def io_get_def quiet_upload_def)

lemma told_bind: "quiet_upload s \<Longrightarrow> io_bind told_to_stop g (s, es) = g False (s, es)"
  by (rule io_bind_Ok) (rule told_quiet)

lemma on_ues_write:
  assumes "frame_ok f" and "can_write (up_crypto env) (frame_nonces f + k) es"
  shows "\<exists>es'. on_ues (es_write (up_crypto env) (fst f) (snd f)) (s, es) = (Ok (), (s, es'))
     \<and> wrote (up_crypto env) [f] es es' \<and> can_write (up_crypto env) k es'"
  using enc_link.send_ok [OF assms] by (auto simp: on_ues_def)

lemma wrote_Cons: "wrote env [f] es es' \<Longrightarrow> wrote env fs es' es'' \<Longrightarrow> wrote env (f # fs) es es''"
  using wrote_trans [of env "[f]" es es' fs es''] by simp

subsection \<open>The frames of a list\<close>

text \<open>The pieces of a list and its last piece: the specification of the loop.\<close>

function list_pieces :: "bytes \<Rightarrow> bytes list \<times> bytes" where
  "list_pieces rest =
     (if MAX_DATA_SIZE < length rest
      then (case list_pieces (drop MAX_DATA_SIZE rest) of (ps, final) \<Rightarrow> (take MAX_DATA_SIZE rest # ps, final))
      else ([], rest))"
  by pat_completeness auto
termination
  by (relation "measure length") (auto simp: size_consts)

declare list_pieces.simps [simp del]

lemma list_pieces_whole: "list_pieces rest = (ps, final) \<Longrightarrow> concat ps @ final = rest"
proof (induction rest arbitrary: ps final rule: list_pieces.induct)
  case (1 rest)
  show ?case
  proof (cases "MAX_DATA_SIZE < length rest")
    case True
    with "1.prems" obtain qs where q: "list_pieces (drop MAX_DATA_SIZE rest) = (qs, final)" "ps = take MAX_DATA_SIZE rest # qs"
      by (subst (asm) list_pieces.simps) (auto split: prod.splits)
    from "1.IH" [OF True q(1)] q(2) show ?thesis by simp
  next
    case False
    with "1.prems" show ?thesis by (subst (asm) list_pieces.simps) simp
  qed
qed

lemma list_pieces_ok: "list_pieces rest = (ps, final) \<Longrightarrow> list_all frame_ok (list_frames ps final)"
proof (induction rest arbitrary: ps final rule: list_pieces.induct)
  case (1 rest)
  show ?case
  proof (cases "MAX_DATA_SIZE < length rest")
    case True
    with "1.prems" obtain qs where q: "list_pieces (drop MAX_DATA_SIZE rest) = (qs, final)" "ps = take MAX_DATA_SIZE rest # qs"
      by (subst (asm) list_pieces.simps) (auto split: prod.splits)
    from "1.IH" [OF True q(1)] q(2) show ?thesis by (simp add: list_frames_simps frame_ok_def)
  next
    case False
    with "1.prems" show ?thesis by (subst (asm) list_pieces.simps) (auto simp: list_frames_simps frame_ok_def)
  qed
qed

definition list_cost :: "bytes \<Rightarrow> nat" where
  "list_cost rest = (case list_pieces rest of (ps, final) \<Rightarrow> frames_nonces (list_frames ps final))"

lemma list_loop_sends:
  assumes "quiet_upload s" and "list_pieces rest = (ps, final)"
    and "can_write (up_crypto env) (frames_nonces (list_frames ps final) + k) es"
  shows "\<exists>es'. list_loop env rest (s, es) = (Ok Served, (snd (remember_list_sent s), es'))
     \<and> wrote (up_crypto env) (list_frames ps final) es es' \<and> can_write (up_crypto env) k es'"
  using assms
proof (induction env rest arbitrary: ps es rule: list_loop.induct)
  case (1 env rest)
  show ?case
  proof (cases "MAX_DATA_SIZE < length rest")
    case True
    with "1.prems"(2) obtain qs where q: "list_pieces (drop MAX_DATA_SIZE rest) = (qs, final)" "ps = take MAX_DATA_SIZE rest # qs"
      by (subst (asm) list_pieces.simps) (auto split: prod.splits)
    let ?f = "(MSG_FILE_LIST_PIECE, take MAX_DATA_SIZE rest)"
    have "frame_ok ?f" by (simp add: frame_ok_def)
    moreover have "can_write (up_crypto env) (frame_nonces ?f + (frames_nonces (list_frames qs final) + k)) es"
      using "1.prems"(3) q(2) by (simp add: list_frames_simps add.assoc)
    ultimately obtain es1 where e: "on_ues (es_write (up_crypto env) (fst ?f) (snd ?f)) (s, es) = (Ok (), (s, es1))"
      "wrote (up_crypto env) [?f] es es1" "can_write (up_crypto env) (frames_nonces (list_frames qs final) + k) es1"
      using on_ues_write by blast
    from "1.IH" [OF True _ "1.prems"(1) q(1) e(3)] obtain es' where
      "list_loop env (drop MAX_DATA_SIZE rest) (s, es1) = (Ok Served, (snd (remember_list_sent s), es'))"
      "wrote (up_crypto env) (list_frames qs final) es1 es'" "can_write (up_crypto env) k es'" by blast
    with e q(2) True told_quiet [OF "1.prems"(1)] wrote_Cons [OF e(2)] show ?thesis
      by (subst list_loop.simps) (auto simp: io_bind_def list_frames_simps)
  next
    case False
    with "1.prems"(2) have p: "ps = []" "final = rest" by (subst (asm) list_pieces.simps, simp)+
    let ?f = "(MSG_FILE_LIST_FINAL, rest)"
    have "frame_ok ?f" using False by (simp add: frame_ok_def)
    moreover have "can_write (up_crypto env) (frame_nonces ?f + k) es"
      using "1.prems"(3) p by (simp add: list_frames_simps)
    ultimately obtain es1 where e: "on_ues (es_write (up_crypto env) (fst ?f) (snd ?f)) (s, es) = (Ok (), (s, es1))"
      "wrote (up_crypto env) [?f] es es1" "can_write (up_crypto env) k es1"
      using on_ues_write by blast
    with p False told_quiet [OF "1.prems"(1)] show ?thesis
      by (subst list_loop.simps) (auto simp: io_bind_def list_frames_simps on_ul_def remember_list_sent_def io_mod_def io_ok_def)
  qed
qed

subsection \<open>The frames of a file\<close>

definition file_frames :: "bytes list \<Rightarrow> bytes \<Rightarrow> frame list" where
  "file_frames pieces final = map (\<lambda>p. (MSG_FILE_CHUNK, p)) pieces @ [(MSG_FILE_FINISHED, final)]"

lemma file_frames_simps:
  "file_frames [] final = [(MSG_FILE_FINISHED, final)]"
  "file_frames (p # ps) final = (MSG_FILE_CHUNK, p) # file_frames ps final"
  by (simp_all add: file_frames_def)

text \<open>Pieces that a reader of a file may see: none is empty but the last one of an empty rest.\<close>

definition pieces_of :: "bytes \<Rightarrow> bytes list \<Rightarrow> bytes \<Rightarrow> bool" where
  "pieces_of rest ps final \<longleftrightarrow> concat ps @ final = rest \<and> [] \<notin> set ps \<and> (final = [] \<longrightarrow> rest = [])
     \<and> list_all frame_ok (file_frames ps final)"

lemma pieces_of_Nil: "length final \<le> MAX_DATA_SIZE \<Longrightarrow> pieces_of final [] final"
  by (simp add: pieces_of_def file_frames_simps frame_ok_def)

lemma pieces_of_Cons:
  "pieces_of rest ps final \<Longrightarrow> p \<noteq> [] \<Longrightarrow> rest \<noteq> [] \<Longrightarrow> length p \<le> MAX_DATA_SIZE \<Longrightarrow> pieces_of (p @ rest) (p # ps) final"
  by (auto simp: pieces_of_def file_frames_simps frame_ok_def)

lemma read_some_quiet:
  assumes "quiet_upload s"
  obtains chunk left ns where "on_ul (read_some rest) (s, es) = (Ok chunk, (s\<lparr>ul_reads := ns\<rparr>, es))"
    and "rest = chunk @ left" and "length chunk \<le> MAX_DATA_SIZE" and "chunk = [] \<longrightarrow> rest = []"
proof (cases "ul_reads s")
  case Nil
  then have "on_ul (read_some rest) (s, es) = (Ok (take MAX_DATA_SIZE rest), (s\<lparr>ul_reads := []\<rparr>, es))"
    by (simp add: on_ul_def read_some_def)
  then show ?thesis using that [of "take MAX_DATA_SIZE rest" "[]" "drop MAX_DATA_SIZE rest"] by (simp add: size_consts)
next
  case (Cons n ns)
  let ?n = "max 1 (min n MAX_DATA_SIZE)"
  have "on_ul (read_some rest) (s, es) = (Ok (take ?n rest), (s\<lparr>ul_reads := ns\<rparr>, es))"
    using Cons by (simp add: on_ul_def read_some_def)
  moreover have "?n \<le> MAX_DATA_SIZE" by (simp add: size_consts)
  then have "length (take ?n rest) \<le> MAX_DATA_SIZE" by simp
  ultimately show ?thesis using that [of "take ?n rest" ns "drop ?n rest"] by simp
qed

lemma throttled_quiet:
  assumes "quiet_upload s"
  shows "\<exists>s'. throttled_upload path n len (s, es) = (Ok (), (s', es)) \<and> quiet_upload s'
     \<and> ul_nickname s' = ul_nickname s \<and> ul_list_cache s' = ul_list_cache s \<and> ul_active_msg s' = ul_active_msg s"
proof (cases "ul_progress_due s")
  case Nil
  with assms show ?thesis by (auto simp: throttled_upload_def io_bind_def io_get_def io_ok_def)
next
  case (Cons d ds)
  let ?s = "s\<lparr>ul_progress_due := ds\<rparr>"
  have q: "quiet_upload ?s" using assms by (simp add: quiet_upload_def)
  let ?m = "\<lambda>s. UploadStateChange \<lparr>sus_nickname = ul_nickname s, sus_path = path,
      sus_percent = min (f64_percent n len) 99, sus_is_online = True\<rparr>"
  from ul_log_quiet [OF q, of ?m es] obtain ch where
    "on_ul (io_self (\<lambda>s. ul_send (?m s))) (?s, es) = (Ok (), (?s\<lparr>ul_app_sender := ch\<rparr>, es))"
    "quiet_upload (?s\<lparr>ul_app_sender := ch\<rparr>)" by blast
  with Cons q show ?thesis
    by (cases d) (auto simp: throttled_upload_def upload_state_def io_bind_def io_get_def io_ok_def
        on_ul_def [where m = "io_mod _"] io_mod_def)
qed

text \<open>One turn of the loop: a piece that is not the last, or the last one.\<close>

lemma send_step_sends:
  assumes "quiet_upload s" and len: "current + length rest = unat (sf_file_size f)"
    and w: "can_write (up_crypto env) (2 + k) es"
  obtains chunk left s' es' where "rest = chunk @ left" and "length chunk \<le> MAX_DATA_SIZE"
    and "quiet_upload s' \<and> ul_nickname s' = ul_nickname s \<and> ul_list_cache s' = ul_list_cache s \<and> ul_active_msg s' = ul_active_msg s"
    and "send_step env f path rest current (s, es) =
      (Ok \<lparr>sp_finished = (left = []), sp_stopped = False, sp_rest = left, sp_sent = current + length chunk\<rparr>, (s', es'))"
    and "wrote (up_crypto env) [(if left = [] then MSG_FILE_FINISHED else MSG_FILE_CHUNK, chunk)] es es'"
    and "can_write (up_crypto env) k es'" and "chunk = [] \<longrightarrow> rest = []"
proof -
  obtain chunk left ns where c: "on_ul (read_some rest) (s, es) = (Ok chunk, (s\<lparr>ul_reads := ns\<rparr>, es))"
    "rest = chunk @ left" "length chunk \<le> MAX_DATA_SIZE" "chunk = [] \<longrightarrow> rest = []"
    by (rule read_some_quiet [OF assms(1), of rest es])
  have fin: "unat (sf_file_size f) \<le> current + length chunk \<or> chunk = [] \<longleftrightarrow> left = []"
    using c(2,4) len by (cases left) auto
  let ?s = "s\<lparr>ul_reads := ns\<rparr>" and ?f = "(if left = [] then MSG_FILE_FINISHED else MSG_FILE_CHUNK, chunk)"
  have q: "quiet_upload ?s" using assms(1) by (simp add: quiet_upload_def)
  have "frame_nonces ?f \<le> 2" by (simp add: frame_nonces_def)
  with w have "can_write (up_crypto env) (frame_nonces ?f + k) es" by (simp add: can_write_def)
  moreover have "frame_ok ?f" using c(3) by (simp add: frame_ok_def)
  ultimately obtain es' where e: "on_ues (es_write (up_crypto env) (fst ?f) (snd ?f)) (?s, es) = (Ok (), (?s, es'))"
    "wrote (up_crypto env) [?f] es es'" "can_write (up_crypto env) k es'"
    using on_ues_write [of ?f env k es ?s] by blast
  from throttled_quiet [OF q, of path "current + length chunk" "unat (sf_file_size f)" es'] obtain s' where
    t: "throttled_upload path (current + length chunk) (unat (sf_file_size f)) (?s, es') = (Ok (), (s', es'))" "quiet_upload s'"
    "ul_nickname s' = ul_nickname s" "ul_list_cache s' = ul_list_cache s" "ul_active_msg s' = ul_active_msg s" by auto
  have "send_step env f path rest current (s, es) =
      (Ok \<lparr>sp_finished = (left = []), sp_stopped = False, sp_rest = left, sp_sent = current + length chunk\<rparr>,
       (if left = [] then ?s else s', es'))"
  proof (cases "left = []")
    case True
    with fin have f1: "(unat (sf_file_size f) \<le> current + length chunk \<or> chunk = []) = True" by simp
    have d: "drop (length chunk) rest = []" using c(2) True by simp
    show ?thesis
      using e(1) True unfolding send_step_def io_bind_Ok [where m = "on_ul (read_some rest)", OF c(1)] Let_def f1 d
      by (simp add: io_bind_Ok io_ok_def)
  next
    case False
    with fin have f1: "(unat (sf_file_size f) \<le> current + length chunk \<or> chunk = []) = False" by simp
    have d: "drop (length chunk) rest = left" using c(2) by simp
    show ?thesis
      using e(1) False unfolding send_step_def io_bind_Ok [where m = "on_ul (read_some rest)", OF c(1)] Let_def f1 d
      by (simp add: io_bind_Ok t(1) told_quiet [OF t(2)] io_ok_def)
  qed
  then show ?thesis using that [of chunk left "if left = [] then ?s else s'" es'] c e t q by (auto split: if_splits)
qed

lemma send_loop_sends:
  assumes "quiet_upload s" and "current + length rest = unat (sf_file_size f)"
    and "can_write (up_crypto env) (2 * (length rest + 1) + k) es"
  shows "\<exists>ps final s' es'. send_loop env f path rest current (s, es) = (Ok True, (s', es'))
     \<and> wrote (up_crypto env) (file_frames ps final) es es' \<and> pieces_of rest ps final \<and> can_write (up_crypto env) k es'
     \<and> quiet_upload s' \<and> ul_nickname s' = ul_nickname s \<and> ul_list_cache s' = ul_list_cache s \<and> ul_active_msg s' = ul_active_msg s"
  using assms
proof (induction "length rest" arbitrary: rest current s es rule: less_induct)
  case less
  have "can_write (up_crypto env) (2 + (2 * length rest + k)) es" using less.prems(3) by (simp add: can_write_def)
  from send_step_sends [OF less.prems(1,2) this] obtain chunk left s1 es1 where
    c: "rest = chunk @ left" "length chunk \<le> MAX_DATA_SIZE" "chunk = [] \<longrightarrow> rest = []"
    and q: "quiet_upload s1" "ul_nickname s1 = ul_nickname s" "ul_list_cache s1 = ul_list_cache s" "ul_active_msg s1 = ul_active_msg s"
    and step: "send_step env f path rest current (s, es) =
      (Ok \<lparr>sp_finished = (left = []), sp_stopped = False, sp_rest = left, sp_sent = current + length chunk\<rparr>, (s1, es1))"
    and w: "wrote (up_crypto env) [(if left = [] then MSG_FILE_FINISHED else MSG_FILE_CHUNK, chunk)] es es1"
      "can_write (up_crypto env) (2 * length rest + k) es1" by metis
  show ?case
  proof (cases "left = []")
    case True
    with step have "send_loop env f path rest current (s, es) = (Ok True, (s1, es1))"
      by (subst send_loop.simps) simp
    moreover have "wrote (up_crypto env) (file_frames [] chunk) es es1" using w(1) True by (simp add: file_frames_simps)
    moreover have "can_write (up_crypto env) k es1" using w(2) by (simp add: can_write_def)
    moreover have "pieces_of rest [] chunk" using c True by (simp add: pieces_of_Nil)
    ultimately show ?thesis using q by blast
  next
    case False
    with c have "chunk \<noteq> []" by auto
    then have less_left: "length left < length rest" using c(1) by simp
    have "can_write (up_crypto env) (2 * (length left + 1) + k) es1"
      using w(2) less_left by (simp add: can_write_def)
    moreover have "(current + length chunk) + length left = unat (sf_file_size f)" using less.prems(2) c(1) by simp
    ultimately obtain ps final s' es' where
      r: "send_loop env f path left (current + length chunk) (s1, es1) = (Ok True, (s', es'))"
      "wrote (up_crypto env) (file_frames ps final) es1 es'" "pieces_of left ps final" "can_write (up_crypto env) k es'"
      "quiet_upload s'" "ul_nickname s' = ul_nickname s1" "ul_list_cache s' = ul_list_cache s1" "ul_active_msg s' = ul_active_msg s1"
      using less.hyps [OF less_left q(1)] by blast
    have "send_loop env f path rest current (s, es) = (Ok True, (s', es'))"
      using step r(1) False by (subst send_loop.simps) simp
    moreover have "wrote (up_crypto env) (file_frames (chunk # ps) final) es es'"
      using wrote_Cons [OF w(1) r(2)] False by (simp add: file_frames_simps)
    moreover have "pieces_of rest (chunk # ps) final"
      using pieces_of_Cons [OF r(3) \<open>chunk \<noteq> []\<close> False c(2)] c(1) by simp
    ultimately show ?thesis using r(4-8) q(2-4) by metis
  qed
qed

subsection \<open>A download that nobody disturbs\<close>

text \<open>No message is waiting, the app loop is there, and the disk takes what is written.\<close>

definition quiet_download :: "single_downloader \<Rightarrow> bool" where
  "quiet_download s \<longleftrightarrow> sd_polls s = [] \<and> \<not> sd_stop_downloading s \<and> ch_alive (sd_app_sender s) \<and> disk_writes s"

text \<open>The destination has the bytes \<open>b\<close>, and is not the file of the queue.\<close>

definition receiving :: "string \<Rightarrow> bytes \<Rightarrow> single_downloader \<Rightarrow> bool" where
  "receiving d b s \<longleftrightarrow> quiet_download s \<and> untouched (sd_path_queue_file s) (path_iter d) (Some b) s"

lemmas receiving_defs = receiving_def quiet_download_def untouched_def disk_writes_def

lemma receiving_mod:
  assumes "receiving d b s" and "sd_polls s' = sd_polls s" and "sd_stop_downloading s' = sd_stop_downloading s"
    and "ch_alive (sd_app_sender s') = ch_alive (sd_app_sender s)"
    and "sd_path_queue_file s' = sd_path_queue_file s" and "sd_fs s' = sd_fs s"
  shows "receiving d b s'"
  using assms by (simp add: receiving_defs)

lemma sd_send_receives:
  assumes "receiving d b s"
  shows "\<exists>ch. sd_send m s = (Ok (), s\<lparr>sd_app_sender := ch\<rparr>) \<and> receiving d b (s\<lparr>sd_app_sender := ch\<rparr>)"
  using assms by (auto simp: sd_send_def send_app_def ch_send_def receiving_defs)

lemma append_receives:
  assumes "receiving d b s"
  shows "\<exists>s'. sd_on_fs (fs_append_open d bs) s = (Ok (), s') \<and> receiving d (b @ bs) s'"
  using assms by (auto simp: sd_on_fs_def fs_append_open_def fs_put_def receiving_defs fs_may_write_def)

lemma throttled_receives:
  assumes "receiving d b s"
  shows "\<exists>s'. throttled_update s = (Ok (), s') \<and> receiving d b s'"
proof (cases "sd_progress_due s")
  case Nil
  with assms show ?thesis by (simp add: throttled_update_def)
next
  case (Cons due rest)
  have "receiving d b (s\<lparr>sd_progress_due := rest\<rparr>)" using assms by (rule receiving_mod) simp_all
  then show ?thesis
    using Cons assms sd_send_receives [of d b "s\<lparr>sd_progress_due := rest\<rparr>"]
    by (cases due) (auto simp: throttled_update_def app_update_in_progress_def io_self_def)
qed

lemma finished_receives:
  assumes "receiving d b s"
  shows "\<exists>s'. set_active_download_finished s = (Ok (), s') \<and> receiving d b s'"
proof -
  let ?s = "s\<lparr>sd_download_queue := tl (sd_download_queue s)\<rparr>"
  have r: "receiving d b ?s" using assms by (rule receiving_mod) simp_all
  then have "disk_writes ?s" by (simp add: receiving_defs)
  from write_queue_runs [OF this] obtain fs where
    w: "write_queue ?s = (Ok (), ?s\<lparr>sd_fs := fs\<rparr>)" "queue_synced (?s\<lparr>sd_fs := fs\<rparr>)" by blast
  have "untouched (sd_path_queue_file s) (path_iter d) (Some b) (?s\<lparr>sd_fs := fs\<rparr>)"
    by (rule keeps_run [OF untouched_queue w(1)]) (use r in \<open>simp add: receiving_def\<close>)
  with w r have "receiving d b (?s\<lparr>sd_fs := fs, sd_active_download_path := None\<rparr>)"
    by (simp add: receiving_def quiet_download_def queue_synced_def untouched_def disk_writes_def)
  with w show ?thesis
    by (auto simp: set_active_download_finished_def io_bind_def io_mod_def)
qed

lemma on_sd_Ok_run: "m s = (Ok x, s') \<Longrightarrow> on_sd m (s, es) = (Ok x, (s', es))"
  by (simp add: on_sd_def)

lemma settle_receives:
  assumes "receiving d b s" and "m = MSG_FILE_FINISHED \<longleftrightarrow> n = expected_size f q"
  shows "\<exists>s'. settle_chunk f q d m n (s, es) = (Ok (m = MSG_FILE_FINISHED, n), (s', es)) \<and> receiving d b s'"
proof (cases "m = MSG_FILE_FINISHED \<and> sf_path f = dq_path q")
  case False
  with assms show ?thesis
    by (auto simp: settle_chunk_def Let_def expected_size_def io_bind_def io_ok_def split: if_splits)
next
  case True
  from finished_receives [OF assms(1)] obtain s1 where
    1: "set_active_download_finished s = (Ok (), s1)" "receiving d b s1" by blast
  let ?m = "app_update_completed (dq_path q) d"
  have "\<exists>s'. io_self (\<lambda>s. ?m (sd_active_download_total_size s)) s1 = (Ok (), s') \<and> receiving d b s'"
    using sd_send_receives [OF 1(2)] by (auto simp: app_update_completed_def io_self_def)
  then obtain s2 where
    "io_self (\<lambda>s. ?m (sd_active_download_total_size s)) s1 = (Ok (), s2)" "receiving d b s2" by blast
  with 1 True assms(2) show ?thesis
    by (auto simp: on_sd_Ok_run settle_chunk_def Let_def expected_size_def io_bind_def io_ok_def)
qed

lemma chunk_step_receives:
  assumes "receiving d b s" and "holds_frame (le_crypto env) (m, p) es"
    and "m = MSG_FILE_FINISHED \<longleftrightarrow> n + length p = expected_size f q"
  shows "\<exists>s'. chunk_step env f q d m n (s, es) = (Ok (m = MSG_FILE_FINISHED, n + length p), (s', es)) \<and> receiving d (b @ p) s'"
proof -
  let ?s = "s\<lparr>sd_active_downloaded_current_bytes := sd_active_downloaded_current_bytes s + length p\<rparr>"
  have "receiving d b ?s" using assms(1) by (rule receiving_mod) simp_all
  from append_receives [OF this, of p] obtain s1 where
    1: "sd_on_fs (fs_append_open d p) ?s = (Ok (), s1)" "receiving d (b @ p) s1" by blast
  from throttled_receives [OF 1(2)] obtain s2 where
    2: "throttled_update s1 = (Ok (), s2)" "receiving d (b @ p) s2" by blast
  from settle_receives [OF 2(2) assms(3), of es] obtain s3 where
    "settle_chunk f q d m (n + length p) (s2, es) = (Ok (m = MSG_FILE_FINISHED, n + length p), (s3, es))"
    "receiving d (b @ p) s3" by blast
  with 1 2 assms(2) show ?thesis
    by (auto simp: chunk_step_def holds_frame_def io_bind_def io_query_def on_sd_run on_sd_Ok_run)
qed

lemma read_receiver_quiet: "quiet_download s \<Longrightarrow> on_sd read_receiver (s, es) = (Ok (), (s, es))"
  by (simp add: on_sd_def read_receiver_def io_self_def io_ok_def quiet_download_def)

lemma on_es_read:
  assumes "incoming env rest (f # fs) es"
  obtains es' where "on_es (es_read env) (s, es) = (Ok (), (s, es'))" and "holds_frame env f es'"
    and "incoming env rest fs es'" and "read_kept es es'" and "es_nonce es' = es_nonce es + of_nat (frame_nonces f)"
  using es_read_frame [OF assms] by (auto simp: on_es_def)

lemma next_chunk_receives:
  assumes "incoming (le_crypto env) rest (f # fs) es" and "is_file_message (fst f)" and "quiet_download s"
  shows "\<exists>es'. next_chunk env (s, es) = (Ok (Some (fst f)), (s, es')) \<and> holds_frame (le_crypto env) f es'
     \<and> incoming (le_crypto env) rest fs es' \<and> read_kept es es' \<and> es_nonce es' = es_nonce es + of_nat (frame_nonces f)"
proof -
  obtain es' where r: "on_es (es_read (le_crypto env)) (s, es) = (Ok (), (s, es'))" "holds_frame (le_crypto env) f es'"
    "incoming (le_crypto env) rest fs es'" "read_kept es es'" "es_nonce es' = es_nonce es + of_nat (frame_nonces f)"
    by (rule on_es_read [OF assms(1)])
  moreover from r(2) have "get_message es' = Ok (fst f)" by (simp add: holds_frame_def)
  ultimately have "next_chunk env (s, es) = (Ok (Some (fst f)), (s, es'))"
    using assms(2,3) read_receiver_quiet [OF assms(3), of es']
    by (simp add: next_chunk_def io_bind_def io_query_def quiet_download_def)
  with r show ?thesis by blast
qed

lemma download_loop_receives:
  assumes "pieces_of left ps final" and "file_frames ps final = fr # fs"
    and "holds_frame (le_crypto env) fr es" and "incoming (le_crypto env) rest (fs @ later) es"
    and "n + length left = expected_size f q" and "receiving d b s"
  shows "\<exists>s' es'. download_loop env f q d (fst fr) n (s, es) = (Ok (), (s', es')) \<and> receiving d (b @ left) s'
     \<and> incoming (le_crypto env) rest later es' \<and> read_kept es es' \<and> es_nonce es' = es_nonce es + of_nat (frames_nonces fs)"
  using assms
proof (induction ps arbitrary: left fr fs n b s es)
  case Nil
  from Nil.prems(2) have fr: "fr = (MSG_FILE_FINISHED, final)" "fs = []" by (simp_all add: file_frames_simps)
  from Nil.prems(1) have "concat [] @ final = left" unfolding pieces_of_def by blast
  then have left: "left = final" by simp
  have "MSG_FILE_FINISHED = MSG_FILE_FINISHED \<longleftrightarrow> n + length final = expected_size f q"
    using Nil.prems(5) left by simp
  from chunk_step_receives [OF Nil.prems(6) Nil.prems(3) [unfolded fr(1)] this] obtain s1 where
    1: "chunk_step env f q d MSG_FILE_FINISHED n (s, es) = (Ok (True, n + length final), (s1, es))" "receiving d (b @ final) s1" by auto
  then have "download_loop env f q d (fst fr) n (s, es) = (Ok (), (s1, es))"
    using fr(1) by (subst download_loop.simps) simp
  moreover have "read_kept es es" by (simp add: read_kept_def)
  ultimately show ?case using 1(2) Nil.prems(4) fr(2) left by auto
next
  case (Cons p ps)
  from Cons.prems(2) have fr: "fr = (MSG_FILE_CHUNK, p)" "fs = file_frames ps final" by (simp_all add: file_frames_simps)
  from Cons.prems(1) obtain left' where l: "left = p @ left'" "pieces_of left' ps final" "left' \<noteq> []"
    by (auto simp: pieces_of_def file_frames_simps)
  obtain gr gs where g: "file_frames ps final = gr # gs" by (cases "file_frames ps final") (auto simp: file_frames_def)
  have msgs: "is_file_message (fst gr)"
    using g by (cases ps) (auto simp: file_frames_simps is_file_message_def)
  have "MSG_FILE_CHUNK = MSG_FILE_FINISHED \<longleftrightarrow> n + length p = expected_size f q"
    using Cons.prems(5) l(1,3) by (cases left') (simp_all add: msg_consts)
  from chunk_step_receives [OF Cons.prems(6) Cons.prems(3) [unfolded fr(1)] this] obtain s1 where
    1: "chunk_step env f q d MSG_FILE_CHUNK n (s, es) = (Ok (MSG_FILE_CHUNK = MSG_FILE_FINISHED, n + length p), (s1, es))"
      "receiving d (b @ p) s1" by blast
  have "incoming (le_crypto env) rest (gr # gs @ later) es" using Cons.prems(4) fr g by simp
  from next_chunk_receives [OF this msgs] 1(2) obtain es1 where
    2: "next_chunk env (s1, es) = (Ok (Some (fst gr)), (s1, es1))" "holds_frame (le_crypto env) gr es1"
      "incoming (le_crypto env) rest (gs @ later) es1" "read_kept es es1" "es_nonce es1 = es_nonce es + of_nat (frame_nonces gr)"
    by (auto simp: receiving_def)
  have "(n + length p) + length left' = expected_size f q" using Cons.prems(5) l(1) by simp
  from Cons.IH [OF l(2) g 2(2,3) this 1(2)] obtain s' es' where
    3: "download_loop env f q d (fst gr) (n + length p) (s1, es1) = (Ok (), (s', es'))" "receiving d ((b @ p) @ left') s'"
      "incoming (le_crypto env) rest later es'" "read_kept es1 es'" "es_nonce es' = es_nonce es1 + of_nat (frames_nonces gs)" by blast
  have "download_loop env f q d (fst fr) n (s, es) = (Ok (), (s', es'))"
    using 1(1) 2(1) 3(1) fr by (subst download_loop.simps) (simp add: msg_consts)
  with 2 3 l(1) fr(2) g read_kept_trans [OF 2(4) 3(4)] show ?case by (auto simp: add.assoc)
qed

subsection \<open>One request\<close>

lemma send_file_sends:
  assumes "quiet_upload s" and "up_read env path = Some content" and "unat (sf_file_size f) = length content"
    and "n \<le> length content" and "can_write (up_crypto env) (2 * (length content - n + 1) + k) es"
  shows "\<exists>ps final s' es'. send_file env f path n (s, es) = (Ok Served, (s', es'))
     \<and> wrote (up_crypto env) (file_frames ps final) es es' \<and> pieces_of (drop n content) ps final
     \<and> can_write (up_crypto env) k es' \<and> quiet_upload s' \<and> ul_active_msg s' = ul_active_msg s"
proof -
  let ?state = "\<lambda>percent s. UploadStateChange
       \<lparr>sus_nickname = ul_nickname s, sus_path = path, sus_percent = percent, sus_is_online = True\<rparr>"
  from ul_log_quiet [OF assms(1), of "\<lambda>s. LogInfo (''Sending '' @ ul_nickname s @ '' file '' @ path, None)" es] obtain c1 where
    1: "ul_log LogInfo (\<lambda>s. ''Sending '' @ ul_nickname s @ '' file '' @ path) (s, es) = (Ok (), (s\<lparr>ul_app_sender := c1\<rparr>, es))"
    "quiet_upload (s\<lparr>ul_app_sender := c1\<rparr>)" by blast
  from ul_log_quiet [OF 1(2), of "?state 0" es] obtain c2 where
    2: "upload_state path 0 (s\<lparr>ul_app_sender := c1\<rparr>, es) = (Ok (), (s\<lparr>ul_app_sender := c2\<rparr>, es))"
    "quiet_upload (s\<lparr>ul_app_sender := c2\<rparr>)" by (auto simp: upload_state_def)
  have "n + length (drop n content) = unat (sf_file_size f)"
    "can_write (up_crypto env) (2 * (length (drop n content) + 1) + k) es" using assms(3-5) by simp_all
  from send_loop_sends [OF 2(2) this, of path] obtain ps final s3 es' where
    3: "send_loop env f path (drop n content) n (s\<lparr>ul_app_sender := c2\<rparr>, es) = (Ok True, (s3, es'))"
    "wrote (up_crypto env) (file_frames ps final) es es'" "pieces_of (drop n content) ps final"
    "can_write (up_crypto env) k es'" "quiet_upload s3"
    "ul_active_msg s3 = ul_active_msg (s\<lparr>ul_app_sender := c2\<rparr>)" by blast
  from ul_log_quiet [OF 3(5), of "?state 100" es'] obtain c4 where
    4: "upload_state path 100 (s3, es') = (Ok (), (s3\<lparr>ul_app_sender := c4\<rparr>, es'))"
    "quiet_upload (s3\<lparr>ul_app_sender := c4\<rparr>)" by (auto simp: upload_state_def)
  from ul_log_quiet [OF 4(2), of "\<lambda>s. LogInfo (''File transfer to '' @ ul_nickname s @ '' completed '' @ path, None)" es'] obtain c5 where
    5: "ul_log LogInfo (\<lambda>s. ''File transfer to '' @ ul_nickname s @ '' completed '' @ path) (s3\<lparr>ul_app_sender := c4\<rparr>, es')
      = (Ok (), (s3\<lparr>ul_app_sender := c5\<rparr>, es'))" "quiet_upload (s3\<lparr>ul_app_sender := c5\<rparr>)" by auto
  have "send_file env f path n (s, es) = (Ok Served, (s3\<lparr>ul_app_sender := c5\<rparr>, es'))"
    using assms(2) by (simp add: send_file_def io_bind_Ok io_lift_def 1(1) 2(1) 3(1) 4(1) 5(1) io_ok_def del: append.simps append_Cons)
  with 3 5 show ?thesis by (metis single_uploader.select_convs(6) single_uploader.surjective single_uploader.update_convs(4))
qed

text \<open>Two ends of one connection with the same key that agree on the next nonce and have room for \<open>k\<close> more.\<close>

definition paired :: "crypto_env \<Rightarrow> nat \<Rightarrow> encrypted_stream \<Rightarrow> encrypted_stream \<Rightarrow> bool" where
  "paired c k u d \<longleftrightarrow> can_write c k u \<and> can_write c k d \<and> es_key d = es_key u \<and> es_nonce d = es_nonce u"

text \<open>The frame that the uploader finds first on the wire.\<close>

definition asks :: "crypto_env \<Rightarrow> frame \<Rightarrow> encrypted_stream \<Rightarrow> bool" where
  "asks c f u \<longleftrightarrow> (\<exists>later. t_in (es_stream u) = frame_wire c (es_key u) (es_nonce u) f @ later)"

lemma asked:
  assumes "asks c f u" and "frame_ok f" and "can_write c (frame_nonces f + k) u"
  obtains u1 where "on_ues (es_read c) (s, u) = (Ok (), (s, u1))" and "holds_frame c f u1" and "can_write c k u1"
    and "es_key u1 = es_key u" and "es_nonce u1 = es_nonce u + of_nat (frame_nonces f)" and "t_out (es_stream u1) = t_out (es_stream u)"
proof -
  from assms obtain later where "incoming c later [f] u" by (auto simp: asks_def incoming_def can_write_def)
  from es_read_frame [OF this] obtain u1 where r: "es_read c u = (Ok (), u1)" "holds_frame c f u1" "incoming c later [] u1"
    "read_kept u u1" "es_nonce u1 = es_nonce u + of_nat (frame_nonces f)" by blast
  have "unat (es_nonce u1) = unat (es_nonce u) + frame_nonces f"
    unfolding r(5) using assms(3) by (intro unat_nonce_add) (simp add: can_write_def)
  with r assms(3) have "can_write c k u1" by (auto simp: can_write_def incoming_def read_kept_def)
  with r that show ?thesis by (auto simp: on_ues_def read_kept_def)
qed

text \<open>What is written on one end is what the other finds.\<close>

lemma wrote_incoming:
  assumes "wrote c fs u1 u'" and "can_write c (frames_nonces fs) d1" and "list_all frame_ok fs"
    and "es_key d1 = es_key u1" and "es_nonce d1 = es_nonce u1"
    and "t_in (es_stream d1) = drop (length (t_out (es_stream u1))) (t_out (es_stream u')) @ rest"
  shows "incoming c rest (fs @ []) d1"
  using assms by (simp add: incoming_def wrote_def can_write_def)

lemma can_write_mono: "can_write c j es \<Longrightarrow> k \<le> j \<Longrightarrow> can_write c k es"
  by (simp add: can_write_def)

lemma frames_nonces_le: "frames_nonces fs \<le> 2 * length fs"
  by (induction fs) (auto simp: frame_nonces_def)

lemma concat_length_le: "[] \<notin> set ps \<Longrightarrow> length ps \<le> length (concat ps)"
proof (induction ps)
  case (Cons p ps)
  then show ?case by (cases p) auto
qed simp

lemma pieces_cost: "pieces_of rest ps final \<Longrightarrow> frames_nonces (file_frames ps final) \<le> 2 * (length rest + 1)"
  using frames_nonces_le [of "file_frames ps final"] concat_length_le [of ps]
  by (auto simp: pieces_of_def file_frames_def)

subsection \<open>A list arrives\<close>

lemma run_loop_list:
  assumes "quiet_upload s" and "asks (up_crypto env) (MSG_FILE_LIST, []) u" and "list_pieces json = (ps, final)"
    and "can_write (up_crypto env) (1 + frames_nonces (list_frames ps final)) u"
  shows "\<exists>s' u1 u'. run_loop env ev json (s, u) = (Ok Served, (s', u')) \<and> wrote (up_crypto env) (list_frames ps final) u1 u'
     \<and> es_key u1 = es_key u \<and> es_nonce u1 = es_nonce u + 1 \<and> t_out (es_stream u1) = t_out (es_stream u)
     \<and> ul_nickname s \<in> set (ul_list_cache s')"
proof -
  let ?f = "(MSG_FILE_LIST, [])" and ?c = "up_crypto env"
  have f: "frame_ok ?f" "frame_nonces ?f = 1" by (simp_all add: frame_ok_def frame_nonces_def)
  from assms(4) f(2) have "can_write ?c (frame_nonces ?f + (frames_nonces (list_frames ps final) + 0)) u" by simp
  from asked [OF assms(2) f(1) this] obtain u1 where
    1: "on_ues (es_read ?c) (s, u) = (Ok (), (s, u1))" "holds_frame ?c ?f u1" "can_write ?c (frames_nonces (list_frames ps final) + 0) u1"
      "es_key u1 = es_key u" "es_nonce u1 = es_nonce u + 1" "t_out (es_stream u1) = t_out (es_stream u)"
    using f(2) by (metis of_nat_1)
  let ?s = "s\<lparr>ul_active_msg := MSG_FILE_LIST\<rparr>"
  have q: "quiet_upload ?s" using assms(1) by (simp add: quiet_upload_def)
  from ul_log_quiet [OF q, of "\<lambda>s. LogDebug (ul_nickname s @ '' requested file list'', None)" u1] obtain ch where
    2: "ul_log LogDebug (\<lambda>s. ul_nickname s @ '' requested file list'') (?s, u1) = (Ok (), (?s\<lparr>ul_app_sender := ch\<rparr>, u1))"
      "quiet_upload (?s\<lparr>ul_app_sender := ch\<rparr>)" by blast
  from list_loop_sends [OF 2(2) assms(3) 1(3)] obtain u' where
    3: "list_loop env json (?s\<lparr>ul_app_sender := ch\<rparr>, u1) = (Ok Served, (snd (remember_list_sent (?s\<lparr>ul_app_sender := ch\<rparr>)), u'))"
      "wrote ?c (list_frames ps final) u1 u'" by blast
  have "run_loop env ev json (s, u) = (Ok Served, (snd (remember_list_sent (?s\<lparr>ul_app_sender := ch\<rparr>)), u'))"
    using 1(1,2) 2(1) 3(1)
    by (simp add: run_loop_def send_list_def io_bind_Ok told_bind [OF assms(1)] holds_frame_def io_query_def on_ul_def [where m = "io_mod _"] io_mod_def)
  moreover have "ul_nickname s \<in> set (ul_list_cache (snd (remember_list_sent (?s\<lparr>ul_app_sender := ch\<rparr>))))"
    by (simp add: remember_list_sent_def io_mod_def)
  ultimately show ?thesis using 1 3(2) by blast
qed


subsection \<open>A file arrives\<close>

text \<open>The uploader's side: the list has the file, and the file is still as long as it was listed.\<close>

definition offers :: "upload_env \<Rightarrow> shared_file \<Rightarrow> string \<Rightarrow> bytes \<Rightarrow> bool" where
  "offers env ev path content \<longleftrightarrow>
     (\<exists>f. get_file_by_path path ev = Some f \<and> \<not> sf_is_directory f \<and> unat (sf_file_size f) = length content)
     \<and> up_read env path = Some content"

lemma selection_parses:
  assumes "n < 2 ^ 64" and "is_utf8 (as_bytes path)"
  shows "slice 0 8 (selection_payload n path) = Ok (be_enc 8 n)" "be_dec (be_enc 8 n) = n"
    "from_utf8 (drop 8 (selection_payload n path)) = Ok path"
  using assms by (simp_all add: selection_payload_def slice_def from_utf8_def)

lemma run_loop_file:
  assumes "quiet_upload s" and "asks (up_crypto env) (MSG_FILE_SELECTION_CONTINUE, selection_payload n path) u"
    and "can_write (up_crypto env) (2 * (length content - n + 2)) u" and "offers env ev path content"
    and "n \<le> length content" and "is_utf8 (as_bytes path)" and "8 + length path \<le> MAX_DATA_SIZE"
  shows "\<exists>s' u1 u' ps final. run_loop env ev json (s, u) = (Ok Served, (s', u')) \<and> wrote (up_crypto env) (file_frames ps final) u1 u'
     \<and> pieces_of (drop n content) ps final \<and> es_key u1 = es_key u \<and> es_nonce u1 = es_nonce u + 2
     \<and> t_out (es_stream u1) = t_out (es_stream u) \<and> quiet_upload s' \<and> ul_active_msg s' = MSG_FILE_SELECTION_CONTINUE"
proof -
  let ?f = "(MSG_FILE_SELECTION_CONTINUE, selection_payload n path)" and ?c = "up_crypto env"
  have f: "frame_ok ?f" "frame_nonces ?f = 2"
    using assms(7) by (auto simp: frame_ok_def frame_nonces_def selection_payload_def dest!: arg_cong [where f = length])
  have w: "can_write ?c (frame_nonces ?f + (2 * (length content - n + 1) + 0)) u"
    using assms(3) f(2) by (simp add: can_write_def)
  from asked [OF assms(2) f(1) w, of s] obtain u1 where
    1: "on_ues (es_read ?c) (s, u) = (Ok (), (s, u1))" "holds_frame ?c ?f u1" "can_write ?c (2 * (length content - n + 1) + 0) u1"
      "es_key u1 = es_key u" "es_nonce u1 = es_nonce u + 2" "t_out (es_stream u1) = t_out (es_stream u)"
    using f(2) by auto
  from assms(4) obtain g where g: "get_file_by_path path ev = Some g" "\<not> sf_is_directory g"
    "unat (sf_file_size g) = length content" "up_read env path = Some content" by (auto simp: offers_def)
  have n: "n < 2 ^ 64" using assms(5) g(3) unsigned_less [of "sf_file_size g", where ?'a = nat] by simp
  let ?s = "s\<lparr>ul_active_msg := MSG_FILE_SELECTION_CONTINUE\<rparr>"
  let ?log = "\<lambda>s. ul_nickname s @ '' chose file '' @ path @ '' at seek point '' @ show_nat n"
  have q: "quiet_upload ?s" using assms(1) by (simp add: quiet_upload_def)
  from ul_log_quiet [OF q, of "\<lambda>s. LogDebug (?log s, None)" u1] obtain ch where
    2: "ul_log LogDebug ?log (?s, u1) = (Ok (), (?s\<lparr>ul_app_sender := ch\<rparr>, u1))" "quiet_upload (?s\<lparr>ul_app_sender := ch\<rparr>)" by blast
  from send_file_sends [OF 2(2) g(4,3) assms(5) 1(3)] obtain ps final s' u' where
    3: "send_file env g path n (?s\<lparr>ul_app_sender := ch\<rparr>, u1) = (Ok Served, (s', u'))" "wrote ?c (file_frames ps final) u1 u'"
      "pieces_of (drop n content) ps final" "quiet_upload s'" "ul_active_msg s' = MSG_FILE_SELECTION_CONTINUE" by auto
  have sel: "serve_selection env ev (?s, u1) = (Ok Served, (s', u'))"
    using 1(2) 2(1) 3(1) g(1,2)
    by (simp add: selection_parses [OF n assms(6)] serve_selection_def serve_choice_def io_bind_Ok holds_frame_def io_query_def io_lift_def del: append.simps append_Cons)
  have "run_loop env ev json (s, u) = (Ok Served, (s', u'))"
    using 1(1,2) sel
    by (simp add: run_loop_def io_bind_Ok told_bind [OF assms(1)] holds_frame_def io_query_def on_ul_def [where m = "io_mod _"]
        io_mod_def msg_consts)
  with 1 3 show ?thesis by blast
qed

text \<open>
  The downloader's side: the directory can be made, and the destination opened, with the first
  \<open>n\<close> bytes of the content in it.
\<close>

definition can_receive :: "string \<Rightarrow> string \<Rightarrow> bytes \<Rightarrow> single_downloader \<Rightarrow> bool" where
  "can_receive dir dest b s \<longleftrightarrow>
     (\<exists>fs1 fs2. fs_create_dir_all dir (sd_fs s) = (Ok (), fs1) \<and> fs_open_destination dest fs1 = (Ok (), fs2)
        \<and> receiving dest b (s\<lparr>sd_fs := fs2\<rparr>))"

lemma request_receives:
  assumes "can_write (le_crypto env) 2 d" and "can_receive dir dest b s"
    and "pieces_of left ps final" and "length b + length left = expected_size f q" and "8 + length (sf_path f) \<le> MAX_DATA_SIZE"
    and "incoming (le_crypto env) rest (file_frames ps final @ []) (d\<lparr>es_nonce := es_nonce d + 2\<rparr>)"
  shows "\<exists>s' d'. request_file env f q dir dest (length b) (s, d) = (Ok (), (s', d')) \<and> receiving dest (b @ left) s'
     \<and> t_in (es_stream d') = rest"
proof -
  let ?c = "le_crypto env" and ?f = "(MSG_FILE_SELECTION_CONTINUE, selection_payload (length b) (sf_path f))"
  have f: "frame_ok ?f" "frame_nonces ?f = 2"
    using assms(5) by (auto simp: frame_ok_def frame_nonces_def selection_payload_def dest!: arg_cong [where f = length])
  from assms(1) f(2) have "can_write ?c (frame_nonces ?f + 0) d" by simp
  from es_write_frame [OF f(1) this] obtain d1 where
    1: "es_write ?c MSG_FILE_SELECTION_CONTINUE (selection_payload (length b) (sf_path f)) d = (Ok (), d1)"
      "wrote ?c [?f] d d1" "can_write ?c 0 d1" by auto
  with assms(6) f(2) have inc: "incoming ?c rest (file_frames ps final @ []) d1"
    by (simp add: incoming_def wrote_def can_write_def)
  obtain g gs where g: "file_frames ps final = g # gs" by (cases "file_frames ps final") (auto simp: file_frames_def)
  have msgs: "is_file_message (fst g)" "fst g \<noteq> MSG_FILE_INVALID_FILE"
    using g by (cases ps; auto simp: file_frames_simps is_file_message_def msg_consts)+
  from inc g have "incoming ?c rest (g # gs @ []) d1" by simp
  from on_es_read [OF this, of s] obtain d2 where
    2: "on_es (es_read ?c) (s, d1) = (Ok (), (s, d2))" "holds_frame ?c g d2" "incoming ?c rest (gs @ []) d2" by blast
  from assms(2) obtain fs1 fs2 where
    3: "fs_create_dir_all dir (sd_fs s) = (Ok (), fs1)" "fs_open_destination dest fs1 = (Ok (), fs2)"
      "receiving dest b (s\<lparr>sd_fs := fs2\<rparr>)" by (auto simp: can_receive_def)
  from download_loop_receives [OF assms(3) g 2(2,3) assms(4) 3(3)] obtain s' d' where
    4: "download_loop env f q dest (fst g) (length b) (s\<lparr>sd_fs := fs2\<rparr>, d2) = (Ok (), (s', d'))"
      "receiving dest (b @ left) s'" "incoming ?c rest [] d'" by blast
  have w: "on_es (es_write ?c MSG_FILE_SELECTION_CONTINUE (selection_payload (length b) (sf_path f))) (s, d) = (Ok (), (s, d1))"
    using 1(1) by (simp add: on_es_def)
  have "on_sd (sd_on_fs (fs_create_dir_all dir)) (s, d2) = (Ok (), (s\<lparr>sd_fs := fs1\<rparr>, d2))"
    "on_sd (sd_on_fs (fs_open_destination dest)) (s\<lparr>sd_fs := fs1\<rparr>, d2) = (Ok (), (s\<lparr>sd_fs := fs2\<rparr>, d2))"
    using 3(1,2) by (simp_all add: on_sd_def sd_on_fs_def)
  then have "request_file env f q dir dest (length b) (s, d) = (Ok (), (s', d'))"
    using w 2(1,2) 4(1) msgs by (simp add: request_file_def io_bind_Ok holds_frame_def io_query_def)
  with 4 show ?thesis by (auto simp: incoming_def)
qed


subsection \<open>Examples\<close>

lemma null_can_write: "k \<le> unat NONCE_MAX \<Longrightarrow> can_write null_env k (null_stream bs)"
  by (simp add: can_write_def null_env_ok)

lemma null_paired: "k \<le> unat NONCE_MAX \<Longrightarrow> paired null_env k (null_stream bs) (null_stream cs)"
  by (simp add: paired_def null_can_write)

definition asked_stream :: "frame \<Rightarrow> encrypted_stream" where
  "asked_stream f = null_stream (frame_wire null_env [] 0 f)"

lemma asked_stream_asks: "asks null_env f (asked_stream f)"
  by (simp add: asks_def asked_stream_def)

lemma asked_stream_paired: "k \<le> unat NONCE_MAX \<Longrightarrow> paired null_env k (asked_stream f) (null_stream bs)"
  by (simp add: asked_stream_def null_paired)

definition demo_uploader :: single_uploader where
  "demo_uploader = new_single_uploader [] demo_cfg new_channel []"

lemma demo_uploader_quiet: "quiet_upload demo_uploader"
  by (simp add: quiet_upload_def demo_uploader_def new_single_uploader_def new_channel_def)

definition offer_lib :: lib_env where
  "offer_lib = demo_lib\<lparr>le_of_json := (\<lambda>_. Some demo_offer)\<rparr>"


definition half_download :: single_downloader where
  "half_download = demo_downloader (demo_fs\<lparr>fs_files := [[''/'', ''c'', ''a''] \<mapsto> [7]]\<rparr>) demo_cfg"

lemma half_download_ready: "can_receive ''/c/'' ''/c/a'' [7] half_download"
proof -
  have p: "path_iter ''/c/a'' = [''/'', ''c'', ''a'']" "prefixes (path_iter ''/c/'') = [[], [''/''], [''/'', ''c'']]"
    by code_simp+
  let ?fs = "(sd_fs half_download)\<lparr>fs_is_dir := (\<lambda>k. k \<in> {[], [''/''], [''/'', ''c'']} \<or> fs_is_dir (sd_fs half_download) k)\<rparr>"
  have "fs_create_dir_all ''/c/'' (sd_fs half_download) = (Ok (), ?fs)"
    by (simp add: fs_create_dir_all_def p(2) half_download_def demo_downloader_def demo_fs_def)
  moreover have "fs_open_destination ''/c/a'' ?fs = (Ok (), ?fs)"
    by (simp add: fs_open_destination_def io_self_def fs_exists_def fs_may_write_def p(1) half_download_def
        demo_downloader_def demo_fs_def io_ok_def)
  moreover have "receiving ''/c/a'' [7] (half_download\<lparr>sd_fs := ?fs\<rparr>)"
    by (simp add: receiving_defs half_download_def demo_downloader_def demo_fs_def p(1) demo_queue_path fs_may_write_def new_channel_def)
  ultimately show ?thesis by (auto simp: can_receive_def)
qed


subsection \<open>After a completed upload\<close>

text \<open>
  The message that is served stays the file selection when the file has been sent. A peer that has its
  file and hangs up then ends the connection with an error in this state, and \<open>single_thread\<close> reports
  an upload that was disconnected, which its comment says happens in the middle of one.
\<close>

lemma completed_upload_reported_disconnected:
  assumes "quiet_upload s" and "asks (up_crypto env) (MSG_FILE_SELECTION_CONTINUE, selection_payload n path) u"
    and "can_write (up_crypto env) (2 * (length content - n + 2)) u" and "offers env ev path content"
    and "n \<le> length content" and "is_utf8 (as_bytes path)" and "8 + length path \<le> MAX_DATA_SIZE"
  shows "\<exists>s' u'. run_loop env ev json (s, u) = (Ok Served, (s', u'))
     \<and> (\<forall>e u''. es_read (up_crypto env) u' = (Err e, u'') \<longrightarrow>
          serve_loop env ev json (s, u) = (Err e, (s', u'')) \<and> ul_active_msg s' = MSG_FILE_SELECTION_CONTINUE)"
proof -
  from run_loop_file [OF assms, of json] obtain s' u' where
    r: "run_loop env ev json (s, u) = (Ok Served, (s', u'))" "quiet_upload s'" "ul_active_msg s' = MSG_FILE_SELECTION_CONTINUE" by blast
  have "serve_loop env ev json (s, u) = (Err e, (s', u''))" if "es_read (up_crypto env) u' = (Err e, u'')" for e u''
  proof -
    have "run_loop env ev json (s', u') = (Err e, (s', u''))"
      using that by (simp add: run_loop_def io_bind_Err on_ues_def)
    then have "serve_loop env ev json (s', u') = (Err e, (s', u''))"
      using told_quiet [OF r(2), of u'] by (subst serve_loop.simps) simp
    then show ?thesis using told_quiet [OF assms(1), of u] r(1) by (subst serve_loop.simps) simp
  qed
  with r show ?thesis by blast
qed

end
