(* ===== verification/Download_Run.thy ===== *)
theory Download_Run
  imports Download_Files
begin

text \<open>
  \<open>SingleDownloader::run\<close> of \<open>outgoing_downloader.rs\<close> and the loop of its thread: connections, the
  queue, errors and panics. Every turn of \<open>run\<close> is given the network it finds.
\<close>

subsection \<open>The queue on one connection\<close>

definition start_item :: "download_queue_item \<Rightarrow> shared_file \<Rightarrow> string \<Rightarrow> unit sd_op" where
  "start_item item f destination =
     io_then (io_mod (\<lambda>s. s\<lparr>sd_active_download_local_path := Some destination\<rparr>)) app_update_in_progress"

definition finish_directory :: "download_queue_item \<Rightarrow> shared_file \<Rightarrow> string \<Rightarrow> unit sd_op" where
  "finish_directory item f destination =
     io_self (\<lambda>s.
       if \<not> sd_stop_downloading s \<and> sf_is_directory f then
         io_then set_active_download_finished
           (io_self (\<lambda>s. app_update_completed (dq_path item) destination (sd_active_download_total_size s)))
       else io_ok ())"

text \<open>The tail of a turn: from the transfer to the last look at the manager's messages.\<close>

definition transfer_item :: "lib_env \<Rightarrow> string \<Rightarrow> download_queue_item \<Rightarrow> shared_file \<Rightarrow> string \<Rightarrow> bool dl_op" where
  "transfer_item env root item f destination =
     io_then (download_shared_file env f root)
     (io_then (on_sd (finish_directory item f destination))
     (io_then (on_sd app_update_in_progress)
     (io_then (on_sd read_receiver)
       (io_get (\<lambda>(s, es). \<not> sd_stop_downloading s)))))"

text \<open>One turn of the loop over the queue; the result is whether to go on.\<close>

definition queue_turn :: "lib_env \<Rightarrow> string \<Rightarrow> shared_file \<Rightarrow> bool dl_op" where
  "queue_turn env root everything_file =
     io_bind (io_get (\<lambda>(s, es). sd_download_queue s)) (\<lambda>queue.
     case queue of
       [] \<Rightarrow> io_ok False
     | item # _ \<Rightarrow>
         (case get_file_by_path (dq_path item) everything_file of
            None \<Rightarrow>
              io_then (on_sd set_active_download_finished)
              (io_then (on_sd (app_update_invalid_file (dq_path item) ''No longer shared with you'')) (io_ok True))
          | Some f \<Rightarrow>
              io_then (on_sd (io_mod (\<lambda>s. s\<lparr>sd_active_download_path := Some item,
                sd_active_download_size := unat (sf_file_size f), sd_active_downloaded_current_bytes := 0,
                sd_active_download_total_size := sf_size_string f\<rparr>)))
              (io_bind (io_lift (get_sanitized_disk_file_name (sf_path f))) (\<lambda>name.
               let destination = (if sf_is_directory f then root @ name else root) in
               io_then (on_sd (start_item item f destination)) (transfer_item env root item f destination)))))"

subsection \<open>The loop over the queue ends\<close>

text \<open>
  What is left to do: messages not yet read and entries of the queue. Reading a message may add one
  entry; a turn that goes on has taken at least one entry off.
\<close>

definition left_to_do :: "single_downloader \<Rightarrow> nat" where
  "left_to_do s = length (sd_polls s) + length (sd_download_queue s)"

text \<open>Either told to stop, or less is left than \<open>n\<close>, or as much and an entry is waiting.\<close>

definition pending_work :: "nat \<Rightarrow> single_downloader \<Rightarrow> bool" where
  "pending_work n s \<longleftrightarrow> sd_stop_downloading s \<or> left_to_do s < n \<or> left_to_do s \<le> n \<and> sd_download_queue s \<noteq> []"

definition less_work :: "nat \<Rightarrow> single_downloader \<Rightarrow> bool" where
  "less_work n s \<longleftrightarrow> sd_stop_downloading s \<or> left_to_do s < n"

lemmas work_defs = pending_work_def less_work_def left_to_do_def

lemma keeps_write_queue:
  assumes "\<And>s fs. P s \<Longrightarrow> P (s\<lparr>sd_fs := fs\<rparr>)" and "\<And>m. keeps P (sd_send m)"
  shows "keeps P write_queue"
proof (rule keepsI)
  have fs: "keeps P (sd_on_fs m)" for m :: "unit fs_op"
    using assms(1) by (simp add: keeps_def sd_on_fs_def split: prod.split)
  have qf: "keeps P write_queue_file" unfolding write_queue_file_def by (intro keeps_intros fs)
  fix s assume s: "P s"
  obtain r s1 where r: "sd_on_fs (fs_remove_file (sd_path_queue_file s)) s = (r, s1)" by (metis prod.exhaust)
  from keeps_run [OF fs r s] have s1: "P s1" .
  then have "P (snd (io_then write_queue_file (sd_send m) s1))" for m
    by (rule keepsD [OF keeps_bind [OF qf assms(2)], rotated])
  with s r s1 keepsD [OF qf s] show "P (snd (write_queue s))"
    by (auto simp: write_queue_def split: outcome.split error.split io_error.split)
qed

text \<open>Handling a message does not touch the messages that wait.\<close>

lemma message_polls: "sd_polls (snd (handle_message m s)) = sd_polls s"
proof -
  let ?P = "\<lambda>s'. sd_polls s' = sd_polls s"
  have send: "keeps ?P (sd_send m)" for m by (rule keeps_send) simp
  then have queue: "keeps ?P write_queue" by (intro keeps_write_queue) simp_all
  have prog: "keeps ?P app_update_in_progress" unfolding app_update_in_progress_def by (intro keeps_intros send)
  have "keeps ?P (handle_message m)"
    by (cases m) (simp_all, (intro keeps_intros keeps_mod send queue prog; simp)+)
  from keepsD [OF this, of s] show ?thesis by simp
qed

text \<open>
  The contract of such a measure: it depends on the messages, the queue and the flag only, holds when
  told to stop, and is kept when an entry is taken off and when a message is read, even one that
  adds an entry.
\<close>

locale work_property =
  fixes P :: "single_downloader \<Rightarrow> bool"
  assumes work_only: "P s \<Longrightarrow> sd_polls s' = sd_polls s \<Longrightarrow> sd_download_queue s' = sd_download_queue s \<Longrightarrow>
      sd_stop_downloading s' = sd_stop_downloading s \<Longrightarrow> P s'"
    and stopped: "sd_stop_downloading s \<Longrightarrow> P s"
    and taken: "P s \<Longrightarrow> P (s\<lparr>sd_download_queue := tl (sd_download_queue s)\<rparr>)"
    and received: "P s \<Longrightarrow> sd_polls s = m # ps \<Longrightarrow> P (s\<lparr>sd_polls := ps\<rparr>)"
    and added: "P s \<Longrightarrow> sd_polls s = m # ps \<Longrightarrow>
      P (s\<lparr>sd_polls := ps, sd_download_queue := sd_download_queue s @ [q]\<rparr>)"
begin

lemma work_mod:
  "(\<And>s. sd_polls (f s) = sd_polls s \<and> sd_download_queue (f s) = sd_download_queue s
        \<and> sd_stop_downloading (f s) = sd_stop_downloading s) \<Longrightarrow> keeps P (io_mod f)"
  by (rule keeps_mod) (metis work_only)

lemma work_stop: "(\<And>s. sd_stop_downloading (f s)) \<Longrightarrow> keeps P (io_mod f)"
  by (rule keeps_mod) (rule stopped)

lemma work_send: "keeps P (sd_send m)"
  by (rule keeps_send) (rule work_only, simp_all)

lemma work_fs: "keeps P (sd_on_fs m)"
proof (rule keepsI)
  fix s assume "P s"
  then have "P (s\<lparr>sd_fs := fs\<rparr>)" for fs by (rule work_only) simp_all
  then show "P (snd (sd_on_fs m s))" by (simp add: sd_on_fs_def split: prod.split)
qed

lemma work_queue: "keeps P write_queue"
  by (rule keeps_write_queue) (rule work_only, simp_all add: work_send)

lemma work_reports:
  "keeps P app_update_in_progress" "keeps P app_update_offline" "keeps P (app_update_completed a b c)"
  "keeps P (app_update_invalid_file a b)"
  unfolding app_update_in_progress_def app_update_offline_def app_update_completed_def app_update_invalid_file_def
  by (intro keeps_intros work_send)+

lemma work_finished: "keeps P set_active_download_finished"
  unfolding set_active_download_finished_def
  by (intro keeps_intros keeps_mod work_queue work_mod taken) simp_all

lemma work_throttled: "keeps P throttled_update"
proof (rule keepsI)
  fix s assume "P s"
  then have next_P: "P (s\<lparr>sd_progress_due := ds\<rparr>)" for ds by (rule work_only) simp_all
  show "P (snd (throttled_update s))"
    using \<open>P s\<close> next_P keepsD [OF work_reports(1) next_P]
    by (auto simp: throttled_update_def split: list.split)
qed

lemma work_message:
  assumes "P s" and "\<And>q. P (s\<lparr>sd_download_queue := sd_download_queue s @ [q]\<rparr>)"
  shows "P (snd (handle_message m s))"
proof (cases "\<exists>q. m = NewDownload q")
  case True
  then obtain q where m: "m = NewDownload q" ..
  have "keeps P (io_then write_queue (sd_log LogDebug (\<lambda>s. ''Downloader new download '' @ nick s @ '' - '' @ dq_path q)))"
    by (intro keeps_intros work_queue work_send)
  from keepsD [OF this assms(2) [of q]] show ?thesis
    by (simp add: m io_bind_def io_mod_def)
next
  case False
  then have "keeps P (handle_message m)"
    by (cases m) (simp_all, (intro keeps_intros work_mod work_stop work_send work_reports work_queue; simp)+)
  with assms(1) show ?thesis by (simp add: keepsD)
qed

lemma work_polls: "sd_polls s = ps \<Longrightarrow> P s \<Longrightarrow> P (snd (read_polls ps s))"
proof (induction ps arbitrary: s rule: read_polls.induct)
  case (2 rv msg ps)
  let ?s1 = "s\<lparr>sd_polls := ps\<rparr>"
  note s1 = received [OF 2(3,2)] and add = added [OF 2(3,2)]
  obtain r s2 where r: "handle_rev rv ?s1 = (r, s2)" by (metis prod.exhaust)
  have s2: "P s2" "sd_polls s2 = ps" "P (s2\<lparr>sd_download_queue := sd_download_queue s2 @ [q]\<rparr>)" for q
    using r s1 add by (cases rv; auto simp: io_ok_def io_mod_def io_lift_def intro: stopped)+
  show ?case
  proof (cases "is_ok r \<and> (\<exists>m. msg = MsgReceived m)")
    case True
    then obtain m where m: "msg = MsgReceived m" "r = Ok ()" by (cases r) auto
    obtain r3 s3 where r3: "handle_message m s2 = (r3, s3)" by (metis prod.exhaust)
    with work_message [OF s2(1,3), of m] message_polls [of m s2] s2(2) have "P s3" "sd_polls s3 = ps" by simp_all
    with "2.IH" [OF m(1), of s3] r r3 m show ?thesis
      by (cases r3) (simp_all add: io_bind_def io_mod_def)
  next
    case False
    with r s2(1) show ?thesis
      by (cases r; cases msg) (simp_all add: io_bind_def io_mod_def io_ok_def io_lift_def)
  qed
qed (simp add: io_ok_def)

lemma work_receiver: "keeps P read_receiver"
  by (simp add: keeps_def read_receiver_def io_self_def work_polls)

lemmas work_steps = work_send work_fs work_queue work_reports work_finished work_throttled work_receiver

lemma work_everything: "keeps (\<lambda>st. P (fst st)) (set_everything_file env force)"
  unfolding set_everything_file_def by (intro keeps_intros work_steps work_mod) simp_all

lemma work_checks:
  "keeps P (check_queue_file q f exi n dir d)" "keeps P (check_sub_file q f exi n dir d)"
  unfolding check_queue_file_def check_sub_file_def create_empty_def
  by (intro keeps_intros work_steps)+

lemma work_chunk: "keeps (\<lambda>st. P (fst st)) (chunk_step env f q d m n)"
  unfolding chunk_step_def settle_chunk_def Let_def
  by (intro keeps_intros work_steps work_mod) simp_all

lemma work_next: "keeps (\<lambda>st. P (fst st)) (next_chunk env)"
  unfolding next_chunk_def by (intro keeps_intros work_steps)

lemma work_request: "keeps (\<lambda>st. P (fst st)) (request_file env f q dir d n)"
  unfolding request_file_def
  by (intro keeps_intros keeps_download_loop work_chunk work_next work_everything work_steps)

lemma work_file: "keeps (\<lambda>st. P (fst st)) (download_file env f dir name)"
proof -
  have len: "keeps P (local_length (dir @ name))" unfolding local_length_def by (intro keeps_intros work_fs)
  show ?thesis
    unfolding download_file_def Let_def
    by (rule keeps_bind [OF on_sd_keeps [OF len]]) (auto intro!: keeps_intros work_mod work_checks work_request)
qed

lemma work_tree:
  "keeps (\<lambda>st. P (fst st)) (download_shared_file env f dir)"
  "keeps (\<lambda>st. P (fst st)) (download_children env fs dir)"
proof (induction env f dir and env fs dir rule: download_shared_file_download_children.induct)
  case (1 env p isd fs n t dir)
  then show ?case by (cases isd) (auto intro!: keeps_intros work_file)
qed (auto intro!: keeps_intros work_receiver)

end

interpretation pending: work_property "pending_work n" for n
  by unfold_locales (auto simp: work_defs neq_Nil_conv)

interpretation less: work_property "less_work n" for n
  by unfold_locales (auto simp: work_defs neq_Nil_conv)

text \<open>Taking an entry off makes it strictly less, unless told to stop.\<close>

lemma finished_less:
  assumes "pending_work n s"
  shows "less_work n (snd (set_active_download_finished s))"
proof -
  have "less_work n (s\<lparr>sd_download_queue := tl (sd_download_queue s)\<rparr>)"
    using assms by (cases "sd_download_queue s") (auto simp: work_defs)
  moreover have "keeps (less_work n) (io_then write_queue (io_mod (\<lambda>s. s\<lparr>sd_active_download_path := None\<rparr>)))"
    by (intro keeps_intros less.work_queue less.work_mod) simp_all
  ultimately show ?thesis
    by (simp add: set_active_download_finished_def io_bind_def [where m = "io_mod _"] io_mod_def [where f = "\<lambda>s. s\<lparr>sd_download_queue := _ s\<rparr>"] keepsD)
qed

lemma finished_then_less:
  assumes "io_then set_active_download_finished m s = (r, s')" and "pending_work n s" and "keeps (less_work n) m"
  shows "less_work n s'"
proof -
  obtain r1 s1 where f: "set_active_download_finished s = (r1, s1)" by (metis prod.exhaust)
  with finished_less [OF assms(2)] have "less_work n s1" by simp
  with f assms(1,3) show ?thesis
    by (cases r1) (auto simp: io_bind_def dest: keeps_run)
qed

lemma less_dl: "keeps (less_work n) m \<Longrightarrow> on_sd m st = (r, st') \<Longrightarrow> less_work n (fst st) \<Longrightarrow> less_work n (fst st')"
  by (auto simp: on_sd_def split: prod.splits dest: keeps_run)

lemma on_sd_bind: "io_then (on_sd a) (on_sd b) = on_sd (io_then a b)"
  by (rule ext) (simp add: on_sd_def io_bind_def split: prod.split outcome.split)

lemma settle_less:
  assumes "settle_chunk f q d m n st = (Ok (True, n'), st')" and "sf_path f = dq_path q" and "pending_work k (fst st)"
  shows "less_work k (fst st')"
proof -
  let ?m = "io_self (\<lambda>s. app_update_completed (dq_path q) d (sd_active_download_total_size s))"
  from assms(1,2) obtain u where "on_sd (io_then set_active_download_finished ?m) st = (Ok u, st')"
    by (auto simp: settle_chunk_def Let_def io_ok_def io_lift_def on_sd_bind elim!: io_bind_OkE split: if_splits)
  from on_sd_Ok [OF this] have "io_then set_active_download_finished ?m (fst st) = (Ok u, fst st')" by simp
  then show ?thesis
    by (rule finished_then_less [OF _ assms(3)]) (intro keeps_intros less.work_reports)
qed

lemma chunk_less:
  assumes "chunk_step env f q d m n st = (Ok (True, n'), st')" and "sf_path f = dq_path q" and "pending_work k (fst st)"
  shows "less_work k (fst st')"
proof -
  have steps: "keeps (\<lambda>st. pending_work k (fst st)) (on_sd (io_mod (\<lambda>s. s\<lparr>sd_active_downloaded_current_bytes :=
      sd_active_downloaded_current_bytes s + j\<rparr>)))" "keeps (\<lambda>st. pending_work k (fst st)) (on_sd (sd_on_fs (fs_append_open d bs)))"
    "keeps (\<lambda>st. pending_work k (fst st)) (on_sd throttled_update)" for j bs
    by (intro keeps_intros pending.work_mod pending.work_fs pending.work_throttled; simp)+
  from assms(1) [unfolded chunk_step_def] obtain payload st1 x2 st2 x3 st3 x4 st4 where
    a: "io_query (\<lambda>(s, es). get_payload (le_crypto env) es) st = (Ok payload, st1)"
    and b: "on_sd (io_mod (\<lambda>s. s\<lparr>sd_active_downloaded_current_bytes :=
        sd_active_downloaded_current_bytes s + length payload\<rparr>)) st1 = (Ok x2, st2)"
    and c: "on_sd (sd_on_fs (fs_append_open d payload)) st2 = (Ok x3, st3)"
    and d: "on_sd throttled_update st3 = (Ok x4, st4)"
    and e: "settle_chunk f q d m (n + length payload) st4 = (Ok (True, n'), st')"
    by - (elim io_bind_OkE, blast)
  have "pending_work k (fst st1)" using a assms(3) by (simp add: io_query_def)
  from keeps_run [OF steps(3) d keeps_run [OF steps(2) c keeps_run [OF steps(1) b this]]]
  show ?thesis by (rule settle_less [OF e assms(2)])
qed

lemma loop_less:
  assumes "download_loop env f q d m n st = (Ok u, st')" and "sf_path f = dq_path q" and "pending_work k (fst st)"
  shows "less_work k (fst st')"
  using assms
proof (induction env f q d m n st rule: download_loop.induct)
  case (1 env f q d m n st)
  from "1.prems"(1) obtain fin n1 st1 where s1: "chunk_step env f q d m n st = (Ok (fin, n1), st1)"
    by (subst (asm) download_loop.simps) (auto split: prod.splits outcome.splits)
  from keeps_run [OF pending.work_chunk s1 "1.prems"(3)] have p1: "pending_work k (fst st1)" .
  show ?case
  proof (cases fin)
    case True
    with "1.prems"(1) s1 have "st' = st1" by (subst (asm) download_loop.simps) simp
    moreover from True s1 have "chunk_step env f q d m n st = (Ok (True, n1), st1)" by simp
    ultimately show ?thesis using chunk_less [OF _ "1.prems"(2,3)] by blast
  next
    case False
    with "1.prems"(1) s1 obtain v st2 where s2: "next_chunk env st1 = (Ok v, st2)"
      by (subst (asm) download_loop.simps) (auto split: prod.splits outcome.splits option.splits)
    from keeps_run [OF pending.work_next s2 p1] have p2: "pending_work k (fst st2)" .
    show ?thesis
    proof (cases v)
      case None
      with "1.prems"(1) s1 s2 False have "st' = st2" by (subst (asm) download_loop.simps) simp
      with next_chunk_stop [OF s2] None show ?thesis by (simp add: less_work_def)
    next
      case (Some m')
      with "1.prems"(1) s1 s2 False have "download_loop env f q d m' n1 st2 = (Ok u, st')"
        by (subst (asm) download_loop.simps) simp
      from "1.IH" [OF s1 [symmetric] refl refl False s2 [unfolded Some, symmetric] refl refl this "1.prems"(2) p2]
      show ?thesis .
    qed
  qed
qed

lemma request_less:
  assumes "request_file env f q dir d n st = (Ok u, st')" and "sf_path f = dq_path q" and "pending_work k (fst st)"
  shows "less_work k (fst st')"
proof -
  note keep = keeps_run [where P = "\<lambda>st. pending_work k (fst st)"]
  from assms(1) [unfolded request_file_def] obtain x1 st1 x2 st2 m st3 where
    a: "on_es (es_write (le_crypto env) MSG_FILE_SELECTION_CONTINUE (selection_payload n (sf_path f))) st = (Ok x1, st1)"
    and b: "on_es (es_read (le_crypto env)) st1 = (Ok x2, st2)"
    and c: "io_query (\<lambda>(s, es). get_message es) st2 = (Ok m, st3)"
    and d: "(if m = MSG_FILE_INVALID_FILE then
        io_then (set_everything_file env True)
          (io_query (\<lambda>(s, es). Err (TransferError (InvalidFileOnFirstRead (nick s) (sf_path f)))))
      else if \<not> is_file_message m then
        io_query (\<lambda>(s, es). Err (TransferError (UnexpectedFirstMessage (nick s) m)))
      else
        io_then (on_sd (sd_on_fs (fs_create_dir_all dir)))
        (io_then (on_sd (sd_on_fs (fs_open_destination d)))
          (download_loop env f q d m n))) st3 = (Ok u, st')"
    by - (erule io_bind_OkE, erule io_bind_OkE, erule io_bind_OkE, blast)
  have "pending_work k (fst st3)"
    using keep [OF on_es_keeps b keep [OF on_es_keeps a assms(3)]] c by (simp add: io_query_def)
  moreover from d have "m \<noteq> MSG_FILE_INVALID_FILE" "is_file_message m"
    by (auto simp: io_query_def elim!: io_bind_OkE split: if_splits prod.splits)
  ultimately show ?thesis using d
    by (auto elim!: io_bind_OkE intro!: loop_less [OF _ assms(2)] dest!: keep [OF on_sd_keeps [OF pending.work_fs]])
qed

lemma check_queue_less:
  assumes "check_queue_file q f exi n dir d s = (Ok False, s')" and "pending_work k s"
  shows "less_work k s'"
proof -
  have create: "keeps (pending_work k) (create_empty exi f dir d)"
    unfolding create_empty_def by (intro keeps_intros pending.work_fs)
  have rest: "keeps (less_work k) (io_then (app_update_invalid_file a b) (io_ok False))"
    "keeps (less_work k) (io_then (io_self (\<lambda>s. app_update_completed (dq_path q) d (sd_active_download_total_size s))) (io_ok False))"
    for a b by (intro keeps_intros less.work_reports)+
  show ?thesis
  proof (cases "dq_file_size q = sf_file_size f \<and> n = unat (dq_file_size q)")
    case True
    with assms(1) obtain u s1 where "create_empty exi f dir d s = (Ok u, s1)"
      and f: "io_then set_active_download_finished
        (io_then (io_self (\<lambda>s. app_update_completed (dq_path q) d (sd_active_download_total_size s))) (io_ok False)) s1
        = (Ok False, s')"
      by (auto simp: check_queue_file_def elim: io_bind_OkE)
    from keeps_run [OF create this(1) assms(2)] show ?thesis by (rule finished_then_less [OF f _ rest(2)])
  next
    case False
    with assms(1) have "\<exists>a b. io_then set_active_download_finished (io_then (app_update_invalid_file a b) (io_ok False)) s
        = (Ok False, s')"
      by (auto simp: check_queue_file_def io_ok_def split: if_splits)
    with rest(1) show ?thesis by (auto intro: finished_then_less [OF _ assms(2)])
  qed
qed

lemma local_length_frame:
  "local_length d s = (Ok x, s') \<Longrightarrow> sd_active_download_path s' = sd_active_download_path s"
  by (auto simp: local_length_def io_self_def io_ok_def sd_on_fs_def elim!: io_bind_OkE split: if_splits prod.splits)

lemma file_less:
  assumes "download_file env f dir name st = (Ok u, st')" and "sd_active_download_path (fst st) = Some q"
    and "sf_path f = dq_path q" and "pending_work k (fst st)"
  shows "less_work k (fst st')"
proof -
  let ?d = "dir @ name"
  have len: "keeps (pending_work k) (local_length ?d)" unfolding local_length_def by (intro keeps_intros pending.work_fs)
  from assms(1) obtain exi n st1 q1 st2 go st3 where
    a: "on_sd (local_length ?d) st = (Ok (exi, n), st1)"
    and b: "on_sd (io_query (\<lambda>s. unwrap_opt (sd_active_download_path s)))
      ((fst st1)\<lparr>sd_active_downloaded_current_bytes := sd_active_downloaded_current_bytes (fst st1) + n\<rparr>, snd st1) = (Ok q1, st2)"
    and c: "on_sd (if sf_path f = dq_path q1 then check_queue_file q1 f exi n dir ?d else check_sub_file q1 f exi n dir ?d) st2
      = (Ok go, st3)"
    and d: "(if go then request_file env f q1 dir ?d n else io_ok ()) st3 = (Ok u, st')"
    unfolding download_file_def Let_def
    by (auto simp: on_sd_run(2) io_bind_def [where m = "on_sd (io_mod _)"] elim!: io_bind_OkE)
  have p1: "pending_work k (fst st1)" using keeps_run [OF on_sd_keeps [OF len] a assms(4)] .
  have q1: "q1 = q" using b on_sd_Ok [OF a] assms(2) by (auto simp: on_sd_run(3) dest!: local_length_frame)
  have p2: "pending_work k (fst st2)" using b p1 by (auto simp: on_sd_run(3) work_defs)
  show ?thesis
  proof (cases go)
    case True
    have "keeps (pending_work k) (check_queue_file q1 f exi n dir ?d)" by (rule pending.work_checks)
    with c p2 assms(3) q1 have "pending_work k (fst st3)" by (auto dest: keeps_run [OF on_sd_keeps])
    with True d assms(3) q1 show ?thesis by (auto intro: request_less)
  next
    case False
    with c assms(3) q1 have "check_queue_file q1 f exi n dir ?d (fst st2) = (Ok False, fst st3)"
      by (auto dest: on_sd_Ok)
    from check_queue_less [OF this p2] False d show ?thesis by (simp add: io_ok_def)
  qed
qed

lemma tree_file_less:
  assumes "download_shared_file env f dir st = (Ok u, st')" and "\<not> sf_is_directory f"
    and "sd_active_download_path (fst st) = Some q" and "sf_path f = dq_path q" and "pending_work k (fst st)"
  shows "less_work k (fst st')"
proof -
  obtain p fs n t where f: "f = SharedFile p False fs n t" using assms(2) by (cases f) auto
  with assms(1) obtain name where "download_file env f dir name st = (Ok u, st')"
    by (auto simp: io_lift_def elim!: io_bind_OkE)
  from file_less [OF this assms(3-5)] show ?thesis .
qed

lemma finish_directory_less:
  assumes "on_sd (finish_directory item f d) st = (Ok u, st')" and "sf_is_directory f" and "pending_work k (fst st)"
  shows "less_work k (fst st')"
proof -
  let ?m = "io_self (\<lambda>s. app_update_completed (dq_path item) d (sd_active_download_total_size s))"
  from on_sd_Ok [OF assms(1)] have r: "finish_directory item f d (fst st) = (Ok u, fst st')" by simp
  show ?thesis
  proof (cases "sd_stop_downloading (fst st)")
    case True
    with r show ?thesis by (simp add: finish_directory_def io_self_def io_ok_def less_work_def)
  next
    case False
    with r assms(2) have "io_then set_active_download_finished ?m (fst st) = (Ok u, fst st')"
      by (simp add: finish_directory_def io_self_def)
    then show ?thesis by (rule finished_then_less [OF _ assms(3)]) (intro keeps_intros less.work_reports)
  qed
qed

lemma keeps_less_turn:
  "keeps (\<lambda>st. less_work k (fst st)) (io_then (on_sd app_update_in_progress) (io_then (on_sd read_receiver)
     (io_get (\<lambda>(s, es). \<not> sd_stop_downloading s))))"
  by (intro keeps_intros less.work_steps)

lemma start_item_keeps:
  "keeps (pending_work k) (start_item item f d)"
  unfolding start_item_def by (intro keeps_intros pending.work_mod pending.work_reports) simp_all

lemma start_item_active:
  "start_item item f d s = (r, s') \<Longrightarrow> sd_active_download_path s' = sd_active_download_path s"
  by (auto simp: start_item_def io_bind_def io_mod_def app_update_in_progress_def io_self_def sd_send_def split: prod.splits)

lemma transfer_less:
  assumes "transfer_item env root item f destination st = (Ok go, st')"
    and "sd_active_download_path (fst st) = Some item" and "sf_path f = dq_path item" and "pending_work k (fst st)"
  shows "less_work k (fst st') \<and> go = (\<not> sd_stop_downloading (fst st'))"
proof -
  from assms(1) [unfolded transfer_item_def] obtain u st1 v st2 where
    a: "download_shared_file env f root st = (Ok u, st1)"
    and b: "on_sd (finish_directory item f destination) st1 = (Ok v, st2)"
    and c: "io_then (on_sd app_update_in_progress) (io_then (on_sd read_receiver)
       (io_get (\<lambda>(s, es). \<not> sd_stop_downloading s))) st2 = (Ok go, st')"
    by - (erule io_bind_OkE, erule io_bind_OkE, blast)
  have p1: "pending_work k (fst st1)" using keeps_run [OF pending.work_tree(1) a assms(4)] .
  have "less_work k (fst st2)"
  proof (cases "sf_is_directory f")
    case True
    from finish_directory_less [OF b True p1] show ?thesis .
  next
    case False
    then have "finish_directory item f destination = (\<lambda>s. (Ok (), s))"
      by (simp add: finish_directory_def io_self_def io_ok_def fun_eq_iff)
    with b tree_file_less [OF a False assms(2-4)] show ?thesis by (auto simp: on_sd_def)
  qed
  from keeps_run [OF keeps_less_turn c this] c show ?thesis
    by (auto simp: io_get_def elim!: io_bind_OkE)
qed

lemma dropped_less:
  assumes "io_then set_active_download_finished (io_then (app_update_invalid_file p m) (io_ok True)) s = (Ok True, s')"
    and "sd_download_queue s \<noteq> []"
  shows "left_to_do s' < left_to_do s"
proof -
  let ?P = "\<lambda>s'. left_to_do s' < left_to_do s"
  have send: "keeps ?P (sd_send m)" for m by (rule keeps_send) (simp add: left_to_do_def)
  have "keeps ?P (io_then write_queue (io_then (io_mod (\<lambda>s. s\<lparr>sd_active_download_path := None\<rparr>))
      (io_then (app_update_invalid_file p m) (io_ok True))))"
    unfolding app_update_invalid_file_def
    by (intro keeps_intros keeps_write_queue keeps_mod send) (simp_all add: left_to_do_def)
  moreover have "left_to_do (s\<lparr>sd_download_queue := tl (sd_download_queue s)\<rparr>) < left_to_do s"
    using assms(2) by (simp add: left_to_do_def)
  ultimately show ?thesis
    using assms(1) unfolding set_active_download_finished_def io_bind_assoc
    by (simp add: io_bind_def [where m = "io_mod _"] io_mod_def [where f = "\<lambda>s. s\<lparr>sd_download_queue := _ s\<rparr>"])
      (drule (2) keeps_run)
qed

lemma queue_turn_less:
  assumes "queue_turn env root ev st = (Ok True, st')"
  shows "left_to_do (fst st') < left_to_do (fst st)"
proof -
  let ?k = "left_to_do (fst st)"
  obtain item q where q: "sd_download_queue (fst st) = item # q"
    using assms by (cases "sd_download_queue (fst st)") (auto simp: queue_turn_def io_bind_def io_get_def io_ok_def case_prod_beta)
  show ?thesis
  proof (cases "get_file_by_path (dq_path item) ev")
    case None
    with assms q have "io_then (on_sd set_active_download_finished)
        (io_then (on_sd (app_update_invalid_file (dq_path item) ''No longer shared with you'')) (io_ok True)) st = (Ok True, st')"
      by (simp add: queue_turn_def io_bind_Ok io_get_def case_prod_beta)
    then have "io_then set_active_download_finished
        (io_then (app_update_invalid_file (dq_path item) ''No longer shared with you'') (io_ok True)) (fst st) = (Ok True, fst st')"
      by (auto simp: io_ok_def io_bind_Ok elim!: io_bind_OkE dest!: on_sd_Ok)
    from dropped_less [OF this] q show ?thesis by simp
  next
    case (Some f)
    let ?st1 = "((fst st)\<lparr>sd_active_download_path := Some item, sd_active_download_size := unat (sf_file_size f),
      sd_active_downloaded_current_bytes := 0, sd_active_download_total_size := sf_size_string f\<rparr>, snd st)"
    from assms q Some obtain name u st2 where
      s: "on_sd (start_item item f (if sf_is_directory f then root @ name else root)) ?st1 = (Ok u, st2)"
      and t: "transfer_item env root item f (if sf_is_directory f then root @ name else root) st2 = (Ok True, st')"
      by (auto simp: queue_turn_def io_bind_Ok io_get_def case_prod_beta on_sd_run(2) io_lift_def Let_def elim!: io_bind_OkE)
    have "pending_work ?k (fst ?st1)" using q by (simp add: pending_work_def left_to_do_def)
    with s have "pending_work ?k (fst st2)" by (rule keeps_run [OF on_sd_keeps [OF start_item_keeps]])
    moreover have "sd_active_download_path (fst st2) = Some item"
      using on_sd_Ok [OF s] by (auto dest!: start_item_active)
    moreover have "sf_path f = dq_path item" using get_file_by_path_SomeD [OF Some] by simp
    ultimately show ?thesis using transfer_less [OF t] by (auto simp: less_work_def)
  qed
qed

function queue_loop :: "lib_env \<Rightarrow> string \<Rightarrow> shared_file \<Rightarrow> unit dl_op" where
  "queue_loop env root ev st =
     (case queue_turn env root ev st of
        (Ok go, st1) \<Rightarrow> if go then queue_loop env root ev st1 else (Ok (), st1)
      | (Err e, st1) \<Rightarrow> (Err e, st1) | (Panic, st1) \<Rightarrow> (Panic, st1) | (Exit c, st1) \<Rightarrow> (Exit c, st1))"
  by pat_completeness auto
termination
  by (relation "measure (\<lambda>(env, root, ev, st). left_to_do (fst st))") (auto dest!: queue_turn_less [OF sym])

declare queue_loop.simps [simp del]

text \<open>
  C27. The loop over the queue does not leave work behind: it always ends (the definition is total: each
  turn that goes on leaves fewer entries and unread messages), and when it ends well the queue is
  empty or the manager has told it to stop.
\<close>

theorem queue_loop_empties:
  assumes "queue_loop env root ev st = (Ok u, st')"
  shows "sd_download_queue (fst st') = [] \<or> sd_stop_downloading (fst st')"
  using assms
proof (induction env root ev st rule: queue_loop.induct)
  case (1 env root ev st)
  from "1.prems" obtain go st1 where t: "queue_turn env root ev st = (Ok go, st1)"
    by (subst (asm) queue_loop.simps) (auto split: prod.splits outcome.splits)
  show ?case
  proof (cases go)
    case True
    with "1.prems" t have "queue_loop env root ev st1 = (Ok u, st')" by (subst (asm) queue_loop.simps) simp
    from "1.IH" [OF t [symmetric] refl True this] show ?thesis .
  next
    case False
    with "1.prems" t have "st' = st1" by (subst (asm) queue_loop.simps) simp
    with t False show ?thesis
      by (auto simp: queue_turn_def transfer_item_def io_get_def io_ok_def Let_def
          elim!: io_bind_OkE split: list.splits option.splits)
  qed
qed

definition one_missing :: "single_downloader" where
  "one_missing = (demo_downloader demo_fs demo_cfg)\<lparr>sd_download_queue := [\<lparr>dq_path = ''/a'', dq_file_size = 0\<rparr>]\<rparr>"

lemma missing_turn: "\<exists>s1. queue_turn demo_lib root (SharedFile [] True [] 0 []) (one_missing, demo_stream) = (Ok True, (s1, demo_stream))
    \<and> sd_download_queue s1 = [] \<and> \<not> sd_stop_downloading s1"
  by (simp add: queue_turn_def one_missing_def demo_downloader_def io_bind_def io_get_def io_mod_def on_sd_def
    set_active_download_finished_def write_queue_def sd_on_fs_def fs_remove_file_def demo_queue_path demo_fs_def
    app_update_invalid_file_def io_self_def sd_send_def send_app_def ch_send_def new_channel_def io_ok_def)

theorem queue_loop_empties_witness:
  "\<exists>s1. queue_loop demo_lib ''/c/d/'' (SharedFile [] True [] 0 []) (one_missing, demo_stream) = (Ok (), (s1, demo_stream))
     \<and> sd_download_queue s1 = [] \<and> sd_download_queue one_missing \<noteq> []"
proof -
  obtain s1 where turn: "queue_turn demo_lib ''/c/d/'' (SharedFile [] True [] 0 []) (one_missing, demo_stream) = (Ok True, (s1, demo_stream))"
    and s1: "sd_download_queue s1 = []" "\<not> sd_stop_downloading s1" using missing_turn by blast
  have last: "queue_turn demo_lib ''/c/d/'' (SharedFile [] True [] 0 []) (s1, demo_stream) = (Ok False, (s1, demo_stream))"
    using s1(1) by (simp add: queue_turn_def io_bind_def io_get_def io_ok_def)
  have run: "queue_loop demo_lib ''/c/d/'' (SharedFile [] True [] 0 []) (one_missing, demo_stream) = (Ok (), (s1, demo_stream))"
    by (simp add: queue_loop.simps [of demo_lib "''/c/d/''" _ "(one_missing, demo_stream)"] turn
        queue_loop.simps [of demo_lib "''/c/d/''" _ "(s1, demo_stream)"] last)
  from queue_loop_empties [OF run] s1 run show ?thesis by (simp add: one_missing_def)
qed

subsection \<open>One turn of run\<close>

datatype run_next = RunOn nat | RunDone

definition get_path_downloads_dir_user :: "host_env \<Rightarrow> string \<Rightarrow> config \<Rightarrow> (error, string) outcome" where
  "get_path_downloads_dir_user host user c = and_then (get_path_downloads_dir host c) (\<lambda>path. Ok (path @ user))"

definition sd_resolve :: "net_env \<Rightarrow> sock_addr list sd_op" where
  "sd_resolve net s =
     (let u = sd_shared_user s in
      case resolve_address net (su_ip u) (su_port u) u (sd_app_sender s) of
        (r, ch) \<Rightarrow> (r, s\<lparr>sd_app_sender := ch\<rparr>))"

definition dial_user :: "lib_env \<Rightarrow> net_env \<Rightarrow> encrypted_stream option sd_op" where
  "dial_user env net =
     io_bind (sd_resolve net) (\<lambda>addrs.
     io_then (sd_log LogInfo (\<lambda>s. ''Attempt outgoing download '' @ nick s @ '' ''
        @ join_with (CHR '','') (map sa_ip addrs)))
     (io_self (\<lambda>s.
        case tcp_connect net addrs of
          Ok conn \<Rightarrow>
            io_bind (io_lift (connect_user (le_ids env) net conn (sd_shared_user s) (c_local_private_key_bytes (sd_config s))))
              (\<lambda>es. io_ok (Some es))
        | _ \<Rightarrow> io_then app_update_offline (io_ok None))))"

definition take_connection :: "lib_env \<Rightarrow> net_env \<Rightarrow> encrypted_stream option sd_op" where
  "take_connection env net =
     io_self (\<lambda>s. case sd_reverse_connection s of
         Some es \<Rightarrow> io_then (io_mod (\<lambda>s. s\<lparr>sd_reverse_connection := None\<rparr>)) (io_ok (Some es))
       | None \<Rightarrow> dial_user env net)"

text \<open>The stream lives as long as the turn.\<close>

definition with_stream :: "unit dl_op \<Rightarrow> encrypted_stream \<Rightarrow> unit sd_op" where
  "with_stream m es s = (case m (s, es) of (r, st) \<Rightarrow> (r, fst st))"

definition serve_queue :: "lib_env \<Rightarrow> string \<Rightarrow> unit dl_op" where
  "serve_queue env root =
     io_then (set_everything_file env False)
     (io_bind (io_get (\<lambda>(s, es). sd_refresh_data s (nick s))) (\<lambda>d.
      case d of
        None \<Rightarrow> on_sd (sd_log LogWarning (\<lambda>s. ''Everything file unexpectedly missing: '' @ nick s))
      | Some d \<Rightarrow>
          (case ird_data d of
             None \<Rightarrow> on_sd (sd_log LogWarning (\<lambda>s. ''Everything file unexpectedly has no data: '' @ nick s))
           | Some everything_file \<Rightarrow> queue_loop env root everything_file)))"

definition next_sleep :: "bool \<Rightarrow> nat \<Rightarrow> nat" where
  "next_sleep dbg sleep_secs = min (sleep_secs + 5) (MAX_RETRY_SLEEP dbg)"

definition run_turn :: "lib_env \<Rightarrow> bool \<Rightarrow> net_env \<Rightarrow> nat \<Rightarrow> run_next sd_op" where
  "run_turn env dbg net sleep_secs =
     io_then read_receiver
     (io_self (\<lambda>s.
        if sd_shutdown s then io_then app_update_in_progress (io_ok RunDone)
        else io_then (io_mod (\<lambda>s. s\<lparr>sd_stop_downloading := False\<rparr>))
          (if sd_is_downloading_paused s then io_ok (RunOn sleep_secs)
           else if sd_download_queue s = [] \<and> sd_reverse_connection s = None then io_ok (RunOn sleep_secs)
           else
             io_bind (io_lift (get_path_downloads_dir_user (le_host env) (nick s) (sd_config s))) (\<lambda>dir.
             io_bind (take_connection env net) (\<lambda>conn.
             case conn of
               None \<Rightarrow> io_ok (RunOn (next_sleep dbg sleep_secs))
             | Some es \<Rightarrow>
                 io_then (with_stream (serve_queue env (dir @ [path_sep])) es) (io_ok (RunOn 5)))))))"

text \<open>\<open>run\<close> over the networks that its turns find.\<close>

fun run_turns :: "lib_env \<Rightarrow> bool \<Rightarrow> net_env list \<Rightarrow> nat \<Rightarrow> run_next sd_op" where
  "run_turns env dbg [] sleep_secs = io_ok (RunOn sleep_secs)"
| "run_turns env dbg (net # nets) sleep_secs =
     io_bind (run_turn env dbg net sleep_secs) (\<lambda>n.
       case n of RunDone \<Rightarrow> io_ok RunDone | RunOn secs \<Rightarrow> run_turns env dbg nets secs)"

definition run :: "lib_env \<Rightarrow> bool \<Rightarrow> net_env list \<Rightarrow> run_next sd_op" where
  "run env dbg nets =
     io_then (sd_log LogInfo (\<lambda>s. ''Start downloading from '' @ nick s))
     (io_then initialize_download_queue
     (io_then app_update_offline (run_turns env dbg nets 5)))"

subsection \<open>What run may change on the disk\<close>

lemma with_stream_keeps: "keeps (\<lambda>st. P (fst st)) m \<Longrightarrow> keeps P (with_stream m es)"
  by (auto simp: keeps_def with_stream_def split: prod.split) (metis fst_conv snd_conv)

lemma untouched_transfer:
  assumes "\<not> strict_prefix (path_iter (d @ [path_sep])) k"
  shows "keeps (\<lambda>st. untouched qf k c (fst st)) (transfer_item env (d @ [path_sep]) item f dest)"
proof -
  have fin: "keeps (untouched qf k c) (finish_directory item f dest)"
    unfolding finish_directory_def by (intro keeps_intros untouched_disk.disk_steps)
  show ?thesis
    unfolding transfer_item_def
    by (intro keeps_intros untouched_tree(1) [OF refl assms] fin untouched_disk.disk_steps)
qed

lemma untouched_turn:
  assumes "\<not> strict_prefix (path_iter (d @ [path_sep])) k"
  shows "keeps (\<lambda>st. untouched qf k c (fst st)) (queue_turn env (d @ [path_sep]) ev)"
proof -
  have start: "keeps (untouched qf k c) (start_item item f dest)" for item f dest
    unfolding start_item_def by (intro keeps_intros untouched_disk.disk_steps untouched_disk.disk_mod) simp
  show ?thesis
    unfolding queue_turn_def Let_def
    by (auto intro!: keeps_intros untouched_transfer assms start untouched_disk.disk_steps untouched_disk.disk_mod
        split: list.split option.split)
qed

lemma untouched_queue_loop:
  assumes "\<not> strict_prefix (path_iter (d @ [path_sep])) k"
  shows "keeps (\<lambda>st. untouched qf k c (fst st)) (queue_loop env (d @ [path_sep]) ev)"
proof (rule keepsI)
  have "untouched qf k c (fst (snd (queue_loop env root ev st)))"
    if "untouched qf k c (fst st)" "root = d @ [path_sep]" for root st
    using that
  proof (induction env root ev st rule: queue_loop.induct)
    case (1 env root ev st)
    obtain r st1 where t: "queue_turn env root ev st = (r, st1)" by (metis prod.exhaust)
    with 1(2,3) have u: "untouched qf k c (fst st1)" by (auto dest: keeps_run [OF untouched_turn [OF assms]])
    from u "1.IH" [OF t [symmetric]] t 1(3) show ?case
      by (subst queue_loop.simps) (auto split: outcome.split)
  qed
  then show "untouched qf k c (fst (snd (queue_loop env (d @ [path_sep]) ev st)))"
    if "untouched qf k c (fst st)" for st using that by blast
qed

lemma untouched_serve:
  assumes "\<not> strict_prefix (path_iter (d @ [path_sep])) k"
  shows "keeps (\<lambda>st. untouched qf k c (fst st)) (serve_queue env (d @ [path_sep]))"
  unfolding serve_queue_def
  by (auto intro!: keeps_intros untouched_queue_loop assms untouched_disk.disk_steps split: option.split)

lemma untouched_dial: "keeps (untouched qf k c) (dial_user env net)"
proof -
  have res: "keeps (untouched qf k c) (sd_resolve net)"
    by (auto simp: keeps_def sd_resolve_def untouched_def Let_def split: prod.split)
  show ?thesis
    unfolding dial_user_def
    by (auto intro!: keeps_intros res untouched_disk.disk_steps split: outcome.split)
qed

lemma untouched_connection: "keeps (untouched qf k c) (take_connection env net)"
  unfolding take_connection_def
  by (auto intro!: keeps_intros untouched_dial untouched_disk.disk_mod split: option.split)

definition changed_files :: "single_downloader \<Rightarrow> single_downloader \<Rightarrow> fpath set" where
  "changed_files s s' = {k. fs_files (sd_fs s') k \<noteq> fs_files (sd_fs s) k}"

text \<open>The files below the directory of the user, as it is after the manager's messages.\<close>

definition user_files :: "lib_env \<Rightarrow> single_downloader \<Rightarrow> fpath set" where
  "user_files env s =
     (case get_path_downloads_dir_user (le_host env) (nick s) (sd_config s) of
        Ok dir \<Rightarrow> {k. strict_prefix (path_iter (dir @ [path_sep])) k}
      | _ \<Rightarrow> {})"

lemma untouched_run_turn:
  assumes "k \<notin> user_files env (snd (read_receiver s))" and "untouched qf k c s"
  shows "untouched qf k c (snd (run_turn env dbg net sleep s))"
proof -
  obtain r s1 where r: "read_receiver s = (r, s1)" by (metis prod.exhaust)
  have u: "untouched qf k c s1" using keeps_run [OF untouched_disk.disk_receiver r assms(2)] .
  have fin: "keeps (untouched qf k c) (io_then app_update_in_progress (io_ok RunDone))"
    by (intro keeps_intros untouched_disk.disk_steps)
  have go: "keeps (untouched qf k c)
      (io_bind (io_lift (get_path_downloads_dir_user (le_host env) (nick s1) (sd_config s1))) (\<lambda>dir.
             io_bind (take_connection env net) (\<lambda>conn.
             case conn of
               None \<Rightarrow> io_ok (RunOn (next_sleep dbg sleep))
             | Some es \<Rightarrow>
                 io_then (with_stream (serve_queue env (dir @ [path_sep])) es) (io_ok (RunOn 5)))))"
  proof (cases "get_path_downloads_dir_user (le_host env) (nick s1) (sd_config s1)")
    case (Ok dir)
    with assms(1) r have out: "\<not> strict_prefix (path_iter (dir @ [path_sep])) k" by (simp add: user_files_def)
    have "keeps (untouched qf k c) (io_bind (take_connection env net) (\<lambda>conn.
             case conn of
               None \<Rightarrow> io_ok (RunOn (next_sleep dbg sleep))
             | Some es \<Rightarrow>
                 io_then (with_stream (serve_queue env (dir @ [path_sep])) es) (io_ok (RunOn 5))))"
      by (auto intro!: keeps_intros untouched_connection with_stream_keeps untouched_serve out split: option.split)
    with Ok show ?thesis by (simp add: keeps_def io_bind_def [where m = "io_lift _"] io_lift_def)
  qed (simp_all add: keeps_def io_bind_def io_lift_def)
  have reset: "keeps (untouched qf k c) (io_mod (\<lambda>s. s\<lparr>sd_stop_downloading := False\<rparr>))"
    by (rule untouched_disk.disk_mod) simp
  have ok: "keeps (untouched qf k c) (io_ok (RunOn sleep))" by (rule keeps_ok)
  show ?thesis
  proof (cases r)
    case (Ok x)
    with r u show ?thesis
      by (auto simp: run_turn_def io_bind_Ok io_self_def keepsD [OF fin] intro!: keepsD [OF keeps_bind [OF reset]] ok go)
  qed (use r u in \<open>simp_all add: run_turn_def io_bind_def\<close>)
qed

text \<open>
  C3. A peer cannot write outside the directory of its user: whatever list, names and answers it
  sends, one turn of \<open>run\<close> (connecting, fetching the list, downloading the queue, in whatever way
  it ends) changes no file but the queue file and the files below the user's download directory.
\<close>

theorem peer_writes_only_user_files:
  "changed_files s (snd (run_turn env dbg net sleep s)) \<subseteq>
     insert (path_iter (sd_path_queue_file s)) (user_files env (snd (read_receiver s)))"
proof
  fix k assume k: "k \<in> changed_files s (snd (run_turn env dbg net sleep s))"
  show "k \<in> insert (path_iter (sd_path_queue_file s)) (user_files env (snd (read_receiver s)))"
  proof (rule ccontr)
    assume "\<not> ?thesis"
    then have "untouched (sd_path_queue_file s) k (fs_files (sd_fs s) k) s"
      "k \<notin> user_files env (snd (read_receiver s))" by (simp_all add: untouched_def)
    from untouched_run_turn [OF this(2,1)] k show False by (auto simp: changed_files_def untouched_def)
  qed
qed

subsection \<open>The thread\<close>

text \<open>
  One pass of the thread's loop: an error is logged and \<open>run\<close> is called again, unless the error is
  that of a closed channel; a panic is caught and logged. The messages are sent with \<open>unwrap\<close>, so a
  thread whose app loop is gone dies. No error of the program has the wording of
  \<open>ERR_REMOTE_ID_MISMATCH\<close> (the handshake's is \<open>ERR_REMOTE_ID_NOT_FOUND\<close>), so that branch is dead.
\<close>

datatype thread_next = StillRunning | RunAgain | ThreadEnds

definition send_unwrap :: "app_agg_message \<Rightarrow> unit sd_op" where
  "send_unwrap m s = (case sd_send m s of (Ok _, s') \<Rightarrow> (Ok (), s') | (_, s') \<Rightarrow> (Panic, s'))"

definition after_panic :: "string \<Rightarrow> thread_next sd_op" where
  "after_panic nickname =
     io_then (send_unwrap (LogCritical (''Downloader run panic. '' @ nickname, None))) (io_ok RunAgain)"

definition thread_pass :: "lib_env \<Rightarrow> bool \<Rightarrow> string \<Rightarrow> net_env list \<Rightarrow> thread_next sd_op" where
  "thread_pass env dbg nickname nets s =
     (case run env dbg nets s of
        (Ok RunDone, s1) \<Rightarrow> (Ok ThreadEnds, s1)
      | (Ok (RunOn _), s1) \<Rightarrow> (Ok StillRunning, s1)
      | (Err e, s1) \<Rightarrow>
          (case send_unwrap (LogError (''Downloader run error. '' @ nickname, Some e)) s1 of
             (Ok _, s2) \<Rightarrow> (Ok (if e = TransferError ReceiverDisconnected then ThreadEnds else RunAgain), s2)
           | (_, s2) \<Rightarrow> after_panic nickname s2)
      | (Panic, s1) \<Rightarrow> after_panic nickname s1
      | (Exit c, s1) \<Rightarrow> (Exit c, s1))"

lemma send_alive:
  "ch_alive (sd_app_sender s) \<Longrightarrow>
     sd_send m s = (Ok (), s\<lparr>sd_app_sender := (sd_app_sender s)\<lparr>ch_queue := ch_queue (sd_app_sender s) @ [m]\<rparr>\<rparr>)"
  by (simp add: sd_send_def send_app_def ch_send_def)

lemma remove_message:
  assumes "disk_writes s" and "ch_alive (sd_app_sender s)" and "sd_polls s = [(RevEmpty, MsgReceived RemoveUser)]"
  shows "\<exists>s'. read_receiver s = (Ok (), s') \<and> sd_shutdown s' \<and> sd_download_queue s' = [] \<and> queue_on_disk s'
     \<and> ch_alive (sd_app_sender s')"
proof -
  let ?s1 = "s\<lparr>sd_polls := [], sd_shutdown := True, sd_stop_downloading := True, sd_download_queue := [],
    sd_active_download_path := None\<rparr>"
  have "disk_writes ?s1" using assms(1) by (simp add: disk_writes_def)
  from write_queue_runs [OF this] obtain fs where
    w: "write_queue ?s1 = (Ok (), ?s1\<lparr>sd_fs := fs\<rparr>)" "queue_synced (?s1\<lparr>sd_fs := fs\<rparr>)" by blast
  let ?m = "LogDebug (''Downloader remove '' @ nick s, None)"
  have "sd_send ?m (?s1\<lparr>sd_fs := fs\<rparr>) =
      (Ok (), ?s1\<lparr>sd_fs := fs, sd_app_sender := (sd_app_sender s)\<lparr>ch_queue := ch_queue (sd_app_sender s) @ [?m]\<rparr>\<rparr>)"
    using assms(2) by (subst send_alive) simp_all
  with w(1) assms(3) have "read_receiver s =
      (Ok (), ?s1\<lparr>sd_fs := fs, sd_app_sender := (sd_app_sender s)\<lparr>ch_queue := ch_queue (sd_app_sender s) @ [?m]\<rparr>\<rparr>)"
    by (simp add: read_receiver_def io_self_def io_bind_def io_mod_def io_ok_def)
  with w(2) assms(2) show ?thesis by (simp add: synced_defs)
qed



end
