(* ===== verification/Download_Manager.thy ===== *)
theory Download_Manager
  imports Download_Run
begin

text \<open>
  \<open>OutgoingDownloader\<close> of \<open>outgoing_downloader.rs\<close>: one downloader per user and the lists that users
  share. Its state holds, beside its fields, the disk and the downloaders it has started (the state
  each starts with, oldest first) and the channels it let go of, whose threads still read what was
  sent before. A channel's \<open>ch_alive\<close> says whether the thread behind it lives.
\<close>

subsection \<open>State\<close>

type_synonym downloader_channels = "message_single_downloader channel \<times> encrypted_stream channel"

record outgoing_downloader =
  od_config :: config
  od_channel_map :: "string \<Rightarrow> downloader_channels option"
  od_app_sender :: app_channel
  od_is_downloading_paused :: bool
  od_refresh_data :: "string \<Rightarrow> internal_refresh_data option"
  od_fs :: file_sys
  od_started :: "single_downloader list"
  od_dropped :: "(string \<times> downloader_channels) list"

record selected_download =
  sel_path :: string
  sel_owner :: string
  sel_file_size :: u64

record refresh_data =
  rd_owner :: string
  rd_error :: "remark option"
  rd_data :: "shared_file option"
  rd_in_progress :: bool

type_synonym 'a od_op = "(outgoing_downloader, error, 'a) io"

abbreviation od_users :: "outgoing_downloader \<Rightarrow> shared_user list" where
  "od_users m \<equiv> cf_shared_users (c_config_file (od_config m))"

definition od_on_fs :: "'a fs_op \<Rightarrow> 'a od_op" where
  "od_on_fs op m = (case op (od_fs m) of (r, fs) \<Rightarrow> (r, m\<lparr>od_fs := fs\<rparr>))"

text \<open>A message to the app loop, sent with \<open>.ok()\<close>.\<close>

definition od_log :: "app_agg_message \<Rightarrow> unit od_op" where
  "od_log msg = io_mod (\<lambda>m. m\<lparr>od_app_sender := send_app_ok msg (od_app_sender m)\<rparr>)"

definition set_refresh_data ::
  "config \<Rightarrow> (string \<Rightarrow> internal_refresh_data option) \<Rightarrow> string \<Rightarrow> internal_refresh_data option" where
  "set_refresh_data c data nickname =
     (if nickname \<in> set (map su_nickname (cf_shared_users (c_config_file c)))
      then (case data nickname of None \<Rightarrow> Some new_internal_refresh_data | Some d \<Rightarrow> Some d)
      else None)"

definition new_outgoing_downloader ::
  "host_env \<Rightarrow> config \<Rightarrow> app_channel \<Rightarrow> file_sys \<Rightarrow> (error, outgoing_downloader) outcome" where
  "new_outgoing_downloader host c ch fs =
     and_then (get_path_downloads_dir host c) (\<lambda>path.
       case fs_create_dir_all path fs of
         (Ok _, fs') \<Rightarrow>
           Ok \<lparr>od_config = c, od_channel_map = (\<lambda>_. None), od_app_sender = ch, od_is_downloading_paused = False,
             od_refresh_data = set_refresh_data c (\<lambda>_. None), od_fs = fs', od_started = [], od_dropped = []\<rparr>
       | (Err e, _) \<Rightarrow> Err e | (Panic, _) \<Rightarrow> Panic | (Exit n, _) \<Rightarrow> Exit n)"

subsection \<open>Starting a downloader\<close>

definition queue_file_path :: "config \<Rightarrow> string \<Rightarrow> string" where
  "queue_file_path c nickname = path_push (c_path_dir_config c) (nickname @ ''.txt'')"

definition new_single_downloader ::
  "shared_user \<Rightarrow> string \<Rightarrow> app_channel \<Rightarrow> bool \<Rightarrow> encrypted_stream option
     \<Rightarrow> (string \<Rightarrow> internal_refresh_data option) \<Rightarrow> config \<Rightarrow> file_sys \<Rightarrow> single_downloader" where
  "new_single_downloader user path ch paused rev_conn refresh c fs =
     \<lparr>sd_polls = [], sd_shared_user = user, sd_path_queue_file = path, sd_download_queue = [],
      sd_is_downloading_paused = paused, sd_stop_downloading = False, sd_app_sender = ch,
      sd_active_download_path = None, sd_active_download_size = 0, sd_active_downloaded_current_bytes = 0,
      sd_active_download_local_path = None, sd_active_download_total_size = [], sd_shutdown = False,
      sd_progress_due = [], sd_reverse_connection = rev_conn, sd_refresh_data = refresh, sd_config = c, sd_fs = fs\<rparr>"

text \<open>The channels that a user's entry had, before it is replaced or removed.\<close>

definition let_go :: "string \<Rightarrow> outgoing_downloader \<Rightarrow> (string \<times> downloader_channels) list" where
  "let_go nickname m =
     od_dropped m @ (case od_channel_map m nickname of None \<Rightarrow> [] | Some chs \<Rightarrow> [(nickname, chs)])"

text \<open>The check of a reverse connection against the configuration of now.\<close>

definition user_matches :: "outgoing_downloader \<Rightarrow> encrypted_stream \<Rightarrow> bool" where
  "user_matches m enc \<longleftrightarrow>
     list_ex (\<lambda>u. su_nickname u = su_nickname (es_shared_user enc) \<and> su_public_id u = su_public_id (es_shared_user enc)
       \<and> c_local_private_key_bytes (od_config m) = es_private_id_bytes enc) (od_users m)"

definition spawn_downloader :: "shared_user \<Rightarrow> encrypted_stream option \<Rightarrow> unit od_op" where
  "spawn_downloader user rev_conn =
     io_mod (\<lambda>m. m\<lparr>od_channel_map := (od_channel_map m)(su_nickname user := Some (new_channel, new_channel)),
       od_dropped := let_go (su_nickname user) m,
       od_started := od_started m @
         [new_single_downloader user (queue_file_path (od_config m) (su_nickname user)) (od_app_sender m)
            (od_is_downloading_paused m) rev_conn (od_refresh_data m) (od_config m) (od_fs m)]\<rparr>)"

definition start_downloading_single_user :: "shared_user \<Rightarrow> encrypted_stream option \<Rightarrow> unit od_op" where
  "start_downloading_single_user user rev_conn =
     io_self (\<lambda>m.
       case rev_conn of
         None \<Rightarrow>
           if fs_exists (queue_file_path (od_config m) (su_nickname user)) (od_fs m)
           then spawn_downloader user None else io_ok ()
       | Some enc \<Rightarrow>
           if user_matches m enc then
             io_then (od_log (LogDebug (''Reverse Connection recheck success '' @ su_nickname (es_shared_user enc), None)))
               (case od_channel_map m (su_nickname user) of
                  None \<Rightarrow> spawn_downloader user (Some enc)
                | Some (sx, rev_sx) \<Rightarrow>
                    io_mod (\<lambda>m. m\<lparr>od_channel_map := (od_channel_map m)(su_nickname user :=
                      Some (sx, case ch_send enc rev_sx of Some ch \<Rightarrow> ch | None \<Rightarrow> rev_sx))\<rparr>))
           else
             od_log (LogWarning (''Reverse Connection recheck failed. Connection disconnected. ''
               @ su_nickname (es_shared_user enc), None)))"

definition start_downloading :: "unit od_op" where
  "start_downloading = io_self (\<lambda>m. io_for (\<lambda>u. start_downloading_single_user u None) (od_users m))"

subsection \<open>Messages to the downloaders\<close>

text \<open>Every downloader gets the message, and those that have ended are dropped from the map.\<close>

definition send_message_to_all_downloads :: "message_single_downloader \<Rightarrow> unit od_op" where
  "send_message_to_all_downloads msg =
     io_mod (\<lambda>m. m\<lparr>od_channel_map := (\<lambda>nickname.
       case od_channel_map m nickname of
         None \<Rightarrow> None
       | Some (sx, rev_sx) \<Rightarrow> (case ch_send msg sx of Some sx' \<Rightarrow> Some (sx', rev_sx) | None \<Rightarrow> None))\<rparr>)"

text \<open>The same for one downloader; the result is whether it was there and alive.\<close>

definition send_to :: "string \<Rightarrow> message_single_downloader \<Rightarrow> outgoing_downloader \<Rightarrow> outgoing_downloader option" where
  "send_to nickname msg m =
     (case od_channel_map m nickname of
        None \<Rightarrow> None
      | Some (sx, rev_sx) \<Rightarrow>
          (case ch_send msg sx of
             None \<Rightarrow> None
           | Some sx' \<Rightarrow> Some (m\<lparr>od_channel_map := (od_channel_map m)(nickname := Some (sx', rev_sx))\<rparr>)))"

definition send_or_drop :: "string \<Rightarrow> message_single_downloader \<Rightarrow> unit od_op" where
  "send_or_drop nickname msg =
     io_mod (\<lambda>m. case send_to nickname msg m of
         Some m' \<Rightarrow> m' | None \<Rightarrow> m\<lparr>od_channel_map := (od_channel_map m)(nickname := None)\<rparr>)"

definition od_set_new_config :: "config \<Rightarrow> unit od_op" where
  "od_set_new_config c =
     io_then (io_mod (\<lambda>m. m\<lparr>od_config := c\<rparr>))
     (io_then (send_message_to_all_downloads (NewConfig c))
       (io_mod (\<lambda>m. m\<lparr>od_refresh_data := set_refresh_data (od_config m) (od_refresh_data m)\<rparr>)))"

definition restart_connections :: "unit od_op" where
  "restart_connections = send_message_to_all_downloads RestartConnection"

definition od_downloads_cancel_all :: "unit od_op" where
  "od_downloads_cancel_all = send_message_to_all_downloads CancelAllDownloads"

definition od_downloads_cancel_single :: "string \<Rightarrow> string \<Rightarrow> unit od_op" where
  "od_downloads_cancel_single nickname file_path = send_or_drop nickname (CancelDownload file_path)"

definition od_update_user :: "string \<Rightarrow> unit od_op" where
  "od_update_user nickname =
     io_self (\<lambda>m.
       case find (\<lambda>u. su_nickname u = nickname) (od_users m) of
         None \<Rightarrow> io_lift (Err (TransferError (UserUnknown nickname)))
       | Some u \<Rightarrow> send_or_drop nickname (NewSharedUser u))"

definition od_downloads_pause_all :: "unit od_op" where
  "od_downloads_pause_all =
     io_then (io_mod (\<lambda>m. m\<lparr>od_is_downloading_paused := True\<rparr>)) (send_message_to_all_downloads PauseDownloads)"

definition od_downloads_resume_all :: "unit od_op" where
  "od_downloads_resume_all =
     io_then (io_mod (\<lambda>m. m\<lparr>od_is_downloading_paused := False\<rparr>)) (send_message_to_all_downloads ResumeDownloads)"

definition od_remove_user :: "string \<Rightarrow> unit od_op" where
  "od_remove_user nickname =
     io_mod (\<lambda>m.
       let m' = (case send_to nickname RemoveUser m of Some m' \<Rightarrow> m' | None \<Rightarrow> m) in
       m'\<lparr>od_channel_map := (od_channel_map m')(nickname := None), od_dropped := let_go nickname m'\<rparr>)"

subsection \<open>Adding downloads\<close>

definition add_to_queue_file_and_start_downloader :: "string \<Rightarrow> string \<Rightarrow> u64 \<Rightarrow> unit od_op" where
  "add_to_queue_file_and_start_downloader download_owner path file_size =
     io_self (\<lambda>m.
       io_then (od_on_fs (fs_append_create (queue_file_path (od_config m) download_owner)
         (as_bytes (queue_text [\<lparr>dq_path = path, dq_file_size = file_size\<rparr>]))))
       (case find (\<lambda>u. su_nickname u = download_owner) (od_users m) of
          None \<Rightarrow> io_ok ()
        | Some u \<Rightarrow> start_downloading_single_user u None))"

definition select_download :: "selected_download \<Rightarrow> unit od_op" where
  "select_download d =
     io_self (\<lambda>m.
       case send_to (sel_owner d) (NewDownload \<lparr>dq_path = sel_path d, dq_file_size = sel_file_size d\<rparr>) m of
         Some m' \<Rightarrow> io_mod (\<lambda>_. m')
       | None \<Rightarrow> add_to_queue_file_and_start_downloader (sel_owner d) (sel_path d) (sel_file_size d))"

definition od_download_selected :: "selected_download list \<Rightarrow> unit od_op" where
  "od_download_selected downloads = io_for select_download downloads"

subsection \<open>Refreshing the lists\<close>

definition refresh_single_user ::
  "lib_env \<Rightarrow> net_env \<Rightarrow> config \<Rightarrow> shared_user \<Rightarrow> app_channel \<Rightarrow> (error, shared_file) outcome \<times> app_channel" where
  "refresh_single_user env net c user ch =
     (case resolve_address net (su_ip user) (su_port user) user ch of
        (r, ch') \<Rightarrow>
          (and_then r (\<lambda>addrs.
             and_then (map_err (\<lambda>_. TransferError RefreshTimeout) (tcp_connect net addrs)) (\<lambda>conn.
             and_then (connect_user (le_ids env) net conn user (c_local_private_key_bytes c)) (\<lambda>es.
               fst (download_everything_file env es)))), ch'))"

text \<open>What the thread of a refresh leaves in its channel when it ends, or the end of the process.\<close>

definition refresh_thread ::
  "lib_env \<Rightarrow> net_env \<Rightarrow> config \<Rightarrow> string \<Rightarrow> app_channel \<Rightarrow> (error, refresh_rx) outcome \<times> app_channel" where
  "refresh_thread env net c nickname ch =
     (case find (\<lambda>u. su_nickname u = nickname) (cf_shared_users (c_config_file c)) of
        None \<Rightarrow> (Ok RxDisconnected, ch)
      | Some user \<Rightarrow>
          (case refresh_single_user env net c user ch of
             (Ok f, ch') \<Rightarrow> (Ok (RxFileData (Inr f)), ch')
           | (Err e, ch') \<Rightarrow> (Ok (RxFileData (Inl ([], Some e))), ch')
           | (Panic, ch') \<Rightarrow> (Ok RxDisconnected, ch')
           | (Exit n, ch') \<Rightarrow> (Exit n, ch')))"

definition od_start_refresh_single :: "string \<Rightarrow> unit od_op" where
  "od_start_refresh_single nickname m =
     (case od_refresh_data m nickname of
        Some d \<Rightarrow> (Ok (), m\<lparr>od_refresh_data := (od_refresh_data m)(nickname := Some (d\<lparr>ird_recv := Some RxEmpty\<rparr>))\<rparr>)
      | None \<Rightarrow>
          (case send_app (AppFailedKill (''Start refresh with missing key: '' @ nickname, None)) (od_app_sender m) of
             (Ok _, ch) \<Rightarrow> (Ok (), m\<lparr>od_app_sender := ch\<rparr>)
           | (_, ch) \<Rightarrow> (Panic, m\<lparr>od_app_sender := ch\<rparr>)))"

definition od_start_refresh_all :: "unit od_op" where
  "od_start_refresh_all = io_self (\<lambda>m. io_for (\<lambda>u. od_start_refresh_single (su_nickname u)) (od_users m))"

definition poll_refresh :: "internal_refresh_data \<Rightarrow> internal_refresh_data" where
  "poll_refresh d =
     (case ird_recv d of
        None \<Rightarrow> d
      | Some RxEmpty \<Rightarrow> d
      | Some (RxFileData (Inr f)) \<Rightarrow> \<lparr>ird_error = None, ird_data = Some f, ird_recv = None\<rparr>
      | Some (RxFileData (Inl e)) \<Rightarrow> d\<lparr>ird_error := Some e, ird_recv := None\<rparr>
      | Some RxDisconnected \<Rightarrow>
          d\<lparr>ird_error := Some (''Transmitic Error: Channel disconnected before refresh data was received.'', None),
            ird_recv := None\<rparr>)"

definition show_refresh :: "string \<Rightarrow> internal_refresh_data \<Rightarrow> refresh_data" where
  "show_refresh nickname d =
     \<lparr>rd_owner = nickname, rd_error = ird_error d, rd_data = ird_data d, rd_in_progress = (ird_recv d \<noteq> None)\<rparr>"

definition od_get_shared_with_me_data :: "(string \<Rightarrow> refresh_data option) od_op" where
  "od_get_shared_with_me_data m =
     (let data = (\<lambda>nickname. map_option poll_refresh (od_refresh_data m nickname)) in
      (Ok (\<lambda>nickname. map_option (show_refresh nickname) (data nickname)), m\<lparr>od_refresh_data := data\<rparr>))"

subsection \<open>The users and their lists\<close>

datatype od_event =
    EvNewConfig config | EvRestart | EvCancelAll | EvCancel string string | EvUpdateUser string
  | EvPause | EvResume | EvDownload "selected_download list" | EvRemoveUser string
  | EvRefreshAll | EvRefresh string | EvRead | EvStart shared_user "encrypted_stream option"
  | EvThreadEnded string | EvRefreshed string refresh_rx

text \<open>
  The calls that the manager gets, and what happens beside it: a downloader's thread ends, and the
  thread of a refresh leaves its result in its channel.
\<close>

fun od_call :: "od_event \<Rightarrow> unit od_op" where
  "od_call (EvNewConfig c) = od_set_new_config c"
| "od_call EvRestart = restart_connections"
| "od_call EvCancelAll = od_downloads_cancel_all"
| "od_call (EvCancel n p) = od_downloads_cancel_single n p"
| "od_call (EvUpdateUser n) = od_update_user n"
| "od_call EvPause = od_downloads_pause_all"
| "od_call EvResume = od_downloads_resume_all"
| "od_call (EvDownload ds) = od_download_selected ds"
| "od_call (EvRemoveUser n) = od_remove_user n"
| "od_call EvRefreshAll = od_start_refresh_all"
| "od_call (EvRefresh n) = od_start_refresh_single n"
| "od_call EvRead = io_then od_get_shared_with_me_data (io_ok ())"
| "od_call (EvStart u es) = start_downloading_single_user u es"
| "od_call (EvThreadEnded n) =
     io_mod (\<lambda>m. case od_channel_map m n of None \<Rightarrow> m
       | Some (sx, rx) \<Rightarrow> m\<lparr>od_channel_map := (od_channel_map m)(n := Some (sx\<lparr>ch_alive := False\<rparr>, rx\<lparr>ch_alive := False\<rparr>))\<rparr>)"
| "od_call (EvRefreshed n rx) =
     io_mod (\<lambda>m. case od_refresh_data m n of None \<Rightarrow> m
       | Some d \<Rightarrow> if ird_recv d = Some RxEmpty
           then m\<lparr>od_refresh_data := (od_refresh_data m)(n := Some (d\<lparr>ird_recv := Some rx\<rparr>))\<rparr> else m)"

definition od_step :: "outgoing_downloader \<Rightarrow> od_event \<Rightarrow> outgoing_downloader" where
  "od_step m e = snd (od_call e m)"

text \<open>There is an entry for every user of the configuration, and no other.\<close>

definition lists_match :: "outgoing_downloader \<Rightarrow> bool" where
  "lists_match m \<longleftrightarrow> dom (od_refresh_data m) = set (map su_nickname (od_users m))"

lemma match_mod:
  "(\<And>m. od_config (f m) = od_config m \<and> od_refresh_data (f m) = od_refresh_data m) \<Longrightarrow> keeps lists_match (io_mod f)"
  by (rule keeps_mod) (simp add: lists_match_def)

lemma match_log [keeps_intros]: "keeps lists_match (od_log msg)"
  unfolding od_log_def by (rule match_mod) simp

lemma match_all [keeps_intros]: "keeps lists_match (send_message_to_all_downloads msg)"
  unfolding send_message_to_all_downloads_def by (rule match_mod) simp

lemma match_spawn [keeps_intros]: "keeps lists_match (spawn_downloader u rc)"
  unfolding spawn_downloader_def by (rule match_mod) simp

lemma match_drop [keeps_intros]: "keeps lists_match (send_or_drop n msg)"
  unfolding send_or_drop_def send_to_def by (rule match_mod) (simp split: option.split prod.split)

lemma match_start [keeps_intros]: "keeps lists_match (start_downloading_single_user u rc)"
  unfolding start_downloading_single_user_def
  by (auto intro!: keeps_intros match_mod split: option.split)

lemma match_select [keeps_intros]: "keeps lists_match (select_download d)"
proof (rule keepsI)
  fix m assume m: "lists_match m"
  have add: "keeps lists_match (add_to_queue_file_and_start_downloader a b c)" for a b c
  proof -
    have "keeps lists_match (od_on_fs op)" for op :: "unit fs_op"
      by (simp add: keeps_def od_on_fs_def lists_match_def split: prod.split)
    then show ?thesis
      unfolding add_to_queue_file_and_start_downloader_def by (auto intro!: keeps_intros split: option.split)
  qed
  show "lists_match (snd (select_download d m))"
    using m keepsD [OF add m]
    by (auto simp: select_download_def io_self_def io_mod_def send_to_def lists_match_def split: option.splits prod.splits)
qed

lemma match_refresh [keeps_intros]: "keeps lists_match (od_start_refresh_single n)"
  by (auto simp: keeps_def od_start_refresh_single_def lists_match_def split: option.split prod.split outcome.split)

lemma match_new_config: "lists_match (snd (od_set_new_config c m))"
  by (auto simp: od_set_new_config_def io_bind_def io_mod_def send_message_to_all_downloads_def lists_match_def
      set_refresh_data_def dom_def split: option.split)

lemma match_call: "keeps lists_match (od_call e)"
proof (cases e)
  case (EvRead)
  have "keeps lists_match od_get_shared_with_me_data"
    by (auto simp: keeps_def od_get_shared_with_me_data_def lists_match_def Let_def dom_def)
  then show ?thesis using EvRead by (simp add: keeps_intros)
next
  case (EvRefreshed n rx)
  then show ?thesis
    by (auto intro!: keeps_mod simp: lists_match_def insert_absorb split: option.split) (metis domI)
next
  case (EvNewConfig c)
  then show ?thesis by (simp add: keeps_def match_new_config)
qed (auto simp: restart_connections_def od_downloads_cancel_all_def od_downloads_cancel_single_def od_update_user_def
    od_downloads_pause_all_def od_downloads_resume_all_def od_download_selected_def od_remove_user_def
    od_start_refresh_all_def Let_def send_to_def intro!: keeps_intros match_mod split: option.split prod.split)

interpretation manager_machine: event_machine od_step lists_match
  by unfold_locales (simp add: od_step_def keepsD [OF match_call])

lemma new_manager_matches:
  assumes "new_outgoing_downloader host c ch fs = Ok m"
  shows "lists_match m \<and> od_config m = c \<and> od_app_sender m = ch"
proof -
  from assms obtain path where p: "get_path_downloads_dir host c = Ok path"
    by (auto simp: new_outgoing_downloader_def)
  obtain r fs' where f: "fs_create_dir_all path fs = (r, fs')" by (metis prod.exhaust)
  from assms p f show ?thesis
    by (cases r) (auto simp: new_outgoing_downloader_def lists_match_def set_refresh_data_def dom_def split: option.splits if_splits)
qed

definition refreshing :: "(string \<Rightarrow> internal_refresh_data option) \<Rightarrow> string \<Rightarrow> bool" where
  "refreshing data n \<longleftrightarrow> (case data n of Some d \<Rightarrow> ird_recv d = Some RxEmpty | None \<Rightarrow> False)"

lemma refresh_known:
  "nickname \<in> dom (od_refresh_data m) \<Longrightarrow>
     \<exists>d. od_start_refresh_single nickname m =
       (Ok (), m\<lparr>od_refresh_data := (od_refresh_data m)(nickname \<mapsto> d)\<rparr>) \<and> ird_recv d = Some RxEmpty"
  by (auto simp: od_start_refresh_single_def dom_def)

lemma refresh_users:
  "set (map su_nickname us) \<subseteq> dom (od_refresh_data m) \<Longrightarrow>
     \<exists>data. io_for (\<lambda>u. od_start_refresh_single (su_nickname u)) us m = (Ok (), m\<lparr>od_refresh_data := data\<rparr>)
       \<and> (\<forall>n. n \<in> set (map su_nickname us) \<or> refreshing (od_refresh_data m) n \<longrightarrow> refreshing data n)"
proof (induction us arbitrary: m)
  case Nil
  show ?case by (intro exI [of _ "od_refresh_data m"]) (simp add: io_ok_def)
next
  case (Cons u us)
  let ?n = "su_nickname u"
  from Cons.prems obtain d where d: "od_start_refresh_single ?n m = (Ok (), m\<lparr>od_refresh_data := (od_refresh_data m)(?n \<mapsto> d)\<rparr>)"
    "ird_recv d = Some RxEmpty" using refresh_known [of ?n m] by auto
  let ?m = "m\<lparr>od_refresh_data := (od_refresh_data m)(?n \<mapsto> d)\<rparr>"
  have dm: "set (map su_nickname us) \<subseteq> dom (od_refresh_data ?m)" using Cons.prems by auto
  from Cons.IH [OF dm] obtain data where
    data: "io_for (\<lambda>u. od_start_refresh_single (su_nickname u)) us ?m = (Ok (), ?m\<lparr>od_refresh_data := data\<rparr>)"
    "\<forall>n. n \<in> set (map su_nickname us) \<or> refreshing (od_refresh_data ?m) n \<longrightarrow> refreshing data n" by blast
  have "refreshing (od_refresh_data ?m) n" if "n = ?n \<or> refreshing (od_refresh_data m) n" for n
    using that d(2) by (auto simp: refreshing_def)
  with d(1) data show ?case by (auto simp: io_bind_def)
qed


definition demo_manager :: outgoing_downloader where
  "demo_manager =
     \<lparr>od_config = demo_cfg, od_channel_map = (\<lambda>_. None), od_app_sender = new_channel,
      od_is_downloading_paused = False, od_refresh_data = set_refresh_data demo_cfg (\<lambda>_. None),
      od_fs = snd (fs_create_dir_all ''/d'' demo_fs), od_started = [], od_dropped = []\<rparr>"

definition downloads_host :: host_env where
  "downloads_host = demo_host\<lparr>he_var := (\<lambda>v. if v = ''TRAN_PATH_DOWNLOADS'' then Some ''/d'' else None)\<rparr>"


text \<open>
  Cancelling a download of a user without a thread changes nothing on the disk: the queue file keeps
  the entry, and the next start of the user's downloader takes it up again.
\<close>

lemma cancel_without_thread:
  "od_channel_map m nickname = None \<Longrightarrow>
     od_fs (snd (od_downloads_cancel_single nickname path m)) = od_fs m
     \<and> od_started (snd (od_downloads_cancel_single nickname path m)) = od_started m"
  by (simp add: od_downloads_cancel_single_def send_or_drop_def send_to_def io_mod_def)

subsection \<open>Reverse connections\<close>

text \<open>
  C22. A reverse connection is used only for a user the configuration still has: whatever was true when
  it was authenticated, after a configuration without that nickname and public id, or with another
  private id, it starts no downloader and reaches none.
\<close>

theorem stale_reverse_refused:
  assumes "\<not> (c_local_private_key_bytes c = es_private_id_bytes enc \<and>
      (\<exists>u \<in> set (cf_shared_users (c_config_file c)).
         su_nickname u = su_nickname (es_shared_user enc) \<and> su_public_id u = su_public_id (es_shared_user enc)))"
  shows "let m1 = snd (od_set_new_config c m); m2 = snd (start_downloading_single_user user (Some enc) m1)
     in od_channel_map m2 = od_channel_map m1 \<and> od_started m2 = od_started m1 \<and> od_dropped m2 = od_dropped m1"
proof -
  let ?m1 = "snd (od_set_new_config c m)"
  have "od_config ?m1 = c"
    by (simp add: od_set_new_config_def io_bind_def io_mod_def send_message_to_all_downloads_def)
  with assms have "\<not> user_matches ?m1 enc" by (auto simp: user_matches_def list_ex_iff)
  then show ?thesis by (simp add: start_downloading_single_user_def io_self_def od_log_def io_mod_def Let_def)
qed

theorem stale_reverse_refused_witness:
  "od_started (snd (start_downloading_single_user demo_bob (Some demo_stream) (snd (od_set_new_config demo_cfg demo_manager))))
     = od_started (snd (od_set_new_config demo_cfg demo_manager))"
proof -
  have "\<not> (c_local_private_key_bytes demo_cfg = es_private_id_bytes demo_stream \<and>
      (\<exists>u \<in> set (cf_shared_users (c_config_file demo_cfg)).
         su_nickname u = su_nickname (es_shared_user demo_stream) \<and> su_public_id u = su_public_id (es_shared_user demo_stream)))"
    by (simp add: demo_cfg_def demo_config_def)
  from stale_reverse_refused [OF this, of demo_manager demo_bob] show ?thesis by (simp only: Let_def)
qed

subsection \<open>Downloads for a user without a thread\<close>

lemma queue_text_append: "queue_text (qs @ rs) = queue_text qs @ queue_text rs" "queue_text [] = []"
  by (simp_all add: queue_text_def)


definition bob_manager :: outgoing_downloader where
  "bob_manager = demo_manager\<lparr>od_config := demo_cfg\<lparr>c_path_dir_config := ''/c'',
     c_config_file := demo_config\<lparr>cf_shared_users := [demo_bob]\<rparr>\<rparr>\<rparr>"


end
