(* ===== verification/Aggregator.thy ===== *)
theory Aggregator
  imports Download_Manager Logger
begin

text \<open>
  \<open>app_aggregator.rs\<close>: the loop that receives the messages of all threads. It keeps what the user is
  shown (the state of the downloads from, and of the upload to, each user), feeds the log, and hands
  reverse connections to the download manager. The time stamps of log lines and the wording of
  errors are arguments. The locks around the states are held for one message and their holders do
  not panic; the lock of the download manager may be poisoned (\<open>as_poisoned\<close>).
\<close>

subsection \<open>State\<close>

datatype incoming_uploader_error = PortInUse | Generic remark

record app_state =
  as_download_state :: "string \<Rightarrow> single_download_state option"
  as_upload_state :: "string \<Rightarrow> single_upload_state option"
  as_logger :: logger_world
  as_uploader_error :: "incoming_uploader_error option"
  as_outgoing :: outgoing_downloader
  as_poisoned :: bool

type_synonym 'a app_op = "(app_state, error, 'a) io"

definition remark_text :: "(error \<Rightarrow> string) \<Rightarrow> remark \<Rightarrow> string" where
  "remark_text wording r = fst r @ (case snd r of None \<Rightarrow> [] | Some e \<Rightarrow> wording e)"

definition agg_log :: "(error \<Rightarrow> string) \<Rightarrow> string \<Rightarrow> remark \<Rightarrow> log_level \<Rightarrow> unit app_op" where
  "agg_log wording time message level =
     io_mod (\<lambda>s. s\<lparr>as_logger := log_message wording time level (remark_text wording message) (as_logger s)\<rparr>)"

subsection \<open>What a message does to the state of a user's downloads\<close>

fun invalid_update :: "invalid_file_message \<Rightarrow> single_download_state option \<Rightarrow> single_download_state" where
  "invalid_update f (Some h) =
     h\<lparr>sds_active_download_path := ivm_active_path f,
       sds_invalid_downloads := sds_invalid_downloads h @ [\<lparr>ir_path = ivm_invalid_path f, ir_message = ivm_message f\<rparr>],
       sds_download_queue := ivm_download_queue f, sds_is_online := True\<rparr>"
| "invalid_update f None =
     default_download_state\<lparr>sds_active_download_path := ivm_active_path f,
       sds_invalid_downloads := [\<lparr>ir_path = ivm_invalid_path f, ir_message = ivm_message f\<rparr>],
       sds_download_queue := ivm_download_queue f\<rparr>"

fun progress_update :: "in_progress_message \<Rightarrow> single_download_state option \<Rightarrow> single_download_state" where
  "progress_update f (Some h) =
     h\<lparr>sds_active_download_path := ipm_path f, sds_active_download_percent := ipm_percent f,
       sds_active_download_local_path := ipm_path_local_disk f, sds_download_queue := ipm_download_queue f,
       sds_is_online := True, sds_active_download_size := ipm_size_string f\<rparr>"
| "progress_update f None =
     default_download_state\<lparr>sds_active_download_path := ipm_path f,
       sds_active_download_local_path := ipm_path_local_disk f, sds_active_download_percent := ipm_percent f,
       sds_download_queue := ipm_download_queue f, sds_active_download_size := ipm_size_string f\<rparr>"

fun completed_update :: "completed_message \<Rightarrow> single_download_state option \<Rightarrow> single_download_state" where
  "completed_update f (Some h) =
     h\<lparr>sds_completed_downloads := sds_completed_downloads h @ [f], sds_download_queue := cm_download_queue f,
       sds_active_download_path := None, sds_active_download_local_path := Some (cm_path_local_disk f),
       sds_is_online := True\<rparr>"
| "completed_update f None =
     default_download_state\<lparr>sds_completed_downloads := [f], sds_download_queue := cm_download_queue f,
       sds_active_download_path := None\<rparr>"

fun offline_update :: "offline_message \<Rightarrow> single_download_state option \<Rightarrow> single_download_state" where
  "offline_update f (Some h) = h\<lparr>sds_is_online := False, sds_download_queue := om_download_queue f, sds_error := None\<rparr>"
| "offline_update f None =
     default_download_state\<lparr>sds_is_online := False, sds_download_queue := om_download_queue f, sds_error := None\<rparr>"

fun offline_error_update :: "offline_error_message \<Rightarrow> single_download_state option \<Rightarrow> single_download_state" where
  "offline_error_update f (Some h) = h\<lparr>sds_is_online := False, sds_error := Some (oem_error f)\<rparr>"
| "offline_error_update f None = default_download_state\<lparr>sds_is_online := False, sds_error := Some (oem_error f)\<rparr>"

definition set_download :: "string \<Rightarrow> (single_download_state option \<Rightarrow> single_download_state) \<Rightarrow> unit app_op" where
  "set_download nickname f =
     io_mod (\<lambda>s. s\<lparr>as_download_state := (as_download_state s)(nickname := Some (f (as_download_state s nickname)))\<rparr>)"

definition set_logger :: "(logger_world \<Rightarrow> logger_world) \<Rightarrow> unit app_op" where
  "set_logger f = io_mod (\<lambda>s. s\<lparr>as_logger := f (as_logger s)\<rparr>)"

definition on_outgoing :: "'a od_op \<Rightarrow> 'a app_op" where
  "on_outgoing op s = (case op (as_outgoing s) of (r, m) \<Rightarrow> (r, s\<lparr>as_outgoing := m\<rparr>))"

subsection \<open>The loop\<close>

fun handle_app_message :: "(error \<Rightarrow> string) \<Rightarrow> string \<Rightarrow> app_agg_message \<Rightarrow> unit app_op" where
  "handle_app_message wording time (InvalidFile f) =
     io_then (agg_log wording time (''Invalid file from '' @ ivm_nickname f @ '' - '' @ ivm_invalid_path f, None) Warning)
       (set_download (ivm_nickname f) (invalid_update f))"
| "handle_app_message wording time (InProgress f) = set_download (ipm_nickname f) (progress_update f)"
| "handle_app_message wording time (Completed f) =
     io_then (agg_log wording time (''Download completed '' @ cm_nickname f @ '' - '' @ cm_path_local_disk f, None) Info)
       (set_download (cm_nickname f) (completed_update f))"
| "handle_app_message wording time (Offline f) = set_download (om_nickname f) (offline_update f)"
| "handle_app_message wording time (OfflineError f) = set_download (oem_nickname f) (offline_error_update f)"
| "handle_app_message wording time (UploadStateChange f) =
     io_mod (\<lambda>s. s\<lparr>as_upload_state := (as_upload_state s)(sus_nickname f := Some f)\<rparr>)"
| "handle_app_message wording time (UploadDisconnected nickname) =
     io_then (agg_log wording time (''Upload disconnected '' @ nickname, None) Debug)
       (io_mod (\<lambda>s. case as_upload_state s nickname of
          None \<Rightarrow> s
        | Some f \<Rightarrow> s\<lparr>as_upload_state := (as_upload_state s)(nickname := Some (f\<lparr>sus_is_online := False\<rparr>))\<rparr>))"
| "handle_app_message wording time (AppFailedKill r) = io_lift (Exit (exit_value ExitAppFailedKill))"
| "handle_app_message wording time (LogDebug r) = agg_log wording time r Debug"
| "handle_app_message wording time (LogInfo r) = agg_log wording time r Info"
| "handle_app_message wording time (LogWarning r) = agg_log wording time r Warning"
| "handle_app_message wording time (LogError r) = agg_log wording time r ErrorLevel"
| "handle_app_message wording time (LogCritical r) = agg_log wording time r Critical"
| "handle_app_message wording time (SetLogLevel level) = set_logger (\<lambda>(lg, fs). (set_log_level level lg, fs))"
| "handle_app_message wording time (LogToFileState state) = set_logger (set_is_file_logging wording state)"
| "handle_app_message wording time (UploadErrorGeneric r) =
     io_then (agg_log wording time (''Uploading Error. Sharing has stopped.: '' @ fst r, snd r) ErrorLevel)
       (io_mod (\<lambda>s. s\<lparr>as_uploader_error := Some (Generic r)\<rparr>))"
| "handle_app_message wording time UploadErrorPortInUse =
     io_then (agg_log wording time (''Uploading Error. Port already in use. Sharing has stopped.'', None) ErrorLevel)
       (io_mod (\<lambda>s. s\<lparr>as_uploader_error := Some PortInUse\<rparr>))"
| "handle_app_message wording time (ReverseConnection es) =
     io_then (agg_log wording time (''Reverse AppAgg'', None) Info)
     (io_self (\<lambda>s.
       if as_poisoned s then io_lift (Exit (exit_value ExitRevConnOutgoingLock))
       else on_outgoing (start_downloading_single_user (es_shared_user es) (Some es))))"

text \<open>What \<open>recv\<close> returns: the next message with the time at which it is handled, or the end of the channel.\<close>

datatype received = Received string app_agg_message | AllSendersGone

fun app_turn :: "(error \<Rightarrow> string) \<Rightarrow> received \<Rightarrow> unit app_op" where
  "app_turn wording (Received time msg) = handle_app_message wording time msg"
| "app_turn wording AllSendersGone = io_lift (Exit (exit_value ExitAppLoopRecFailed))"

text \<open>The loop over what is received; it ends with the process only.\<close>

definition app_loop :: "(error \<Rightarrow> string) \<Rightarrow> received list \<Rightarrow> unit app_op" where
  "app_loop wording msgs = io_for (app_turn wording) msgs"

subsection \<open>The messages about one user\<close>

text \<open>
  The specification of the table of downloads: one small machine per user, driven by the messages
  that name the user.
\<close>

fun about :: "string \<Rightarrow> received \<Rightarrow> (single_download_state option \<Rightarrow> single_download_state) option" where
  "about n (Received time (InvalidFile f)) = (if ivm_nickname f = n then Some (invalid_update f) else None)"
| "about n (Received time (InProgress f)) = (if ipm_nickname f = n then Some (progress_update f) else None)"
| "about n (Received time (Completed f)) = (if cm_nickname f = n then Some (completed_update f) else None)"
| "about n (Received time (Offline f)) = (if om_nickname f = n then Some (offline_update f) else None)"
| "about n (Received time (OfflineError f)) = (if oem_nickname f = n then Some (offline_error_update f) else None)"
| "about n msg = None"

definition user_run :: "string \<Rightarrow> received list \<Rightarrow> single_download_state option \<Rightarrow> single_download_state option" where
  "user_run n msgs d = foldl (\<lambda>d f. Some (f d)) d (List.map_filter (about n) msgs)"

lemma user_run_simps:
  "user_run n [] d = d"
  "user_run n (msg # msgs) d = user_run n msgs (case about n msg of None \<Rightarrow> d | Some f \<Rightarrow> Some (f d))"
  by (simp_all add: user_run_def List.map_filter_def split: option.split)

lemma agg_log_run: "agg_log wording time message level s =
    (Ok (), s\<lparr>as_logger := log_message wording time level (remark_text wording message) (as_logger s)\<rparr>)"
  by (simp add: agg_log_def io_mod_def)

lemmas agg_defs = set_download_def set_logger_def on_outgoing_def agg_log_run io_bind_def io_mod_def io_self_def io_lift_def

lemma turn_download_state:
  "as_download_state (snd (app_turn wording msg s)) n =
     (case about n msg of None \<Rightarrow> as_download_state s n | Some f \<Rightarrow> Some (f (as_download_state s n)))"
proof (cases msg)
  case (Received time m)
  then show ?thesis by (cases m) (simp_all add: agg_defs split: prod.split option.split)
qed (simp add: agg_defs)

text \<open>
  C15. What is shown about a user's downloads depends on the messages about that user only, in their order: the
  table that the loop keeps refines one machine per user, which starts from the default state at the
  first message and is changed by nobody else's.
\<close>

theorem downloads_refine_user_machines:
  assumes "app_loop wording msgs s = (Ok (), s')"
  shows "as_download_state s' n = user_run n msgs (as_download_state s n)"
  using assms unfolding app_loop_def
proof (induction msgs arbitrary: s)
  case Nil
  then show ?case by (simp add: io_ok_def user_run_simps)
next
  case (Cons msg msgs)
  from Cons.prems obtain s1 where t: "app_turn wording msg s = (Ok (), s1)" and rest: "io_for (app_turn wording) msgs s1 = (Ok (), s')"
    by (auto elim!: io_bind_OkE)
  from Cons.IH [OF rest] turn_download_state [of wording msg s n] show ?case
    unfolding t by (simp add: user_run_simps)
qed

definition demo_app :: app_state where
  "demo_app = \<lparr>as_download_state = (\<lambda>_. None), as_upload_state = (\<lambda>_. None),
     as_logger = new_logger ''/c'' Critical False demo_fs, as_uploader_error = None, as_outgoing = demo_manager, as_poisoned = False\<rparr>"

definition demo_received :: "received list" where
  "demo_received =
     [Received ''t1'' (Completed \<lparr>cm_nickname = ''bob'', cm_path = ''/a'', cm_download_queue = [''/b''],
        cm_path_local_disk = ''/d/bob/a'', cm_size_string = ''1 B''\<rparr>),
      Received ''t2'' (Offline \<lparr>om_nickname = ''eve'', om_download_queue = []\<rparr>),
      Received ''t3'' (OfflineError \<lparr>oem_nickname = ''bob'', oem_error = ''gone''\<rparr>)]"

theorem downloads_refine_user_machines_witness:
  "\<exists>s'. app_loop (\<lambda>_. []) demo_received demo_app = (Ok (), s')
     \<and> as_download_state s' ''bob'' = user_run ''bob'' demo_received None
     \<and> map_option sds_is_online (as_download_state s' ''bob'') = Some False
     \<and> map_option sds_download_queue (as_download_state s' ''bob'') = Some [''/b'']"
proof -
  obtain s' where run: "app_loop (\<lambda>_. []) demo_received demo_app = (Ok (), s')"
    by (simp add: app_loop_def demo_received_def agg_defs io_ok_def)
  from downloads_refine_user_machines [OF run, of "''bob''"] run show ?thesis
    by (simp add: demo_app_def user_run_simps demo_received_def)
qed

subsection \<open>The end of the process\<close>

lemma spawn_Ok: "fst (spawn_downloader u rc m) = Ok ()"
  by (simp add: spawn_downloader_def io_mod_def)

lemma start_Ok: "fst (start_downloading_single_user u rc m) = Ok ()"
  using spawn_Ok
  by (auto simp: start_downloading_single_user_def io_self_def io_ok_def od_log_def io_bind_def io_mod_def
      split: option.split prod.split)


subsection \<open>The uploads that are shown\<close>

definition uploads_keyed :: "app_state \<Rightarrow> bool" where
  "uploads_keyed s \<longleftrightarrow> (\<forall>n f. as_upload_state s n = Some f \<longrightarrow> sus_nickname f = n)"

lemma turn_keyed: "uploads_keyed s \<Longrightarrow> uploads_keyed (snd (app_turn wording msg s))"
proof (cases msg)
  case (Received time m)
  assume "uploads_keyed s"
  with Received show ?thesis by (cases m) (auto simp: agg_defs uploads_keyed_def split: prod.split option.split)
qed (simp add: agg_defs)

interpretation app_machine: event_machine "\<lambda>s msg. snd (app_turn wording msg s)" uploads_keyed for wording
  by unfold_locales (rule turn_keyed)

text \<open>
  A disconnected user is shown offline until the next report: whatever messages came before, after
  \<open>UploadDisconnected\<close> an upload that was shown for that user stays, with its path and percentage,
  under that nickname and offline, and the other users' entries are as before.
\<close>

theorem disconnected_shown_offline:
  assumes "uploads_keyed s0" and "s = foldl (\<lambda>s msg. snd (app_turn wording msg s)) s0 msgs"
    and "s' = snd (app_turn wording (Received time (UploadDisconnected n)) s)"
  shows "as_upload_state s' n = map_option (\<lambda>f. f\<lparr>sus_nickname := n, sus_is_online := False\<rparr>) (as_upload_state s n)
     \<and> (\<forall>k. k \<noteq> n \<longrightarrow> as_upload_state s' k = as_upload_state s k)"
proof -
  have "uploads_keyed s" unfolding assms(2) by (rule app_machine.run_inv [OF assms(1)])
  then have "as_upload_state s n = Some f \<Longrightarrow> f\<lparr>sus_is_online := False\<rparr> = f\<lparr>sus_nickname := n, sus_is_online := False\<rparr>" for f
    by (auto simp: uploads_keyed_def)
  then show ?thesis
    unfolding assms(3) by (auto simp: agg_defs split: option.split)
qed

theorem disconnected_shown_offline_witness:
  "let s = snd (app_turn (\<lambda>_. []) (Received ''t'' (UploadStateChange \<lparr>sus_nickname = ''bob'', sus_path = ''/a'', sus_percent = 7, sus_is_online = True\<rparr>)) demo_app);
       s' = snd (app_turn (\<lambda>_. []) (Received ''t'' (UploadDisconnected ''bob'')) s) in
     as_upload_state s' ''bob'' = Some \<lparr>sus_nickname = ''bob'', sus_path = ''/a'', sus_percent = 7, sus_is_online = False\<rparr>"
proof -
  have "uploads_keyed demo_app" by (simp add: uploads_keyed_def demo_app_def)
  from disconnected_shown_offline [OF this refl refl, of "\<lambda>_. []" "''t''" "''bob''"
      "[Received ''t'' (UploadStateChange \<lparr>sus_nickname = ''bob'', sus_path = ''/a'', sus_percent = 7, sus_is_online = True\<rparr>)]"]
  show ?thesis by (simp add: agg_defs demo_app_def)
qed

text \<open>
  The first message about a user takes a branch of its own. For a completed download that branch does
  not set the local path, which the other branch sets from the same message.
\<close>

lemma first_completed_loses_path:
  "sds_active_download_local_path (completed_update f None) = None"
  "sds_active_download_local_path (completed_update f (Some d)) = Some (cm_path_local_disk f)"
  by (simp_all add: default_download_state_def)

end
