(* ===== verification/Upload_Manager.thy ===== *)
theory Upload_Manager
  imports Uploader
begin

text \<open>
  \<open>IncomingUploader\<close> and \<open>UploaderManager\<close> of \<open>incoming_uploader.rs\<close>: the thread that listens, or
  connects to the users in turn, and starts an uploader for every connection. The loops of \<open>run\<close> are a
  machine whose steps read the manager's channel at most once; between two steps messages may
  be posted. Beside its fields the state holds the uploaders that were started, the ends of their
  channels that it let go of, and every cache of served lists that was ever made: the last one is the
  manager's, a thread keeps the one it was started with.
\<close>

subsection \<open>State\<close>

datatype sharing_state = Off | Local | Internet

datatype message_upload_manager = SharingStateMsg sharing_state | NewUploadConfig config

datatype message_single_uploader = ShutdownConn | DoNothing

type_synonym uploader_channel = "message_single_uploader channel"

record started_uploader =
  st_connection :: "connection option"
  st_reverse_user :: "shared_user option"
  st_config :: config
  st_cache :: nat

record uploader_manager =
  um_stop_incoming :: bool
  um_inbox :: "message_upload_manager list"
  um_connected :: bool
  um_config :: config
  um_sharing_state :: sharing_state
  um_single_uploaders :: "uploader_channel list"
  um_single_uploaders_rev :: "string \<Rightarrow> uploader_channel option"
  um_app_sender :: app_channel
  um_list_caches :: "string list list"
  um_started :: "started_uploader list"
  um_dropped :: "uploader_channel list"
  um_dropped_rev :: "(string \<Rightarrow> uploader_channel option) list"

type_synonym 'a um_op = "(uploader_manager, error, 'a) io"

abbreviation um_users :: "uploader_manager \<Rightarrow> shared_user list" where
  "um_users m \<equiv> cf_shared_users (c_config_file (um_config m))"

definition new_uploader_manager :: "config \<Rightarrow> sharing_state \<Rightarrow> app_channel \<Rightarrow> uploader_manager" where
  "new_uploader_manager c sharing ch =
     \<lparr>um_stop_incoming = False, um_inbox = [], um_connected = True, um_config = c, um_sharing_state = sharing,
      um_single_uploaders = [], um_single_uploaders_rev = (\<lambda>_. None), um_app_sender = ch, um_list_caches = [[]],
      um_started = [], um_dropped = [], um_dropped_rev = []\<rparr>"

definition um_send :: "app_agg_message \<Rightarrow> unit um_op" where
  "um_send msg m = (case send_app msg (um_app_sender m) of (r, ch) \<Rightarrow> (r, m\<lparr>um_app_sender := ch\<rparr>))"

text \<open>Sent with \<open>.ok()\<close>.\<close>

definition um_send_ok :: "app_agg_message \<Rightarrow> unit um_op" where
  "um_send_ok msg = io_mod (\<lambda>m. m\<lparr>um_app_sender := send_app_ok msg (um_app_sender m)\<rparr>)"

subsection \<open>Messages\<close>

definition send_message_to_all_uploaders :: "message_single_uploader \<Rightarrow> unit um_op" where
  "send_message_to_all_uploaders message =
     io_mod (\<lambda>m. m\<lparr>um_single_uploaders := List.map_filter (ch_send message) (um_single_uploaders m),
       um_single_uploaders_rev := (\<lambda>nickname. case um_single_uploaders_rev m nickname of
          None \<Rightarrow> None | Some uploader \<Rightarrow> ch_send message uploader)\<rparr>)"

definition remove_dead_uploaders :: "unit um_op" where
  "remove_dead_uploaders = send_message_to_all_uploaders DoNothing"

definition reset_connections :: "unit um_op" where
  "reset_connections =
     io_then (io_mod (\<lambda>m. m\<lparr>um_stop_incoming := True\<rparr>))
     (io_then (send_message_to_all_uploaders ShutdownConn)
       (io_mod (\<lambda>m. m\<lparr>um_single_uploaders := [], um_single_uploaders_rev := (\<lambda>_. None),
          um_list_caches := um_list_caches m @ [[]],
          um_dropped := um_dropped m @ um_single_uploaders m,
          um_dropped_rev := um_dropped_rev m @ [um_single_uploaders_rev m]\<rparr>)))"

fun read_inbox :: "message_upload_manager list \<Rightarrow> unit um_op" where
  "read_inbox [] =
     io_self (\<lambda>m. if um_connected m then io_ok () else io_lift (Exit (exit_value ExitUploadManRecvDisconnected)))"
| "read_inbox (msg # msgs) =
     io_then (io_mod (\<lambda>m. m\<lparr>um_inbox := msgs\<rparr>))
     (io_then
       (case msg of
          SharingStateMsg sharing \<Rightarrow> io_mod (\<lambda>m. m\<lparr>um_sharing_state := sharing\<rparr>)
        | NewUploadConfig c \<Rightarrow> io_mod (\<lambda>m. m\<lparr>um_config := c\<rparr>))
     (io_then reset_connections (read_inbox msgs)))"

definition um_read_receiver :: "unit um_op" where
  "um_read_receiver = io_self (\<lambda>m. read_inbox (um_inbox m))"

subsection \<open>Starting uploaders\<close>

definition current_cache :: "uploader_manager \<Rightarrow> nat" where
  "current_cache m = length (um_list_caches m) - 1"

text \<open>A new uploader: its channel is one of the list, or the one of its reverse user.\<close>

definition spawn_uploader :: "connection option \<Rightarrow> shared_user option \<Rightarrow> unit um_op" where
  "spawn_uploader conn reverse_user =
     io_mod (\<lambda>m. m\<lparr>
       um_single_uploaders := um_single_uploaders m @ (if reverse_user = None then [new_channel] else []),
       um_single_uploaders_rev := (case reverse_user of
          None \<Rightarrow> um_single_uploaders_rev m
        | Some user \<Rightarrow> (um_single_uploaders_rev m)(su_nickname user := Some new_channel)),
       um_started := um_started m @
         [\<lparr>st_connection = conn, st_reverse_user = reverse_user, st_config = um_config m, st_cache = current_cache m\<rparr>]\<rparr>)"

definition MAX_REV_SLEEP :: "bool \<Rightarrow> nat" where
  "MAX_REV_SLEEP dbg = (if dbg then 15 else 1800)"

definition next_rev_sleep :: "bool \<Rightarrow> nat \<Rightarrow> nat" where
  "next_rev_sleep dbg sleep = (if MAX_REV_SLEEP dbg < sleep * 3 then MAX_REV_SLEEP dbg else sleep * 3)"

definition is_loopback :: "shared_user \<Rightarrow> bool" where
  "is_loopback user \<longleftrightarrow> su_ip user = ''127.0.0.1'' \<or> su_ip user = ''::1'' \<or> su_ip user = ''[::1]''"

definition reverse_start :: "shared_user \<Rightarrow> unit um_op" where
  "reverse_start user =
     io_self (\<lambda>m.
       if um_single_uploaders_rev m (su_nickname user) \<noteq> None then io_ok ()
       else if um_sharing_state m = Local \<and> \<not> is_loopback user then io_ok ()
       else
         io_then (um_send (LogInfo (''Reverse Start '' @ su_nickname user, None)))
           (spawn_uploader None (Some user)))"

definition reverse_round :: "unit um_op" where
  "reverse_round = io_then remove_dead_uploaders (io_self (\<lambda>m. io_for reverse_start (um_users m)))"

subsection \<open>The loops of \<open>run\<close>\<close>

text \<open>
  Where the thread is: at the top of the outer loop, in the second \<open>counter\<close> of a wait of \<open>sleep\<close>
  seconds before the next round of connections, or at the next of its listeners.
\<close>

datatype um_phase = AtTop | ReverseWait nat nat | Listen "string list"

text \<open>A port that \<open>SocketAddr::from_str\<close> takes: decimal digits only, at most 65535.\<close>

definition socket_port_ok :: "string \<Rightarrow> bool" where
  "socket_port_ok port \<longleftrightarrow> port \<noteq> [] \<and> list_all (\<lambda>c. digit_val c \<noteq> None) port
     \<and> (case parse_nat port of Some n \<Rightarrow> n \<le> 65535 | None \<Rightarrow> False)"

fun share_addresses :: "sharing_state \<Rightarrow> string \<Rightarrow> (error, string list) outcome" where
  "share_addresses Off port = Ok []"
| "share_addresses Local port = (if socket_port_ok port then Ok [''::1'', ''127.0.0.1''] else Panic)"
| "share_addresses Internet port = (if socket_port_ok port then Ok [''::'', ''0.0.0.0''] else Panic)"

datatype bind_result = Bound | NonblockingFailed | BindFailed

fun bind_listeners :: "(string \<Rightarrow> bind_result) \<Rightarrow> string list \<Rightarrow> string list um_op" where
  "bind_listeners bind [] = io_ok []"
| "bind_listeners bind (addr # addrs) =
     io_then
       (um_send_ok (case bind addr of
          Bound \<Rightarrow> LogInfo (''Waiting for incoming uploads on '' @ addr, None)
        | NonblockingFailed \<Rightarrow> LogError (''Failed to set nonblocking on socket '' @ addr, None)
        | BindFailed \<Rightarrow> LogDebug (''Failed to bind to socket '' @ addr, None)))
     (io_bind (bind_listeners bind addrs) (\<lambda>listeners.
       io_ok (if bind addr = Bound then addr # listeners else listeners)))"

definition enter_reverse :: "nat \<Rightarrow> um_phase um_op" where
  "enter_reverse sleep =
     io_then (um_send (LogInfo (''Reverse sleep '' @ show_nat sleep, None))) (io_ok (ReverseWait sleep 1))"

definition top_turn :: "(string \<Rightarrow> bind_result) \<Rightarrow> um_phase um_op" where
  "top_turn bind =
     io_then (io_mod (\<lambda>m. m\<lparr>um_stop_incoming := False\<rparr>))
     (io_then um_read_receiver
     (io_self (\<lambda>m.
       if um_sharing_state m = Off then io_ok AtTop
       else
         io_bind (io_lift (share_addresses (um_sharing_state m) (cf_sharing_port (c_config_file (um_config m))))) (\<lambda>addrs.
         if cf_reverse_connection (c_config_file (um_config m)) then
           io_then (um_send (LogInfo (''Reverse Connections Starting'', None))) (enter_reverse 1)
         else
           io_bind (bind_listeners bind addrs) (\<lambda>listeners.
           if listeners = [] then io_lift (Err (TransferError AllListenersFailed))
           else io_ok (Listen listeners))))))"

definition reverse_turn :: "bool \<Rightarrow> nat \<Rightarrow> nat \<Rightarrow> um_phase um_op" where
  "reverse_turn dbg sleep counter =
     io_then um_read_receiver
     (io_self (\<lambda>m.
       if um_stop_incoming m then io_ok AtTop
       else if counter < sleep then io_ok (ReverseWait sleep (counter + 1))
       else io_then reverse_round (enter_reverse (next_rev_sleep dbg sleep))))"

datatype accept_result = Accepted connection | WouldBlock | AcceptFailed error | IteratorStopped

definition listen_turn :: "accept_result \<Rightarrow> string list \<Rightarrow> um_phase um_op" where
  "listen_turn accept listeners =
     io_then um_read_receiver
     (io_self (\<lambda>m.
       if um_stop_incoming m then io_ok AtTop
       else
         io_then
           (case accept of
              Accepted conn \<Rightarrow> io_then remove_dead_uploaders (spawn_uploader (Some conn) None)
            | WouldBlock \<Rightarrow> io_ok ()
            | AcceptFailed e \<Rightarrow> um_send (LogDebug (''Failed initial client connection '', Some e))
            | IteratorStopped \<Rightarrow> io_lift Panic)
           (io_ok (Listen (rotate1 listeners)))))"

fun um_turn :: "bool \<Rightarrow> (string \<Rightarrow> bind_result) \<Rightarrow> accept_result \<Rightarrow> um_phase \<Rightarrow> um_phase um_op" where
  "um_turn dbg bind accept AtTop = top_turn bind"
| "um_turn dbg bind accept (ReverseWait sleep counter) = reverse_turn dbg sleep counter"
| "um_turn dbg bind accept (Listen listeners) = listen_turn accept listeners"

subsection \<open>The thread and its handle\<close>

datatype upload_thread = Running um_phase | Died | ProcessEnded nat

record incoming_uploader =
  iu_thread :: upload_thread
  iu_manager :: uploader_manager

definition new_incoming_uploader :: "config \<Rightarrow> app_channel \<Rightarrow> incoming_uploader" where
  "new_incoming_uploader c ch = \<lparr>iu_thread = Running AtTop, iu_manager = new_uploader_manager c Off ch\<rparr>"

text \<open>An error of \<open>run\<close>: the thread tells itself to stop sharing, reports, and starts over.\<close>

definition upload_error_report :: "error \<Rightarrow> app_agg_message" where
  "upload_error_report e =
     (if e = IoError AddrInUse then UploadErrorPortInUse else UploadErrorGeneric ([], Some e))"

definition after_run_error :: "error \<Rightarrow> uploader_manager \<Rightarrow> incoming_uploader" where
  "after_run_error e m =
     (case um_send (upload_error_report e) (m\<lparr>um_inbox := um_inbox m @ [SharingStateMsg Off]\<rparr>) of
        (Ok _, m') \<Rightarrow> \<lparr>iu_thread = Running AtTop, iu_manager = m'\<rparr>
      | (_, m') \<Rightarrow> \<lparr>iu_thread = Died, iu_manager = m'\<rparr>)"

definition thread_turn :: "bool \<Rightarrow> (string \<Rightarrow> bind_result) \<Rightarrow> accept_result \<Rightarrow> incoming_uploader \<Rightarrow> incoming_uploader" where
  "thread_turn dbg bind accept u =
     (case iu_thread u of
        Running phase \<Rightarrow>
          (case um_turn dbg bind accept phase (iu_manager u) of
             (Ok phase', m) \<Rightarrow> \<lparr>iu_thread = Running phase', iu_manager = m\<rparr>
           | (Err e, m) \<Rightarrow> after_run_error e m
           | (Panic, m) \<Rightarrow> \<lparr>iu_thread = Died, iu_manager = m\<rparr>
           | (Exit n, m) \<Rightarrow> \<lparr>iu_thread = ProcessEnded n, iu_manager = m\<rparr>)
      | _ \<Rightarrow> u)"

text \<open>\<open>set_my_sharing_state\<close> and \<open>set_new_config\<close>: a thread that has died ends the process.\<close>

definition iu_post :: "message_upload_manager \<Rightarrow> (incoming_uploader, error, unit) io" where
  "iu_post msg u =
     (case iu_thread u of
        Running _ \<Rightarrow> (Ok (), u\<lparr>iu_manager := (iu_manager u)\<lparr>um_inbox := um_inbox (iu_manager u) @ [msg]\<rparr>\<rparr>)
      | Died \<Rightarrow> (Exit (exit_value ExitUploadManSendFailed), u\<lparr>iu_thread := ProcessEnded (exit_value ExitUploadManSendFailed)\<rparr>)
      | ProcessEnded n \<Rightarrow> (Exit n, u))"

definition iu_set_my_sharing_state :: "sharing_state \<Rightarrow> (incoming_uploader, error, unit) io" where
  "iu_set_my_sharing_state sharing = iu_post (SharingStateMsg sharing)"

definition iu_set_new_config :: "config \<Rightarrow> (incoming_uploader, error, unit) io" where
  "iu_set_new_config c = iu_post (NewUploadConfig c)"

text \<open>
  What happens to a manager: a message is posted, an uploader's thread ends, a thread marks a user in
  its cache, or the manager's thread goes on.
\<close>

datatype upload_event =
    Post message_upload_manager
  | UploaderEnds nat
  | ReverseUploaderEnds string
  | ListSent nat string
  | Turn "string \<Rightarrow> bind_result" accept_result

fun iu_event :: "bool \<Rightarrow> incoming_uploader \<Rightarrow> upload_event \<Rightarrow> incoming_uploader" where
  "iu_event dbg u (Post msg) = snd (iu_post msg u)"
| "iu_event dbg u (UploaderEnds i) =
     u\<lparr>iu_manager := (iu_manager u)\<lparr>um_single_uploaders :=
       (um_single_uploaders (iu_manager u))[i := (um_single_uploaders (iu_manager u) ! i)\<lparr>ch_alive := False\<rparr>]\<rparr>\<rparr>"
| "iu_event dbg u (ReverseUploaderEnds nickname) =
     u\<lparr>iu_manager := (iu_manager u)\<lparr>um_single_uploaders_rev :=
       (um_single_uploaders_rev (iu_manager u))(nickname :=
          map_option (\<lambda>c. c\<lparr>ch_alive := False\<rparr>) (um_single_uploaders_rev (iu_manager u) nickname))\<rparr>\<rparr>"
| "iu_event dbg u (ListSent i nickname) =
     u\<lparr>iu_manager := (iu_manager u)\<lparr>um_list_caches :=
       (um_list_caches (iu_manager u))[i := um_list_caches (iu_manager u) ! i @ [nickname]]\<rparr>\<rparr>"
| "iu_event dbg u (Turn bind accept) = thread_turn dbg bind accept u"

text \<open>The thread of a reverse connection up to the uploader: \<open>None\<close> when the user is offline.\<close>

definition reverse_connect ::
  "net_env \<Rightarrow> shared_user \<Rightarrow> app_channel \<Rightarrow> (error, connection option) outcome \<times> app_channel" where
  "reverse_connect net user ch =
     (case resolve_address net (su_ip user) (su_port user) user ch of
        (Ok addrs, ch1) \<Rightarrow>
          (case tcp_connect net addrs of
             Ok (addr, t) \<Rightarrow> (Ok (Some \<lparr>cn_stream = t, cn_peer = Some (sa_ip addr, sa_v6 addr)\<rparr>), ch1)
           | _ \<Rightarrow> (Ok None, send_app_ok (LogDebug (''Reverse offline '' @ su_nickname user, None)) ch1))
      | (_, ch1) \<Rightarrow> (Panic, ch1))"

subsection \<open>Off means off\<close>

definition told :: "uploader_channel \<Rightarrow> bool" where
  "told c \<longleftrightarrow> ShutdownConn \<in> set (ch_queue c)"

text \<open>
  With sharing off no uploader is in the lists; every uploader that was let go of has been told to shut
  down; no uploader has a cache that is newer than the manager's.
\<close>

definition um_ok :: "uploader_manager \<Rightarrow> bool" where
  "um_ok m \<longleftrightarrow>
     (um_sharing_state m = Off \<longrightarrow> um_single_uploaders m = [] \<and> um_single_uploaders_rev m = (\<lambda>_. None))
     \<and> (\<forall>c \<in> set (um_dropped m). told c) \<and> (\<forall>f \<in> set (um_dropped_rev m). \<forall>c \<in> ran f. told c)
     \<and> um_list_caches m \<noteq> [] \<and> (\<forall>s \<in> set (um_started m). st_cache s \<le> current_cache m)"

definition sharing_ok :: "uploader_manager \<Rightarrow> bool" where
  "sharing_ok m \<longleftrightarrow> um_ok m \<and> um_sharing_state m \<noteq> Off"

text \<open>Between the top of the loop and a stop, sharing is on; waits and listeners are within bounds.\<close>

definition phase_ok :: "bool \<Rightarrow> um_phase \<Rightarrow> uploader_manager \<Rightarrow> bool" where
  "phase_ok dbg phase m \<longleftrightarrow>
     (phase \<noteq> AtTop \<and> um_sharing_state m = Off \<longrightarrow> um_stop_incoming m)
     \<and> (case phase of
          AtTop \<Rightarrow> True
        | ReverseWait sleep counter \<Rightarrow> 1 \<le> counter \<and> counter \<le> sleep \<and> sleep \<le> MAX_REV_SLEEP dbg
        | Listen listeners \<Rightarrow> listeners \<noteq> [])"

definition upload_inv :: "bool \<Rightarrow> incoming_uploader \<Rightarrow> bool" where
  "upload_inv dbg u \<longleftrightarrow> um_ok (iu_manager u)
     \<and> (case iu_thread u of Running phase \<Rightarrow> phase_ok dbg phase (iu_manager u) | _ \<Rightarrow> True)"

lemma um_send_state: "\<exists>ch. snd (um_send msg m) = m\<lparr>um_app_sender := ch\<rparr>"
  by (auto simp: um_send_def split: prod.split)

lemma um_ok_sender [simp]:
  "um_ok (m\<lparr>um_app_sender := ch\<rparr>) = um_ok m" "sharing_ok (m\<lparr>um_app_sender := ch\<rparr>) = sharing_ok m"
  "um_ok (m\<lparr>um_inbox := b\<rparr>) = um_ok m" "um_ok (m\<lparr>um_stop_incoming := x\<rparr>) = um_ok m"
  by (simp_all add: um_ok_def sharing_ok_def current_cache_def)

lemma keeps_um_send [keeps_intros]: "keeps sharing_ok (um_send msg)" "keeps sharing_ok (um_send_ok msg)"
proof -
  show "keeps sharing_ok (um_send msg)"
    using um_send_state by (intro keepsI) (metis um_ok_sender(2))
  show "keeps sharing_ok (um_send_ok msg)"
    unfolding um_send_ok_def by (rule keeps_mod) simp
qed

lemma keeps_remove_dead [keeps_intros]: "keeps sharing_ok remove_dead_uploaders"
  unfolding remove_dead_uploaders_def send_message_to_all_uploaders_def
  by (rule keeps_mod) (simp add: sharing_ok_def um_ok_def current_cache_def)

lemma keeps_spawn [keeps_intros]: "keeps sharing_ok (spawn_uploader conn user)"
  unfolding spawn_uploader_def by (rule keeps_mod) (auto simp: sharing_ok_def um_ok_def current_cache_def)

lemma keeps_round [keeps_intros]: "keeps sharing_ok reverse_round" "keeps sharing_ok (enter_reverse n)"
  unfolding reverse_round_def reverse_start_def enter_reverse_def by (intro keeps_intros)+

lemma keeps_bind_listeners [keeps_intros]: "keeps sharing_ok (bind_listeners bind addrs)"
  by (induction addrs) (auto intro!: keeps_intros)

text \<open>Reading messages: a stop is noted with every one, and all uploaders are told.\<close>

lemma told_sent: "c \<in> set (List.map_filter (ch_send ShutdownConn) cs) \<Longrightarrow> told c"
  by (auto simp: List.map_filter_def told_def ch_send_def split: if_splits)

lemma reset_run:
  "reset_connections m = (Ok (), m\<lparr>um_stop_incoming := True, um_single_uploaders := [], um_single_uploaders_rev := (\<lambda>_. None),
     um_list_caches := um_list_caches m @ [[]],
     um_dropped := um_dropped m @ List.map_filter (ch_send ShutdownConn) (um_single_uploaders m),
     um_dropped_rev := um_dropped_rev m @ [\<lambda>nickname. case um_single_uploaders_rev m nickname of
        None \<Rightarrow> None | Some uploader \<Rightarrow> ch_send ShutdownConn uploader]\<rparr>)"
  by (simp add: reset_connections_def send_message_to_all_uploaders_def io_bind_def io_mod_def)

lemma told_sent_rev:
  "c \<in> ran (\<lambda>nickname. case f nickname of None \<Rightarrow> None | Some uploader \<Rightarrow> ch_send ShutdownConn uploader) \<Longrightarrow> told c"
  by (auto simp: ran_def told_def ch_send_def split: option.splits if_splits)

lemma reset_ok:
  assumes "um_ok m" and "m' = m\<lparr>um_inbox := b, um_sharing_state := s, um_config := c\<rparr>"
  shows "um_ok (snd (reset_connections m'))"
proof -
  have "st_cache x \<le> length (um_list_caches m)" if "x \<in> set (um_started m)" for x
    using assms(1) that by (fastforce simp: um_ok_def current_cache_def)
  with assms show ?thesis
    unfolding reset_run um_ok_def
    by (auto simp: current_cache_def dest: told_sent told_sent_rev)
qed

lemma read_inbox_ok:
  assumes "um_ok m"
  shows "um_ok (snd (read_inbox msgs m)) \<and>
     (msgs \<noteq> [] \<longrightarrow> um_stop_incoming (snd (read_inbox msgs m))) \<and>
     (msgs = [] \<longrightarrow> snd (read_inbox msgs m) = m)"
  using assms
proof (induction msgs arbitrary: m)
  case Nil
  then show ?case by (simp add: io_self_def io_ok_def io_lift_def)
next
  case (Cons msg msgs)
  let ?m1 = "(case msg of SharingStateMsg s \<Rightarrow> m\<lparr>um_inbox := msgs, um_sharing_state := s\<rparr>
     | NewUploadConfig c \<Rightarrow> m\<lparr>um_inbox := msgs, um_config := c\<rparr>)"
  let ?m2 = "snd (reset_connections ?m1)"
  have run: "read_inbox (msg # msgs) m = read_inbox msgs ?m2"
    by (cases msg) (simp_all add: io_bind_def io_mod_def reset_run)
  have "?m1 = m\<lparr>um_inbox := msgs, um_sharing_state := um_sharing_state ?m1, um_config := um_config ?m1\<rparr>"
    by (cases msg) simp_all
  from reset_ok [OF Cons.prems this] have ok: "um_ok ?m2" .
  have stop: "um_stop_incoming ?m2" by (simp add: reset_run)
  from Cons.IH [OF ok] stop show ?case unfolding run by (cases msgs) auto
qed

lemma um_read_ok:
  assumes "um_ok m" and "um_read_receiver m = (r, m')"
  shows "um_ok m' \<and> (um_stop_incoming m \<longrightarrow> um_stop_incoming m') \<and> (um_sharing_state m \<noteq> Off \<and> um_sharing_state m' = Off \<longrightarrow> um_stop_incoming m')"
  using assms read_inbox_ok [OF assms(1), of "um_inbox m"]
  by (cases "um_inbox m") (auto simp: um_read_receiver_def io_self_def simp del: read_inbox.simps)

lemma um_read_result: "um_read_receiver m = (r, m') \<Longrightarrow> r = Ok () \<or> r = Exit (exit_value ExitUploadManRecvDisconnected)"
proof -
  have "fst (read_inbox msgs m) \<in> {Ok (), Exit (exit_value ExitUploadManRecvDisconnected)}" for msgs
  proof (induction msgs arbitrary: m)
    case (Cons msg msgs)
    then show ?case by (cases msg) (simp_all add: io_bind_def io_mod_def reset_run)
  qed (simp add: io_self_def io_ok_def io_lift_def)
  then show "um_read_receiver m = (r, m') \<Longrightarrow> ?thesis"
    by (auto simp: um_read_receiver_def io_self_def) (metis fst_conv insertE singletonD)
qed

lemma sharing_phase:
  assumes "sharing_ok m"
  shows "phase_ok dbg AtTop m" "listeners \<noteq> [] \<Longrightarrow> phase_ok dbg (Listen listeners) m"
    "1 \<le> counter \<Longrightarrow> counter \<le> sleep \<Longrightarrow> sleep \<le> MAX_REV_SLEEP dbg \<Longrightarrow> phase_ok dbg (ReverseWait sleep counter) m"
  using assms by (simp_all add: sharing_ok_def phase_ok_def)

lemma next_rev_sleep_bounds: "1 \<le> sleep \<Longrightarrow> 1 \<le> next_rev_sleep dbg sleep \<and> next_rev_sleep dbg sleep \<le> MAX_REV_SLEEP dbg"
  by (simp add: next_rev_sleep_def MAX_REV_SLEEP_def)

lemma enter_reverse_phase:
  assumes "enter_reverse sleep m = (r, m')" and "sharing_ok m" and "1 \<le> sleep" and "sleep \<le> MAX_REV_SLEEP dbg"
  shows "um_ok m' \<and> (\<forall>phase. r = Ok phase \<longrightarrow> phase_ok dbg phase m')"
proof -
  have s: "sharing_ok m'" using keeps_run [OF keeps_round(2) assms(1,2)] .
  moreover have "r = Ok phase \<Longrightarrow> phase = ReverseWait sleep 1" for phase
    using assms(1) by (auto simp: enter_reverse_def io_ok_def elim!: io_bind_OkE)
  ultimately show ?thesis using sharing_phase(3) [OF s, of 1 sleep dbg] assms(3,4) by (auto simp: sharing_ok_def)
qed

text \<open>What the three turns do once the messages are read.\<close>

definition turn_kept :: "bool \<Rightarrow> (error, um_phase) outcome \<times> uploader_manager \<Rightarrow> bool" where
  "turn_kept dbg res \<longleftrightarrow> um_ok (snd res) \<and> (\<forall>phase. fst res = Ok phase \<longrightarrow> phase_ok dbg phase (snd res))"

lemma turn_kept_bind:
  assumes "um_read_receiver m = (Ok (), m1)" and "um_ok m1" and "turn_kept dbg (k m1 m1)"
  shows "turn_kept dbg (io_then um_read_receiver (io_self k) m)"
  using assms by (simp add: io_bind_def io_self_def)

lemma read_then_kept:
  assumes "um_ok m" and "\<And>m1. um_read_receiver m = (Ok (), m1) \<Longrightarrow> um_ok m1 \<Longrightarrow> turn_kept dbg (k m1 m1)"
  shows "turn_kept dbg (io_then um_read_receiver (io_self k) m)"
proof -
  obtain r m1 where r: "um_read_receiver m = (r, m1)" by (metis prod.exhaust)
  with um_read_ok [OF assms(1) r] have ok: "um_ok m1" by blast
  from um_read_result [OF r] show ?thesis
  proof
    assume "r = Ok ()"
    with r ok assms(2) turn_kept_bind show ?thesis by blast
  next
    assume "r = Exit (exit_value ExitUploadManRecvDisconnected)"
    with r ok show ?thesis by (simp add: turn_kept_def io_bind_def)
  qed
qed

lemma kept_bind:
  assumes "sharing_ok m" and "keeps sharing_ok op" and "\<And>x m'. op m = (Ok x, m') \<Longrightarrow> sharing_ok m' \<Longrightarrow> turn_kept dbg (k x m')"
  shows "turn_kept dbg (io_bind op k m)"
proof -
  obtain r m' where op: "op m = (r, m')" by (metis prod.exhaust)
  from keeps_run [OF assms(2) op assms(1)] have ok: "sharing_ok m'" .
  show ?thesis
  proof (cases r)
    case (Ok x)
    with op assms(3) ok show ?thesis by (simp add: io_bind_def)
  qed (use op ok in \<open>simp_all add: io_bind_def turn_kept_def sharing_ok_def\<close>)
qed

lemma kept_ok: "um_ok m \<Longrightarrow> phase_ok dbg phase m \<Longrightarrow> turn_kept dbg (io_ok phase m)"
  by (simp add: turn_kept_def io_ok_def)

lemma kept_listen: "sharing_ok m \<Longrightarrow> listeners \<noteq> [] \<Longrightarrow> turn_kept dbg (io_ok (Listen listeners) m)"
  by (rule kept_ok [OF _ sharing_phase(2)]) (simp_all add: sharing_ok_def)

lemma kept_stop: "sharing_ok m \<Longrightarrow> (\<And>x. r \<noteq> Ok x) \<Longrightarrow> turn_kept dbg (io_lift r m)"
  by (simp add: turn_kept_def io_lift_def sharing_ok_def)

lemma kept_top: "um_ok m \<Longrightarrow> turn_kept dbg (io_ok AtTop m)"
  by (rule kept_ok) (simp_all add: phase_ok_def)

lemma kept_enter: "sharing_ok m \<Longrightarrow> 1 \<le> sleep \<Longrightarrow> sleep \<le> MAX_REV_SLEEP dbg \<Longrightarrow> turn_kept dbg (enter_reverse sleep m)"
  using enter_reverse_phase [of sleep m _ _ dbg] by (cases "enter_reverse sleep m") (simp add: turn_kept_def)

lemma max_rev_sleep: "Suc 0 \<le> MAX_REV_SLEEP dbg"
  by (simp add: MAX_REV_SLEEP_def)

lemma top_turn_kept:
  assumes "um_ok m"
  shows "turn_kept dbg (top_turn bind m)"
proof -
  let ?m = "m\<lparr>um_stop_incoming := False\<rparr>"
  have "turn_kept dbg ((case m1 of m2 \<Rightarrow>
       if um_sharing_state m2 = Off then io_ok AtTop
       else
         io_bind (io_lift (share_addresses (um_sharing_state m2) (cf_sharing_port (c_config_file (um_config m2))))) (\<lambda>addrs.
         if cf_reverse_connection (c_config_file (um_config m2)) then
           io_then (um_send (LogInfo (''Reverse Connections Starting'', None))) (enter_reverse 1)
         else
           io_bind (bind_listeners bind addrs) (\<lambda>listeners.
           if listeners = [] then io_lift (Err (TransferError AllListenersFailed))
           else io_ok (Listen listeners)))) m1)" if ok: "um_ok m1" for m1
  proof (cases "um_sharing_state m1 = Off")
    case True
    with ok show ?thesis by (simp add: kept_top)
  next
    case False
    with ok have s: "sharing_ok m1" by (simp add: sharing_ok_def)
    show ?thesis
      using False
      by (auto intro!: kept_bind [OF s] keeps_intros kept_enter kept_listen kept_stop max_rev_sleep kept_bind)
  qed
  then have "turn_kept dbg (io_then um_read_receiver (io_self (\<lambda>m2.
       if um_sharing_state m2 = Off then io_ok AtTop
       else
         io_bind (io_lift (share_addresses (um_sharing_state m2) (cf_sharing_port (c_config_file (um_config m2))))) (\<lambda>addrs.
         if cf_reverse_connection (c_config_file (um_config m2)) then
           io_then (um_send (LogInfo (''Reverse Connections Starting'', None))) (enter_reverse 1)
         else
           io_bind (bind_listeners bind addrs) (\<lambda>listeners.
           if listeners = [] then io_lift (Err (TransferError AllListenersFailed))
           else io_ok (Listen listeners))))) ?m)"
    using assms by (intro read_then_kept) simp_all
  then show ?thesis by (simp add: top_turn_def io_bind_def [where m = "io_mod _"] io_mod_def)
qed

text \<open>A stop that was noted sends the thread to the top, so what follows runs with sharing on.\<close>

lemma unstopped_sharing:
  assumes "um_read_receiver m = (Ok (), m1)" and "um_ok m" and "phase_ok dbg phase m" and "phase \<noteq> AtTop" and "\<not> um_stop_incoming m1"
  shows "sharing_ok m1"
  using um_read_ok [OF assms(2,1)] assms(3-5) by (auto simp: phase_ok_def sharing_ok_def)

lemma reverse_turn_kept:
  assumes "um_ok m" and "phase_ok dbg (ReverseWait sleep counter) m"
  shows "turn_kept dbg (reverse_turn dbg sleep counter m)"
  unfolding reverse_turn_def
proof (rule read_then_kept [OF assms(1)])
  fix m1 assume r: "um_read_receiver m = (Ok (), m1)" and ok: "um_ok m1"
  from assms(2) have b: "1 \<le> counter" "counter \<le> sleep" "sleep \<le> MAX_REV_SLEEP dbg" by (simp_all add: phase_ok_def)
  show "turn_kept dbg ((if um_stop_incoming m1 then io_ok AtTop
       else if counter < sleep then io_ok (ReverseWait sleep (counter + 1))
       else io_then reverse_round (enter_reverse (next_rev_sleep dbg sleep))) m1)"
  proof (cases "um_stop_incoming m1")
    case True
    with ok show ?thesis by (simp add: kept_top)
  next
    case False
    then have s: "sharing_ok m1" using unstopped_sharing [OF r assms] by simp
    then show ?thesis
      using False b next_rev_sleep_bounds [of sleep dbg]
      by (auto intro!: kept_bind [OF s] keeps_round kept_enter kept_ok sharing_phase(3) simp: sharing_ok_def)
  qed
qed

lemma listen_turn_kept:
  assumes "um_ok m" and "phase_ok dbg (Listen listeners) m"
  shows "turn_kept dbg (listen_turn accept listeners m)"
  unfolding listen_turn_def
proof (rule read_then_kept [OF assms(1)])
  fix m1 assume r: "um_read_receiver m = (Ok (), m1)" and ok: "um_ok m1"
  from assms(2) have l: "listeners \<noteq> []" by (simp add: phase_ok_def)
  let ?act = "case accept of
              Accepted conn \<Rightarrow> io_then remove_dead_uploaders (spawn_uploader (Some conn) None)
            | WouldBlock \<Rightarrow> io_ok ()
            | AcceptFailed e \<Rightarrow> um_send (LogDebug (''Failed initial client connection '', Some e))
            | IteratorStopped \<Rightarrow> io_lift Panic"
  show "turn_kept dbg ((if um_stop_incoming m1 then io_ok AtTop else io_then ?act (io_ok (Listen (rotate1 listeners)))) m1)"
  proof (cases "um_stop_incoming m1")
    case True
    with ok show ?thesis by (simp add: kept_top)
  next
    case False
    then have s: "sharing_ok m1" using unstopped_sharing [OF r assms] by simp
    have "keeps sharing_ok ?act" by (auto intro!: keeps_intros split: accept_result.split)
    then show ?thesis
      using False l by (auto intro!: kept_bind [OF s] kept_ok sharing_phase(2) simp: sharing_ok_def)
  qed
qed

lemma um_turn_kept: "um_ok m \<Longrightarrow> phase_ok dbg phase m \<Longrightarrow> turn_kept dbg (um_turn dbg bind accept phase m)"
  using top_turn_kept reverse_turn_kept listen_turn_kept by (cases phase) auto

lemma after_run_error_inv: "um_ok m \<Longrightarrow> upload_inv dbg (after_run_error e m)"
proof -
  assume ok: "um_ok m"
  let ?m = "m\<lparr>um_inbox := um_inbox m @ [SharingStateMsg Off]\<rparr>"
  obtain ch where "snd (um_send (upload_error_report e) ?m) = ?m\<lparr>um_app_sender := ch\<rparr>" using um_send_state by blast
  with ok show ?thesis
    by (auto simp: after_run_error_def upload_inv_def phase_ok_def split: prod.split outcome.split)
qed

lemma thread_turn_inv: "upload_inv dbg u \<Longrightarrow> upload_inv dbg (thread_turn dbg bind accept u)"
proof (cases "iu_thread u")
  case (Running phase)
  assume "upload_inv dbg u"
  with Running have "turn_kept dbg (um_turn dbg bind accept phase (iu_manager u))"
    by (intro um_turn_kept) (simp_all add: upload_inv_def)
  with Running show ?thesis
    by (auto simp: thread_turn_def turn_kept_def intro: after_run_error_inv split: prod.split outcome.split)
      (simp_all add: upload_inv_def)
qed (simp_all add: thread_turn_def)

lemma iu_event_inv: "upload_inv dbg u \<Longrightarrow> upload_inv dbg (iu_event dbg u e)"
proof (cases e)
  case (Post msg)
  assume "upload_inv dbg u"
  with Post show ?thesis
    by (auto simp: iu_post_def upload_inv_def phase_ok_def split: upload_thread.splits um_phase.splits)
next
  case (UploaderEnds i)
  assume "upload_inv dbg u"
  with UploaderEnds show ?thesis
    by (auto simp: upload_inv_def phase_ok_def um_ok_def current_cache_def split: upload_thread.splits um_phase.splits)
next
  case (ReverseUploaderEnds nickname)
  assume "upload_inv dbg u"
  with ReverseUploaderEnds show ?thesis
    by (auto simp: upload_inv_def phase_ok_def um_ok_def current_cache_def split: upload_thread.splits um_phase.splits)
next
  case (ListSent i nickname)
  assume "upload_inv dbg u"
  with ListSent show ?thesis
    by (auto simp: upload_inv_def phase_ok_def um_ok_def current_cache_def split: upload_thread.splits um_phase.splits)
qed (simp add: thread_turn_inv)

interpretation upload_machine: event_machine "iu_event dbg" "upload_inv dbg" for dbg
  by unfold_locales (rule iu_event_inv)

lemma new_incoming_inv: "upload_inv dbg (new_incoming_uploader c ch)"
  by (simp add: upload_inv_def new_incoming_uploader_def new_uploader_manager_def um_ok_def phase_ok_def)

text \<open>
  C8. Off means off, and waits are bounded: however messages, connections, errors and the ends of uploads
  follow each other, while the manager's state is \<open>Off\<close> it has no uploader, every uploader that it ever
  let go of has been told to shut down, and it waits at most \<open>MAX_REV_SLEEP\<close> seconds between
  rounds of reverse connections.
\<close>

theorem off_means_off:
  "let u = foldl (iu_event dbg) (new_incoming_uploader c ch) events; m = iu_manager u in
     (um_sharing_state m = Off \<longrightarrow> um_single_uploaders m = [] \<and> um_single_uploaders_rev m = (\<lambda>_. None))
     \<and> (\<forall>c \<in> set (um_dropped m). told c) \<and> (\<forall>f \<in> set (um_dropped_rev m). \<forall>c \<in> ran f. told c)
     \<and> (\<forall>sleep counter. iu_thread u = Running (ReverseWait sleep counter) \<longrightarrow> counter \<le> sleep \<and> sleep \<le> MAX_REV_SLEEP dbg)"
  using upload_machine.run_inv [OF new_incoming_inv, of dbg c ch events]
  by (auto simp: upload_inv_def um_ok_def phase_ok_def Let_def)

definition demo_events :: "upload_event list" where
  "demo_events = [Post (SharingStateMsg Internet), Turn (\<lambda>_. Bound) WouldBlock, Turn (\<lambda>_. Bound) WouldBlock,
     Turn (\<lambda>_. Bound) WouldBlock, Turn (\<lambda>_. Bound) (Accepted \<lparr>cn_stream = \<lparr>t_in = [], t_out = [], t_room = None\<rparr>, cn_peer = None\<rparr>),
     Post (SharingStateMsg Off), Turn (\<lambda>_. Bound) WouldBlock]"

text \<open>Steps on concrete states.\<close>

lemmas upload_run = new_incoming_uploader_def new_uploader_manager_def iu_post_def thread_turn_def top_turn_def listen_turn_def
  um_read_receiver_def reset_run remove_dead_uploaders_def send_message_to_all_uploaders_def spawn_uploader_def um_send_def
  um_send_ok_def io_bind_def io_mod_def io_self_def io_ok_def io_lift_def send_app_def send_app_ok_def ch_send_def new_channel_def

lemma demo_port: "socket_port_ok (cf_sharing_port (c_config_file demo_cfg))" "\<not> cf_reverse_connection (c_config_file demo_cfg)"
  by (simp_all add: socket_port_ok_def demo_cfg_def demo_config_def parse_nat_def digit_val_def)

theorem off_means_off_witness:
  "let m = iu_manager (foldl (iu_event True) (new_incoming_uploader demo_cfg new_channel) demo_events) in
     length (um_started m) = 1 \<and> um_single_uploaders m = [] \<and> (\<forall>c \<in> set (um_dropped m). told c) \<and> um_dropped m \<noteq> []"
proof -
  let ?m = "iu_manager (foldl (iu_event True) (new_incoming_uploader demo_cfg new_channel) demo_events)"
  have "um_sharing_state ?m = Off" "length (um_started ?m) = 1" "um_dropped ?m \<noteq> []"
    by (simp_all add: demo_events_def upload_run demo_port)
  with off_means_off [of True demo_cfg new_channel demo_events] show ?thesis by (simp add: Let_def)
qed

subsection \<open>Sharing stops when told\<close>

lemma read_inbox_last:
  assumes "um_connected m"
  shows "fst (read_inbox (msgs @ [SharingStateMsg s]) m) = Ok ()"
    "um_sharing_state (snd (read_inbox (msgs @ [SharingStateMsg s]) m)) = s"
    "um_stop_incoming (snd (read_inbox (msgs @ [SharingStateMsg s]) m))"
    "um_single_uploaders (snd (read_inbox (msgs @ [SharingStateMsg s]) m)) = []"
    "um_single_uploaders_rev (snd (read_inbox (msgs @ [SharingStateMsg s]) m)) = (\<lambda>_. None)"
  using assms
proof (induction msgs arbitrary: m)
  case Nil
  {
    case 1 then show ?case by (simp add: io_bind_def io_mod_def reset_run io_self_def io_ok_def)
  next
    case 2 then show ?case by (simp add: io_bind_def io_mod_def reset_run io_self_def io_ok_def)
  next
    case 3 then show ?case by (simp add: io_bind_def io_mod_def reset_run io_self_def io_ok_def)
  next
    case 4 then show ?case by (simp add: io_bind_def io_mod_def reset_run io_self_def io_ok_def)
  next
    case 5 then show ?case by (simp add: io_bind_def io_mod_def reset_run io_self_def io_ok_def)
  }
next
  case (Cons msg msgs)
  {
    case 1 with Cons.IH(1) show ?case by (cases msg) (simp_all add: io_bind_def [where m = "io_mod _"] io_bind_def [where m = reset_connections] io_mod_def reset_run)
  next
    case 2 with Cons.IH(2) show ?case by (cases msg) (simp_all add: io_bind_def [where m = "io_mod _"] io_bind_def [where m = reset_connections] io_mod_def reset_run)
  next
    case 3 with Cons.IH(3) show ?case by (cases msg) (simp_all add: io_bind_def [where m = "io_mod _"] io_bind_def [where m = reset_connections] io_mod_def reset_run)
  next
    case 4 with Cons.IH(4) show ?case by (cases msg) (simp_all add: io_bind_def [where m = "io_mod _"] io_bind_def [where m = reset_connections] io_mod_def reset_run)
  next
    case 5 with Cons.IH(5) show ?case by (cases msg) (simp_all add: io_bind_def [where m = "io_mod _"] io_bind_def [where m = reset_connections] io_mod_def reset_run)
  }
qed

text \<open>What has been let go of stays so, and a message makes every uploader of the lists be let go of.\<close>

lemma read_inbox_dropped: "set (um_dropped m) \<subseteq> set (um_dropped (snd (read_inbox msgs m)))"
proof (induction msgs arbitrary: m)
  case (Cons msg msgs)
  let ?m1 = "(case msg of SharingStateMsg s \<Rightarrow> m\<lparr>um_inbox := msgs, um_sharing_state := s\<rparr>
     | NewUploadConfig c \<Rightarrow> m\<lparr>um_inbox := msgs, um_config := c\<rparr>)"
  have run: "read_inbox (msg # msgs) m = read_inbox msgs (snd (reset_connections ?m1))"
    by (cases msg) (simp_all add: io_bind_def io_mod_def reset_run)
  have "set (um_dropped m) \<subseteq> set (um_dropped (snd (reset_connections ?m1)))"
    by (cases msg) (auto simp: reset_run)
  also note Cons.IH
  finally show ?case unfolding run .
qed (simp add: io_self_def io_ok_def io_lift_def)

lemma read_inbox_lets_go:
  assumes "msgs \<noteq> []"
  shows "set (List.map_filter (ch_send ShutdownConn) (um_single_uploaders m)) \<subseteq> set (um_dropped (snd (read_inbox msgs m)))"
proof -
  obtain msg rest where msgs: "msgs = msg # rest" using assms by (cases msgs) auto
  let ?m1 = "(case msg of SharingStateMsg s \<Rightarrow> m\<lparr>um_inbox := rest, um_sharing_state := s\<rparr>
     | NewUploadConfig c \<Rightarrow> m\<lparr>um_inbox := rest, um_config := c\<rparr>)"
  have run: "read_inbox msgs m = read_inbox rest (snd (reset_connections ?m1))"
    unfolding msgs by (cases msg) (simp_all add: io_bind_def io_mod_def reset_run)
  have "set (List.map_filter (ch_send ShutdownConn) (um_single_uploaders m)) \<subseteq> set (um_dropped (snd (reset_connections ?m1)))"
    by (cases msg) (auto simp: reset_run)
  also note read_inbox_dropped
  finally show ?thesis unfolding run .
qed

lemma off_turn:
  assumes "um_read_receiver m = (Ok (), m1)" and "um_sharing_state m1 = Off" and "um_stop_incoming m1"
    and "phase \<noteq> AtTop"
  shows "um_turn dbg bind accept phase m = (Ok AtTop, m1)"
  using assms by (cases phase) (simp_all add: reverse_turn_def listen_turn_def io_bind_def io_self_def io_ok_def)

text \<open>
  C9. Sharing stops: once \<open>Off\<close> is the last message that was posted, the next turn of the thread,
  wherever it is (in the middle of a wait, or with listeners open), reads it and goes back to the top of its
  loop with sharing off and without an uploader, and every uploader that was alive then has been sent
  the message to shut down.
\<close>

theorem off_takes_effect:
  assumes "iu_thread u = Running phase" and "um_connected (iu_manager u)"
    and "u' = thread_turn dbg bind accept (snd (iu_set_my_sharing_state Off u))"
  shows "iu_thread u' = Running AtTop \<and> um_sharing_state (iu_manager u') = Off \<and> um_single_uploaders (iu_manager u') = []
     \<and> um_single_uploaders_rev (iu_manager u') = (\<lambda>_. None)
     \<and> set (List.map_filter (ch_send ShutdownConn) (um_single_uploaders (iu_manager u))) \<subseteq> set (um_dropped (iu_manager u'))"
proof -
  let ?in = "um_inbox (iu_manager u) @ [SharingStateMsg Off]"
  let ?m = "(iu_manager u)\<lparr>um_inbox := ?in\<rparr>"
  have s: "iu_thread (snd (iu_set_my_sharing_state Off u)) = Running phase" "iu_manager (snd (iu_set_my_sharing_state Off u)) = ?m"
    using assms(1) by (simp_all add: iu_set_my_sharing_state_def iu_post_def)
  have gone: "\<And>m. um_single_uploaders m = um_single_uploaders (iu_manager u) \<Longrightarrow>
      set (List.map_filter (ch_send ShutdownConn) (um_single_uploaders (iu_manager u))) \<subseteq> set (um_dropped (snd (read_inbox ?in m)))"
    using read_inbox_lets_go [of ?in] by (metis snoc_eq_iff_butlast)
  have "\<exists>m0. um_turn dbg bind accept phase ?m = (Ok AtTop, snd (read_inbox ?in m0)) \<and> um_connected m0
      \<and> um_single_uploaders m0 = um_single_uploaders (iu_manager u)"
  proof (cases "phase = AtTop")
    case True
    let ?start = "?m\<lparr>um_stop_incoming := False\<rparr>"
    have c: "um_connected ?start" using assms(2) by simp
    have "um_read_receiver ?start = (Ok (), snd (read_inbox ?in ?start))"
      using read_inbox_last(1) [OF c] by (simp add: um_read_receiver_def io_self_def prod_eq_iff)
    then have turn: "um_turn dbg bind accept phase ?m = (Ok AtTop, snd (read_inbox ?in ?start))"
      using True read_inbox_last(2) [OF c] by (simp add: top_turn_def io_bind_def io_mod_def io_self_def io_ok_def)
    show ?thesis
      by (rule exI [of _ ?start], rule conjI [OF turn], rule conjI [OF c]) simp
  next
    case False
    have c: "um_connected ?m" using assms(2) by simp
    have "um_read_receiver ?m = (Ok (), snd (read_inbox ?in ?m))"
      using read_inbox_last(1) [OF c] by (simp add: um_read_receiver_def io_self_def prod_eq_iff)
    from off_turn [OF this read_inbox_last(2,3) [OF c] False, of dbg bind accept] c show ?thesis
      by (intro exI [of _ ?m]) simp
  qed
  then obtain m0 where m0: "um_turn dbg bind accept phase ?m = (Ok AtTop, snd (read_inbox ?in m0))" "um_connected m0"
    "um_single_uploaders m0 = um_single_uploaders (iu_manager u)" by blast
  have "u' = \<lparr>iu_thread = Running AtTop, iu_manager = snd (read_inbox ?in m0)\<rparr>"
    unfolding assms(3) thread_turn_def s m0(1) upload_thread.case outcome.case prod.case by (rule refl)
  with read_inbox_last [OF m0(2)] gone [OF m0(3)] show ?thesis by simp
qed

theorem off_takes_effect_witness:
  "let u = foldl (iu_event True) (new_incoming_uploader demo_cfg new_channel) (take 5 demo_events);
       u' = thread_turn True (\<lambda>_. Bound) WouldBlock (snd (iu_set_my_sharing_state Off u)) in
     length (um_single_uploaders (iu_manager u)) = 1 \<and> um_single_uploaders (iu_manager u') = []
     \<and> iu_thread u' = Running AtTop"
proof -
  let ?u = "foldl (iu_event True) (new_incoming_uploader demo_cfg new_channel) (take 5 demo_events)"
  have u: "iu_thread ?u = Running (Listen [''0.0.0.0'', ''::''])" "um_connected (iu_manager ?u)"
    "length (um_single_uploaders (iu_manager ?u)) = 1"
    by (simp_all add: demo_events_def upload_run demo_port)
  from off_takes_effect [OF u(1,2) refl] u(3) show ?thesis by (simp add: Let_def)
qed

subsection \<open>What the app loop is told\<close>

text \<open>No report of a port in use has been sent.\<close>

definition no_port_report :: "uploader_manager \<Rightarrow> bool" where
  "no_port_report m \<longleftrightarrow> UploadErrorPortInUse \<notin> set (ch_queue (um_app_sender m))"

lemma no_report_send:
  "msg \<noteq> UploadErrorPortInUse \<Longrightarrow> keeps no_port_report (um_send msg)"
  "msg \<noteq> UploadErrorPortInUse \<Longrightarrow> keeps no_port_report (um_send_ok msg)"
  by (auto simp: keeps_def no_port_report_def um_send_def um_send_ok_def io_mod_def send_app_def send_app_ok_def ch_send_def)

lemma no_report_mod [keeps_intros]: "(\<And>m. um_app_sender (f m) = um_app_sender m) \<Longrightarrow> keeps no_port_report (io_mod f)"
  by (rule keeps_mod) (simp add: no_port_report_def)

lemma no_report_read [keeps_intros]: "keeps no_port_report um_read_receiver"
proof -
  have "keeps no_port_report (read_inbox msgs)" for msgs
  proof (induction msgs)
    case (Cons msg msgs)
    then show ?case
      by (cases msg) (auto intro!: keeps_intros simp: reset_connections_def send_message_to_all_uploaders_def)
  qed (auto intro!: keeps_intros)
  then show ?thesis unfolding um_read_receiver_def by (intro keeps_intros)
qed

lemma no_report_ops [keeps_intros]:
  "keeps no_port_report remove_dead_uploaders" "keeps no_port_report (spawn_uploader conn user)"
  "keeps no_port_report (enter_reverse sleep)"
  unfolding remove_dead_uploaders_def send_message_to_all_uploaders_def spawn_uploader_def enter_reverse_def
  by (intro keeps_intros no_report_send; simp)+

lemma no_report_turn: "keeps no_port_report (um_turn dbg bind accept phase)"
proof -
  have bind: "keeps no_port_report (bind_listeners bind addrs)" for addrs
    by (induction addrs) (auto intro!: keeps_intros no_report_send split: bind_result.split)
  have round: "keeps no_port_report reverse_round"
    unfolding reverse_round_def reverse_start_def by (intro keeps_intros no_report_send) simp
  show ?thesis
    by (cases phase)
      (auto simp: top_turn_def reverse_turn_def listen_turn_def
        intro!: keeps_intros no_report_send bind round split: accept_result.split)
qed

text \<open>The only errors of \<open>run\<close>: no listener, or an app loop that is gone.\<close>

lemma io_bind_Err_cases:
  "io_bind m f s = (Err e, t) \<Longrightarrow> m s = (Err e, t) \<or> (\<exists>a s'. m s = (Ok a, s') \<and> f a s' = (Err e, t))"
  by (auto simp: io_bind_def split: prod.splits outcome.splits)

definition run_errors :: "('s, error, 'a) io \<Rightarrow> bool" where
  "run_errors op \<longleftrightarrow> (\<forall>m e m'. op m = (Err e, m') \<longrightarrow> (\<exists>x. e = TransferError x))"

lemma run_errors_basic: "run_errors (io_ok x)" "run_errors (io_mod f)" "run_errors (io_lift Panic)"
    "run_errors (io_lift (Exit n))" "run_errors (io_lift (Err (TransferError y)))"
  by (simp_all add: run_errors_def io_ok_def io_mod_def io_lift_def)

lemma run_errors_bind: "run_errors op \<Longrightarrow> (\<And>x. run_errors (k x)) \<Longrightarrow> run_errors (io_bind op k)"
  unfolding run_errors_def by (blast dest: io_bind_Err_cases)

lemma run_errors_self: "(\<And>m. run_errors (f m)) \<Longrightarrow> run_errors (io_self f)"
  by (simp add: run_errors_def io_self_def)

lemma run_errors_if: "run_errors a \<Longrightarrow> run_errors b \<Longrightarrow> run_errors (if c then a else b)"
  by simp

lemma run_errors_send: "run_errors (um_send msg)" "run_errors (um_send_ok msg)"
  by (auto simp: run_errors_def um_send_def um_send_ok_def io_mod_def send_app_def split: prod.splits option.splits)

lemma run_errors_read: "run_errors um_read_receiver"
  unfolding run_errors_def using um_read_result by blast

lemmas run_errors_intros = run_errors_basic run_errors_bind run_errors_self run_errors_if run_errors_send run_errors_read

lemma run_errors_turn: "run_errors (um_turn dbg bind accept phase)"
proof -
  have bind: "run_errors (bind_listeners bind addrs)" for addrs
    by (induction addrs) (auto intro!: run_errors_intros)
  have addrs: "run_errors (io_lift (share_addresses s port))" for s port
    by (cases s) (auto simp: run_errors_def io_lift_def)
  have spawn: "run_errors remove_dead_uploaders" "run_errors (spawn_uploader conn user)" for conn user
    unfolding remove_dead_uploaders_def send_message_to_all_uploaders_def spawn_uploader_def by (rule run_errors_basic)+
  have start: "run_errors (reverse_start user)" for user
    unfolding reverse_start_def by (intro run_errors_intros spawn)
  have "run_errors (io_for reverse_start users)" for users
    by (induction users) (auto intro!: run_errors_intros start)
  then have round: "run_errors reverse_round" unfolding reverse_round_def by (intro run_errors_intros spawn)
  show ?thesis
    by (cases phase)
      (auto simp: top_turn_def reverse_turn_def listen_turn_def enter_reverse_def
        intro!: run_errors_intros bind addrs spawn round split: accept_result.split)
qed

lemma no_report_event:
  assumes "no_port_report (iu_manager u)"
  shows "no_port_report (iu_manager (iu_event dbg u e))"
proof (cases e)
  case (Turn bind accept)
  show ?thesis
  proof (cases "iu_thread u")
    case (Running phase)
    obtain r m where t: "um_turn dbg bind accept phase (iu_manager u) = (r, m)" by (metis prod.exhaust)
    from keeps_run [OF no_report_turn t assms] have m: "no_port_report m" .
    show ?thesis
    proof (cases r)
      case (Err e')
      from run_errors_turn [unfolded run_errors_def, rule_format, OF t [unfolded Err]] obtain x where x: "e' = TransferError x" by blast
      have "no_port_report (m\<lparr>um_inbox := um_inbox m @ [SharingStateMsg Off]\<rparr>)" using m by (simp add: no_port_report_def)
      then have "no_port_report (snd (um_send (upload_error_report e') (m\<lparr>um_inbox := um_inbox m @ [SharingStateMsg Off]\<rparr>)))"
        by (rule keepsD [OF no_report_send(1), rotated]) (simp add: upload_error_report_def x)
      then show ?thesis
        using Turn Running t Err by (auto simp: thread_turn_def after_run_error_def split: prod.split outcome.split)
    qed (use Turn Running t m in \<open>simp_all add: thread_turn_def\<close>)
  qed (use Turn assms in \<open>simp_all add: thread_turn_def\<close>)
qed (use assms in \<open>auto simp: no_port_report_def iu_post_def split: upload_thread.split\<close>)

interpretation report_machine: event_machine "iu_event dbg" "\<lambda>u. no_port_report (iu_manager u)" for dbg
  by unfold_locales (rule no_report_event)

text \<open>
  The user is never told that the port is in use: whatever binding, accepting and sending do, the
  message for that error is not sent. A port that cannot be bound only becomes a log line, and when
  all fail the error of \<open>run\<close> is a general one.
\<close>

theorem port_in_use_never_reported:
  assumes "UploadErrorPortInUse \<notin> set (ch_queue ch)"
  shows "UploadErrorPortInUse \<notin> set (ch_queue (um_app_sender (iu_manager
           (foldl (iu_event dbg) (new_incoming_uploader c ch) events))))"
  using report_machine.run_inv [of "new_incoming_uploader c ch" dbg events] assms
  by (simp add: no_port_report_def new_incoming_uploader_def new_uploader_manager_def)

theorem port_in_use_never_reported_witness:
  "let u = foldl (iu_event True) (new_incoming_uploader demo_cfg new_channel)
         [Post (SharingStateMsg Internet), Turn (\<lambda>_. BindFailed) WouldBlock] in
     UploadErrorPortInUse \<notin> set (ch_queue (um_app_sender (iu_manager u)))
     \<and> UploadErrorGeneric ([], Some (TransferError AllListenersFailed)) \<in> set (ch_queue (um_app_sender (iu_manager u)))"
  using port_in_use_never_reported [of new_channel True demo_cfg "[Post (SharingStateMsg Internet), Turn (\<lambda>_. BindFailed) WouldBlock]"]
  by (simp add: upload_run demo_port after_run_error_def upload_error_report_def Let_def)

subsection \<open>A port that is verified and cannot be used\<close>

text \<open>
  C39. A verified port may end the program: the check of a configuration takes the port \<open>+80\<close>, but no socket
  address can be made of it, so the manager's thread panics when sharing is switched on, and the next
  change of the sharing state or of the configuration ends the process.
\<close>

theorem odd_port_kills_uploads:
  assumes "iu_thread u = Running AtTop" and "um_inbox (iu_manager u) = [SharingStateMsg s]" and "s \<noteq> Off"
    and "um_connected (iu_manager u)" and "\<not> socket_port_ok (cf_sharing_port (c_config_file (um_config (iu_manager u))))"
  shows "iu_thread (thread_turn dbg bind accept u) = Died
     \<and> fst (iu_set_new_config c (thread_turn dbg bind accept u)) = Exit (exit_value ExitUploadManSendFailed)"
proof -
  have "iu_thread (thread_turn dbg bind accept u) = Died"
    using assms by (cases s) (simp_all add: upload_run)
  then show ?thesis by (simp add: iu_set_new_config_def iu_post_def)
qed

theorem odd_port_kills_uploads_witness:
  "verify_config_port ''+80'' = Ok () \<and>
   fst (iu_set_new_config demo_cfg (thread_turn True (\<lambda>_. Bound) WouldBlock (snd (iu_set_my_sharing_state Local
     (new_incoming_uploader (demo_cfg\<lparr>c_config_file := demo_config\<lparr>cf_sharing_port := ''+80''\<rparr>\<rparr>) new_channel))))) = Exit 7"
proof -
  let ?u = "snd (iu_set_my_sharing_state Local
     (new_incoming_uploader (demo_cfg\<lparr>c_config_file := demo_config\<lparr>cf_sharing_port := ''+80''\<rparr>\<rparr>) new_channel))"
  have v: "verify_config_port ''+80'' = Ok ()"
    by (simp add: verify_config_port_def check_port_def parse_i32_def parse_unsigned_def parse_nat_def digit_val_def)
  have "\<not> socket_port_ok ''+80''" by (simp add: socket_port_ok_def digit_val_def)
  then have "iu_thread ?u = Running AtTop" "um_inbox (iu_manager ?u) = [SharingStateMsg Local]" "um_connected (iu_manager ?u)"
    "\<not> socket_port_ok (cf_sharing_port (c_config_file (um_config (iu_manager ?u))))"
    by (simp_all add: iu_set_my_sharing_state_def iu_post_def new_incoming_uploader_def new_uploader_manager_def)
  from odd_port_kills_uploads [OF this(1,2) _ this(3,4), of True "\<lambda>_. Bound" WouldBlock demo_cfg] v show ?thesis by simp
qed

text \<open>
  A message that is read at the top of the loop also sets the flag to stop, which only the loops below
  look at: the listeners that were just bound are dropped at their first turn and bound again.
\<close>

lemma start_binds_twice:
  assumes "um_inbox m = [SharingStateMsg Internet]" and "um_connected m" and "top_turn bind m = (Ok (Listen listeners), m')"
  shows "listen_turn accept listeners m' = (Ok AtTop, m')"
proof -
  let ?P = "\<lambda>m. um_stop_incoming m \<and> um_inbox m = [] \<and> um_connected m"
  let ?start = "snd (read_inbox (um_inbox m) (m\<lparr>um_stop_incoming := False\<rparr>))"
  have keeps: "keeps ?P (bind_listeners bind addrs)" for addrs
    by (induction addrs) (auto intro!: keeps_intros simp: um_send_ok_def keeps_mod)
  have P: "?P ?start" and read: "um_read_receiver (m\<lparr>um_stop_incoming := False\<rparr>) = (Ok (), ?start)"
    using assms(1,2) by (simp_all add: upload_run)
  have "\<exists>addrs. bind_listeners bind addrs ?start = (Ok listeners, m')"
    using assms(3) read unfolding top_turn_def
    by (auto simp: io_self_def io_mod_def io_lift_def io_ok_def enter_reverse_def elim!: io_bind_OkE split: if_splits
        simp del: read_inbox.simps) blast
  then have "?P m'" using keeps_run [OF keeps _ P] by blast
  then show ?thesis by (simp add: listen_turn_def um_read_receiver_def io_bind_def io_self_def io_ok_def)
qed

subsection \<open>Local sharing\<close>

lemma reverse_start_users:
  assumes "um_sharing_state m = Local" and "reverse_start user m = (r, m')"
  shows "um_sharing_state m' = Local \<and> (\<exists>new. um_started m' = um_started m @ new
     \<and> (\<forall>x \<in> set new. st_reverse_user x = Some user \<and> is_loopback user))"
  using assms
  by (auto simp: reverse_start_def io_self_def io_ok_def io_bind_def um_send_def spawn_uploader_def io_mod_def
      split: if_splits prod.splits outcome.splits)

text \<open>
  Local sharing stays local: with the sharing state \<open>Local\<close> a round of reverse connections starts uploaders
  only for users of the list whose address is the loopback address.
\<close>

theorem local_sharing_stays_local:
  assumes "um_sharing_state m = Local" and "reverse_round m = (r, m')"
  shows "\<exists>new. um_started m' = um_started m @ new
     \<and> (\<forall>x \<in> set new. \<exists>user \<in> set (um_users m). st_reverse_user x = Some user \<and> is_loopback user)"
proof -
  have loop: "um_sharing_state m2 = Local \<Longrightarrow> set users \<subseteq> set all \<Longrightarrow> io_for reverse_start users m2 = (r2, m3) \<Longrightarrow>
      \<exists>new. um_started m3 = um_started m2 @ new
        \<and> (\<forall>x \<in> set new. \<exists>user \<in> set all. st_reverse_user x = Some user \<and> is_loopback user)" for users all m2 m3 r2
  proof (induction users arbitrary: m2)
    case Nil
    then show ?case by (simp add: io_ok_def)
  next
    case (Cons user users)
    obtain r4 m4 where s: "reverse_start user m2 = (r4, m4)" by (metis prod.exhaust)
    from reverse_start_users [OF Cons.prems(1) s] obtain new where
      n: "um_sharing_state m4 = Local" "um_started m4 = um_started m2 @ new"
        "\<forall>x \<in> set new. st_reverse_user x = Some user \<and> is_loopback user" by blast
    show ?case
    proof (cases r4)
      case (Ok u)
      with s Cons.prems(3) have "io_for reverse_start users m4 = (r2, m3)" by (simp add: io_bind_def)
      from Cons.IH [OF n(1) _ this] Cons.prems(2) obtain new' where
        "um_started m3 = um_started m4 @ new'" "\<forall>x \<in> set new'. \<exists>user \<in> set all. st_reverse_user x = Some user \<and> is_loopback user"
        by auto
      with n Cons.prems(2) show ?thesis by (intro exI [of _ "new @ new'"]) auto
    qed (use s n Cons.prems in \<open>auto simp: io_bind_def\<close>)
  qed
  let ?alive = "snd (remove_dead_uploaders m)"
  have "um_sharing_state ?alive = Local" "um_started ?alive = um_started m" "um_users ?alive = um_users m"
    using assms(1) by (simp_all add: upload_run)
  moreover have "io_for reverse_start (um_users ?alive) ?alive = (r, m')"
    using assms(2) by (simp add: reverse_round_def upload_run)
  ultimately show ?thesis using loop [of ?alive "um_users ?alive" "um_users ?alive" r m'] by simp
qed

definition two_users_manager :: uploader_manager where
  "two_users_manager = new_uploader_manager (demo_cfg\<lparr>c_config_file := demo_config\<lparr>cf_shared_users :=
     [(demo_user ''bob'' [])\<lparr>su_ip := ''127.0.0.1''\<rparr>, (demo_user ''eve'' [])\<lparr>su_ip := ''9.9.9.9''\<rparr>]\<rparr>\<rparr>) Local new_channel"

theorem local_sharing_stays_local_witness:
  "map st_reverse_user (um_started (snd (reverse_round two_users_manager))) = [Some ((demo_user ''bob'' [])\<lparr>su_ip := ''127.0.0.1''\<rparr>)]"
proof -
  have run: "fst (reverse_round two_users_manager) = Ok ()" "length (um_started (snd (reverse_round two_users_manager))) = 1"
    by (simp_all add: two_users_manager_def reverse_round_def reverse_start_def is_loopback_def demo_user_def upload_run)
  obtain new where new: "um_started (snd (reverse_round two_users_manager)) = um_started two_users_manager @ new"
    "\<forall>x \<in> set new. \<exists>user \<in> set (um_users two_users_manager). st_reverse_user x = Some user \<and> is_loopback user"
    using local_sharing_stays_local [of two_users_manager "fst (reverse_round two_users_manager)" "snd (reverse_round two_users_manager)"]
    by (auto simp: two_users_manager_def new_uploader_manager_def)
  have "um_started two_users_manager = []" by (simp add: two_users_manager_def new_uploader_manager_def)
  with new run(2) obtain x where "new = [x]" by (cases new) auto
  with new \<open>um_started two_users_manager = []\<close> show ?thesis
    by (auto simp: two_users_manager_def new_uploader_manager_def is_loopback_def demo_user_def)
qed

end
