(* ===== verification/Core.thy ===== *)
theory Core
  imports Aggregator Upload_Manager
begin

text \<open>
  \<open>TransmiticCore\<close> of \<open>transmitic_core.rs\<close>: the operations that the user interface calls. The core owns the
  configuration, and what it shares with the other threads: the states that the app loop keeps, the
  download manager (both in \<open>tc_app\<close>) and the handle of the upload thread. An operation
  is one step of the caller's thread; the other threads move between steps. Each component of the model has an
  end of the channel to the app loop of its own, whose queue holds what that component has sent.
\<close>

subsection \<open>State\<close>

record transmitic_core =
  tc_config :: config
  tc_host :: host_state
  tc_is_first_start :: bool
  tc_sharing_state :: sharing_state
  tc_app :: app_state
  tc_incoming_uploader :: incoming_uploader
  tc_app_sender :: app_channel
  tc_log_path :: string

type_synonym 'a core_op = "(transmitic_core, error, 'a) io"

definition core_send :: "app_agg_message \<Rightarrow> unit core_op" where
  "core_send msg t = (case send_app msg (tc_app_sender t) of (r, ch) \<Rightarrow> (r, t\<lparr>tc_app_sender := ch\<rparr>))"

text \<open>Sent with \<open>.ok()\<close>, and with \<open>.unwrap()\<close>.\<close>

definition core_send_ok :: "app_agg_message \<Rightarrow> unit core_op" where
  "core_send_ok msg = io_mod (\<lambda>t. t\<lparr>tc_app_sender := send_app_ok msg (tc_app_sender t)\<rparr>)"

definition core_send_unwrap :: "app_agg_message \<Rightarrow> unit core_op" where
  "core_send_unwrap msg t = (case core_send msg t of (Ok _, t') \<Rightarrow> (Ok (), t') | (_, t') \<Rightarrow> (Panic, t'))"

definition on_config :: "'a config_op \<Rightarrow> 'a core_op" where
  "on_config op t = (case op (tc_config t, tc_host t) of (r, (c, h)) \<Rightarrow> (r, t\<lparr>tc_config := c, tc_host := h\<rparr>))"

text \<open>\<open>outgoing_downloader.lock().unwrap()\<close> before the operation.\<close>

definition on_manager :: "'a od_op \<Rightarrow> 'a core_op" where
  "on_manager op =
     io_self (\<lambda>t. if as_poisoned (tc_app t) then io_lift Panic
       else (\<lambda>t. case op (as_outgoing (tc_app t)) of (r, m) \<Rightarrow> (r, t\<lparr>tc_app := (tc_app t)\<lparr>as_outgoing := m\<rparr>\<rparr>)))"

definition on_uploader :: "(incoming_uploader, error, 'a) io \<Rightarrow> 'a core_op" where
  "on_uploader op t = (case op (tc_incoming_uploader t) of (r, u) \<Rightarrow> (r, t\<lparr>tc_incoming_uploader := u\<rparr>))"

text \<open>A clone of the configuration for the uploads, and for the downloads.\<close>

definition config_to_uploader :: "unit core_op" where
  "config_to_uploader = io_self (\<lambda>t. on_uploader (iu_set_new_config (tc_config t)))"

definition config_to_manager :: "unit core_op" where
  "config_to_manager = io_self (\<lambda>t. on_manager (od_set_new_config (tc_config t)))"

subsection \<open>Start\<close>

definition core_start :: "config \<Rightarrow> host_state \<Rightarrow> logger_world \<Rightarrow> outgoing_downloader \<Rightarrow> transmitic_core" where
  "core_start c h lw m0 = \<lparr>tc_config = c, tc_host = h, tc_is_first_start = c_first_start c, tc_sharing_state = Off,
     tc_app = \<lparr>as_download_state = (\<lambda>_. None), as_upload_state = (\<lambda>_. None), as_logger = lw,
       as_uploader_error = None, as_outgoing = m0, as_poisoned = False\<rparr>,
     tc_incoming_uploader = new_incoming_uploader c new_channel, tc_app_sender = new_channel, tc_log_path = lg_log_path (fst lw)\<rparr>"

definition core_greet :: "host_env \<Rightarrow> config \<Rightarrow> unit core_op" where
  "core_greet env c =
     io_then (core_send (LogCritical (''AppAgg started'', None)))
     (io_then (core_send (LogCritical (c_path_dir_config c, None)))
     (io_bind (io_lift (is_transmitic_installed env)) (\<lambda>installed.
      io_then (core_send (LogCritical (''Is Transmitic installed: '' @ (if installed then ''true'' else ''false''), None)))
     (io_bind (io_lift (get_path_downloads_dir env c)) (\<lambda>path.
      core_send (LogCritical (''Downloads dir: '' @ path, None)))))))"

definition core_new ::
  "host_env \<Rightarrow> bool \<Rightarrow> config \<Rightarrow> host_state \<Rightarrow> file_sys \<Rightarrow> (error, transmitic_core) outcome" where
  "core_new env dbg c h fs =
     (let lw = new_logger (c_path_dir_config c) (DEFAULT_LOG_LEVEL dbg) (DEFAULT_LOG_TO_FILE dbg) fs in
      and_then (new_outgoing_downloader env c new_channel (snd lw)) (\<lambda>m0.
      case io_then (on_manager start_downloading) (core_greet env c) (core_start c h lw m0) of
        (Ok _, t) \<Rightarrow> Ok t | (Err e, _) \<Rightarrow> Err e | (Panic, _) \<Rightarrow> Panic | (Exit n, _) \<Rightarrow> Exit n))"

subsection \<open>The configuration\<close>

definition report_failure :: "(error \<Rightarrow> remark) \<Rightarrow> unit config_op \<Rightarrow> unit core_op" where
  "report_failure remark op t =
     (case on_config op t of
        (Err e, t') \<Rightarrow> io_then (core_send (LogError (remark e))) (io_lift (Err e)) t'
      | r \<Rightarrow> r)"

definition core_decrypt_config :: "host_env \<Rightarrow> unit core_op" where
  "core_decrypt_config env = report_failure (\<lambda>e. (''Failed to decrypt config '', Some e)) (decrypt_config env)"

definition core_encrypt_config :: "host_env \<Rightarrow> string \<Rightarrow> unit core_op" where
  "core_encrypt_config env password =
     report_failure (\<lambda>e. (''Failed to encrypt config '', Some e)) (encrypt_config env password)"

definition core_add_files :: "host_env \<Rightarrow> string list \<Rightarrow> unit core_op" where
  "core_add_files env files = on_config (add_files env files)"

definition core_add_new_user :: "host_env \<Rightarrow> string \<Rightarrow> string \<Rightarrow> string \<Rightarrow> string \<Rightarrow> unit core_op" where
  "core_add_new_user env nickname public_id ip port =
     io_then (core_send (LogInfo (''Add user '' @ nickname, None)))
     (io_then (on_config (add_new_user env nickname public_id ip port))
     (io_then config_to_uploader config_to_manager))"

definition core_add_user_to_shared :: "host_env \<Rightarrow> string \<Rightarrow> string \<Rightarrow> unit core_op" where
  "core_add_user_to_shared env nickname file_path =
     io_then (core_send (LogInfo (''Add user to shared '' @ nickname @ '' - '' @ file_path, None)))
     (io_then (on_config (add_user_to_shared env nickname file_path)) config_to_uploader)"

definition core_create_new_id :: "host_env \<Rightarrow> unit core_op" where
  "core_create_new_id env =
     io_then (core_send (LogWarning (''Create new ID'', None)))
     (io_then (on_config (create_new_id env)) (io_then config_to_uploader config_to_manager))"

definition core_set_port :: "host_env \<Rightarrow> string \<Rightarrow> unit core_op" where
  "core_set_port env port =
     io_then (core_send_ok (LogInfo (''Set port '' @ port, None)))
     (io_then (on_config (set_port env port)) config_to_uploader)"

definition core_set_path_downloads_dir :: "host_env \<Rightarrow> string \<Rightarrow> unit core_op" where
  "core_set_path_downloads_dir env path =
     io_then (on_config (on_host (on_fs (fs_create_dir_all path))))
     (io_then (on_config (set_path_downloads_dir env path)) config_to_manager)"

definition core_remove_file_from_sharing :: "host_env \<Rightarrow> string \<Rightarrow> unit core_op" where
  "core_remove_file_from_sharing env file_path =
     io_then (core_send_ok (LogInfo (''Remove from sharing '' @ file_path, None)))
     (io_then (on_config (remove_file_from_sharing env file_path)) config_to_uploader)"

definition core_remove_user_from_sharing :: "host_env \<Rightarrow> string \<Rightarrow> string \<Rightarrow> unit core_op" where
  "core_remove_user_from_sharing env nickname file_path =
     io_then (core_send_ok (LogInfo (''Remove user from sharing '' @ nickname @ '' - '' @ file_path, None)))
     (io_then (on_config (remove_user_from_sharing env nickname file_path)) config_to_uploader)"

definition core_remove_user :: "host_env \<Rightarrow> string \<Rightarrow> unit core_op" where
  "core_remove_user env nickname =
     io_then (core_send_ok (LogInfo (''Remove user '' @ nickname, None)))
     (io_then (on_config (remove_user env nickname))
     (io_then config_to_uploader
     (io_then config_to_manager (on_manager (od_remove_user nickname)))))"

definition core_set_ignore_incoming :: "host_env \<Rightarrow> bool \<Rightarrow> unit core_op" where
  "core_set_ignore_incoming env state =
     io_then (core_send_ok (LogInfo (''Set ignore incoming '' @ (if state then ''true'' else ''false''), None)))
     (io_then (on_config (set_ignore_incoming env state))
     (io_then config_to_uploader
     (io_then config_to_manager (on_manager restart_connections))))"

definition core_set_reverse_connection :: "host_env \<Rightarrow> bool \<Rightarrow> unit core_op" where
  "core_set_reverse_connection env state =
     io_then (core_send_ok (LogInfo (''Set reverse connection '' @ (if state then ''true'' else ''false''), None)))
     (io_then (on_config (set_reverse_connection env state)) config_to_uploader)"

definition core_set_user_is_allowed_state :: "host_env \<Rightarrow> string \<Rightarrow> bool \<Rightarrow> unit core_op" where
  "core_set_user_is_allowed_state env nickname is_allowed =
     io_then (core_send_ok (LogInfo (''Set user is allowed state '' @ nickname @ '' ''
       @ (if is_allowed then ''true'' else ''false''), None)))
     (io_then (on_config (set_user_is_allowed_state env nickname is_allowed)) config_to_uploader)"

definition core_update_user :: "host_env \<Rightarrow> string \<Rightarrow> string \<Rightarrow> string \<Rightarrow> string \<Rightarrow> unit core_op" where
  "core_update_user env nickname public_id ip port =
     io_then (core_send_ok (LogInfo (''Update user '' @ nickname @ '' - '' @ public_id @ '' - '' @ ip @ '' - '' @ port, None)))
     (io_then (on_config (update_user env nickname public_id ip port))
     (io_then config_to_uploader
     (io_then config_to_manager (on_manager (od_update_user nickname)))))"

subsection \<open>Downloads\<close>

definition core_downloads_cancel_all :: "unit core_op" where
  "core_downloads_cancel_all =
     io_then (core_send_ok (LogInfo (''Cancel all downloads'', None))) (on_manager od_downloads_cancel_all)"

definition core_downloads_cancel_single :: "string \<Rightarrow> string \<Rightarrow> unit core_op" where
  "core_downloads_cancel_single nickname file_path =
     io_then (core_send_ok (LogInfo (''Cancel single download '' @ nickname @ '' - '' @ file_path, None)))
       (on_manager (od_downloads_cancel_single nickname file_path))"

definition core_downloads_resume_all :: "unit core_op" where
  "core_downloads_resume_all =
     io_then (core_send_ok (LogInfo (''Resume all downloads'', None))) (on_manager od_downloads_resume_all)"

definition core_downloads_pause_all :: "unit core_op" where
  "core_downloads_pause_all =
     io_then (core_send_ok (LogInfo (''Pause all downloads'', None))) (on_manager od_downloads_pause_all)"

definition map_downloads :: "(single_download_state \<Rightarrow> single_download_state) \<Rightarrow> unit core_op" where
  "map_downloads f =
     io_mod (\<lambda>t. t\<lparr>tc_app := (tc_app t)\<lparr>as_download_state := map_option f \<circ> as_download_state (tc_app t)\<rparr>\<rparr>)"

definition core_downloads_clear_finished :: "unit core_op" where
  "core_downloads_clear_finished =
     io_then (core_send_ok (LogInfo (''Clear downloads'', None)))
       (map_downloads (\<lambda>d. d\<lparr>sds_completed_downloads := []\<rparr>))"

definition core_downloads_clear_finished_from_me :: "unit core_op" where
  "core_downloads_clear_finished_from_me =
     io_then (core_send_ok (LogInfo (''Clear downloads finished from me'', None)))
       (io_mod (\<lambda>t. t\<lparr>tc_app := (tc_app t)\<lparr>as_upload_state := (\<lambda>_. None)\<rparr>\<rparr>))"

definition core_downloads_clear_invalid :: "unit core_op" where
  "core_downloads_clear_invalid =
     io_then (core_send_ok (LogInfo (''Cancel invalid downloads'', None)))
       (map_downloads (\<lambda>d. d\<lparr>sds_invalid_downloads := []\<rparr>))"

definition core_download_selected :: "selected_download list \<Rightarrow> unit core_op" where
  "core_download_selected downloads =
     io_then (core_send_ok (LogInfo (''Download selected'', None))) (on_manager (od_download_selected downloads))"

definition core_is_downloading_paused :: "bool core_op" where
  "core_is_downloading_paused = on_manager (io_get od_is_downloading_paused)"

definition core_get_shared_with_me_data :: "(string \<Rightarrow> refresh_data option) core_op" where
  "core_get_shared_with_me_data = on_manager od_get_shared_with_me_data"

definition core_start_refresh_all :: "unit core_op" where
  "core_start_refresh_all = on_manager od_start_refresh_all"

definition core_start_refresh_single :: "string \<Rightarrow> unit core_op" where
  "core_start_refresh_single nickname = on_manager (od_start_refresh_single nickname)"

subsection \<open>Sharing and the log\<close>

fun sharing_text :: "sharing_state \<Rightarrow> string" where
  "sharing_text Off = ''Off''"
| "sharing_text Local = ''Local''"
| "sharing_text Internet = ''Internet''"

definition core_set_my_sharing_state :: "sharing_state \<Rightarrow> unit core_op" where
  "core_set_my_sharing_state sharing =
     io_then (core_send_ok (LogInfo (''Set my sharing state '' @ sharing_text sharing, None)))
     (io_then (on_uploader (iu_set_my_sharing_state sharing))
     (io_then (io_mod (\<lambda>t. t\<lparr>tc_sharing_state := sharing\<rparr>))
       (core_send_ok (LogInfo (''Sharing state set to '' @ sharing_text sharing, None)))))"

definition core_get_and_reset_my_sharing_error :: "incoming_uploader_error option core_op" where
  "core_get_and_reset_my_sharing_error =
     io_bind (io_get (\<lambda>t. as_uploader_error (tc_app t))) (\<lambda>error.
     io_then (io_mod (\<lambda>t. t\<lparr>tc_app := (tc_app t)\<lparr>as_uploader_error := None\<rparr>\<rparr>))
     (io_then (if error \<noteq> None then core_set_my_sharing_state Off else io_ok ()) (io_ok error)))"

definition core_log_to_file_start :: "unit core_op" where
  "core_log_to_file_start = core_send_unwrap (LogToFileState True)"

definition core_log_to_file_stop :: "unit core_op" where
  "core_log_to_file_stop = core_send_unwrap (LogToFileState False)"

definition core_set_log_level :: "log_level \<Rightarrow> unit core_op" where
  "core_set_log_level level = core_send_unwrap (SetLogLevel level)"

text \<open>What is shown of the configuration and the state.\<close>

definition core_is_config_encrypted :: "transmitic_core \<Rightarrow> bool" where
  "core_is_config_encrypted t = is_config_encrypted (tc_config t)"

definition core_get_public_id_string :: "host_env \<Rightarrow> transmitic_core \<Rightarrow> (error, string) outcome" where
  "core_get_public_id_string env t = get_public_id_string env (tc_config t)"

definition core_get_my_sharing_files :: "transmitic_core \<Rightarrow> config_shared_file list" where
  "core_get_my_sharing_files t = cf_shared_files (c_config_file (tc_config t))"

definition core_get_shared_users :: "transmitic_core \<Rightarrow> shared_user list" where
  "core_get_shared_users t = cf_shared_users (c_config_file (tc_config t))"

definition core_get_sharing_port :: "transmitic_core \<Rightarrow> string" where
  "core_get_sharing_port t = cf_sharing_port (c_config_file (tc_config t))"

definition core_is_ignore_incoming :: "transmitic_core \<Rightarrow> bool" where
  "core_is_ignore_incoming t = cf_ignore_incoming (c_config_file (tc_config t))"

definition core_is_reverse_connection :: "transmitic_core \<Rightarrow> bool" where
  "core_is_reverse_connection t = cf_reverse_connection (c_config_file (tc_config t))"

definition core_get_path_downloads_dir :: "host_env \<Rightarrow> transmitic_core \<Rightarrow> (error, string) outcome" where
  "core_get_path_downloads_dir env t = get_path_downloads_dir env (tc_config t)"

text \<open>What is shown of the log.\<close>

definition core_get_log_messages :: "transmitic_core \<Rightarrow> string list" where
  "core_get_log_messages t = lg_log_lines (fst (as_logger (tc_app t)))"

definition core_get_log_level :: "transmitic_core \<Rightarrow> log_level" where
  "core_get_log_level t = lg_active_log_level (fst (as_logger (tc_app t)))"

definition core_is_log_to_file :: "transmitic_core \<Rightarrow> bool" where
  "core_is_log_to_file t = lg_is_log_to_file (fst (as_logger (tc_app t)))"

end
