(* ===== verification/Config_Effects.thy ===== *)
theory Config_Effects
  imports Config
begin

text \<open>
  What an operation on the configuration leaves as it was: the key, the directory, and, when the operation
  fails, everything but the spelling that sanitizing removes; and what uploads use of a configuration.
\<close>

subsection \<open>What an operation does to the configuration\<close>

text \<open>What uploads use of a configuration: everything but the directory of downloads and files that are shared with nobody.\<close>

definition view :: "config_file \<Rightarrow> config_file" where
  "view cf = cf\<lparr>cf_path_downloads := [], cf_shared_files := filter (\<lambda>f. csf_shared_with f \<noteq> []) (cf_shared_files cf)\<rparr>"

lemma view_sanitize: "view (sanitize_config cf) = view (sanitize_config (view cf))"
proof -
  have "trim [] = []" by code_simp
  moreover have "csf_shared_with (sanitize_file f) = [] \<longleftrightarrow> csf_shared_with f = []" for f
    by (simp add: sanitize_file_def) (metis length_0_conv length_map length_sort)
  ultimately show ?thesis
    by (simp add: view_def sanitize_config_def filter_map comp_def)
qed

lemma view_sanitize_cong: "view a = view b \<Longrightarrow> view (sanitize_config a) = view (sanitize_config b)"
  using view_sanitize [of a] view_sanitize [of b] by simp

text \<open>The same for readers: equal up to being sanitized again.\<close>

definition resanitized :: "config_file \<Rightarrow> config_file \<Rightarrow> bool" where
  "resanitized sent cf \<longleftrightarrow> (\<exists>k. view cf = view ((sanitize_config ^^ k) sent))"

lemma resanitized_refl: "resanitized cf cf"
  unfolding resanitized_def by (rule exI [of _ 0]) simp

lemma resanitized_same: "resanitized sent cf \<Longrightarrow> view cf' = view cf \<Longrightarrow> resanitized sent cf'"
  by (simp add: resanitized_def)

lemma resanitized_step: "resanitized sent cf \<Longrightarrow> view cf' = view (sanitize_config cf) \<Longrightarrow> resanitized sent cf'"
proof -
  assume "resanitized sent cf" and v: "view cf' = view (sanitize_config cf)"
  then obtain k where "view cf = view ((sanitize_config ^^ k) sent)" by (auto simp: resanitized_def)
  from view_sanitize_cong [OF this] v show ?thesis
    unfolding resanitized_def by (intro exI [of _ "Suc k"]) simp
qed

lemma resanitized_stable:
  assumes "resanitized sent cf" and "sanitize_config sent = sent"
  shows "view cf = view sent"
proof -
  have "(sanitize_config ^^ k) sent = sent" for k by (induction k) (simp_all add: assms(2))
  with assms(1) show ?thesis by (auto simp: resanitized_def)
qed

lemma write_and_set_result:
  assumes "write_and_set_config env cf (c, h) = (r, (c', h'))"
  shows "c_local_private_key_bytes c' = c_local_private_key_bytes c \<and> c_path_dir_config c' = c_path_dir_config c
     \<and> (if r = Ok () then c_config_file c' = sanitize_config cf else c_config_file c' = c_config_file c)"
proof (cases "r = Ok ()")
  case True
  with assms write_and_set_Ok obtain cf' where "c' = (next_nonce c)\<lparr>c_config_file := cf'\<rparr>" "verify_config env cf = Ok cf'" by blast
  with True show ?thesis by (auto simp: verify_config_Ok)
qed (use write_and_set_not_Ok [OF assms] in simp)

lemma edit_result:
  assumes "edit_config env f (c, h) = (r, (c', h'))"
  shows "c_local_private_key_bytes c' = c_local_private_key_bytes c \<and> c_path_dir_config c' = c_path_dir_config c
     \<and> (if r = Ok () then c_config_file c' = c_config_file c
          \<or> (\<exists>cf. f (c_config_file c) = Ok (Some cf) \<and> c_config_file c' = sanitize_config cf)
        else c_config_file c' = c_config_file c)"
  using assms write_and_set_result [of env _ c h r c' h']
  by (auto simp: edit_config_run split: outcome.splits option.splits if_splits)

definition is_recrypt :: "config_event \<Rightarrow> bool" where
  "is_recrypt e \<longleftrightarrow> (case e of DecryptConfig \<Rightarrow> True | EncryptConfig _ \<Rightarrow> True | _ \<Rightarrow> False)"

lemma after_write_file:
  assumes "io_bind (io_lift r) (\<lambda>p. on_host (on_fs (fs_remove_file p))) (c, h) = (r', (c', h'))"
  shows "c' = c"
  using assms by (auto simp: io_bind_def io_lift_def on_host_def split: outcome.splits prod.splits)

lemma recrypt_result:
  assumes "config_op env e (c, h) = (r, (c', h'))" and "is_recrypt e"
  shows "c_local_private_key_bytes c' = c_local_private_key_bytes c \<and> c_path_dir_config c' = c_path_dir_config c
     \<and> (c_config_file c' = c_config_file c \<or> c_config_file c' = sanitize_config (c_config_file c))"
proof -
  have both: "c_local_private_key_bytes c' = c_local_private_key_bytes c \<and> c_path_dir_config c' = c_path_dir_config c
     \<and> (c_config_file c' = c_config_file c \<or> c_config_file c' = sanitize_config (c_config_file c))"
    if w: "write_and_set_config env (c_config_file c) (c\<lparr>c_password := pw\<rparr>, h) = (r1, (c1, h1))"
      and rest: "(case r1 of Ok _ \<Rightarrow> io_bind (io_lift p) (\<lambda>p. on_host (on_fs (fs_remove_file p))) (c1, h1)
          | Err e \<Rightarrow> (Err e, (c1\<lparr>c_password := pw'\<rparr>, h1)) | Panic \<Rightarrow> (Panic, (c1, h1)) | Exit x \<Rightarrow> (Exit x, (c1, h1))) = (r, (c', h'))"
    for pw pw' r1 c1 h1 p
    using write_and_set_result [OF w] rest
    by (cases r1) (auto dest!: after_write_file split: if_splits)
  show ?thesis
  proof (cases e)
    case DecryptConfig
    obtain r1 c1 h1 where w: "write_and_set_config env (c_config_file c) (c\<lparr>c_password := None\<rparr>, h) = (r1, (c1, h1))"
      by (metis prod.exhaust)
    show ?thesis
    proof (cases "c_password c = None")
      case False
      with assms(1) DecryptConfig w show ?thesis
        by (intro both [OF w, of "get_path_encrypted_config env" "c_password c"])
          (auto simp: decrypt_config_def split: outcome.splits)
    qed (use assms(1) DecryptConfig in \<open>simp add: decrypt_config_def\<close>)
  next
    case (EncryptConfig password)
    obtain r1 c1 h1 where w: "write_and_set_config env (c_config_file c) (c\<lparr>c_password := Some password\<rparr>, h) = (r1, (c1, h1))"
      by (metis prod.exhaust)
    show ?thesis
    proof (cases "c_password c = None")
      case True
      with assms(1) EncryptConfig w show ?thesis
        by (intro both [OF w, of "get_path_config_json env" None])
          (auto simp: encrypt_config_def split: outcome.splits)
    qed (use assms(1) EncryptConfig in \<open>simp add: encrypt_config_def\<close>)
  qed (use assms(2) in \<open>simp_all add: is_recrypt_def\<close>)
qed

lemma new_id_result:
  assumes "create_new_id env (c, h) = (r, (c', h'))"
  shows "c_path_dir_config c' = c_path_dir_config c
     \<and> (r \<noteq> Ok () \<longrightarrow> c_local_private_key_bytes c' = c_local_private_key_bytes c \<and> c_config_file c' = c_config_file c)"
proof -
  obtain r1 h1 where g: "generate_id_pair env h = (r1, h1)" by (metis prod.exhaust)
  show ?thesis
  proof (cases r1)
    case (Ok kp)
    let ?f = "\<lambda>cf. Ok (Some (cf\<lparr>cf_my_private_id := encode (fst kp)\<rparr>)) :: (error, config_file option) outcome"
    let ?load = "io_bind (io_query (\<lambda>(c, h). get_bytes_from_base64_str (cf_my_private_id (c_config_file c))))
      (\<lambda>bs. io_mod (\<lambda>(c, h). (c\<lparr>c_local_private_key_bytes := bs\<rparr>, h)))"
    from assms g Ok have run: "io_then (edit_config env ?f) ?load (c, h1) = (r, (c', h'))"
      by (simp add: create_new_id_def io_bind_def [where m = "on_host _"] on_host_def case_prod_beta)
    obtain r2 c2 h2 where e: "edit_config env ?f (c, h1) = (r2, (c2, h2))" by (metis prod.exhaust)
    show ?thesis
    proof (cases "r2 = Ok ()")
      case True
      from e True have "write_and_set_config env ((c_config_file c)\<lparr>cf_my_private_id := encode (fst kp)\<rparr>) (c, h1) = (Ok (), (c2, h2))"
        by (simp add: edit_config_run)
      then obtain cf' where cf': "c2 = (next_nonce c)\<lparr>c_config_file := cf'\<rparr>"
        "verify_config env ((c_config_file c)\<lparr>cf_my_private_id := encode (fst kp)\<rparr>) = Ok cf'"
        using write_and_set_Ok by blast
      then obtain k where k: "decode (cf_my_private_id cf') = Ok k"
        using verified [OF cf'(2)] by (auto simp: config_valid_def)
      then have "?load (c2, h2) = (Ok (), (c2\<lparr>c_local_private_key_bytes := k\<rparr>, h2))"
        by (simp add: io_bind_def io_query_def io_mod_def get_bytes_from_base64_str_def cf'(1))
      with run e True have "r = Ok ()" "c' = c2\<lparr>c_local_private_key_bytes := k\<rparr>" by (simp_all add: io_bind_Ok)
      with cf'(1) show ?thesis by simp
    next
      case False
      with run e have "r = r2" "c' = c2" by (auto simp: io_bind_def split: outcome.splits)
      with edit_result [OF e] False show ?thesis by simp
    qed
  qed (use assms g in \<open>auto simp: create_new_id_def io_bind_def on_host_def\<close>)
qed

text \<open>Operations that fail, and those after which the uploads are not told.\<close>

lemma config_op_failed:
  assumes "config_op env e (c, h) = (r, (c', h'))"
  shows "c_path_dir_config c' = c_path_dir_config c \<and> (r \<noteq> Ok () \<longrightarrow>
     c_local_private_key_bytes c' = c_local_private_key_bytes c
     \<and> (c_config_file c' = c_config_file c \<or> is_recrypt e \<and> c_config_file c' = sanitize_config (c_config_file c)))"
proof (cases "is_recrypt e")
  case True
  with recrypt_result [OF assms True] show ?thesis by auto
next
  case False
  show ?thesis
  proof (cases "e = CreateNewId")
    case True
    with new_id_result assms show ?thesis by auto
  next
    case no_id: False
    then obtain f where "config_op env e = edit_config env f"
      using False by (cases e) (auto simp: edit_op_defs is_recrypt_def)
    with assms edit_result [of env f c h r c' h'] show ?thesis by simp
  qed
qed

definition is_quiet :: "config_event \<Rightarrow> bool" where
  "is_quiet e \<longleftrightarrow> is_recrypt e \<or> (case e of AddFiles _ \<Rightarrow> True | SetPathDownloadsDir _ \<Rightarrow> True | _ \<Rightarrow> False)"

lemma quiet_result:
  assumes "config_op env e (c, h) = (r, (c', h'))" and "is_quiet e" and "resanitized sent (c_config_file c)"
  shows "c_local_private_key_bytes c' = c_local_private_key_bytes c \<and> resanitized sent (c_config_file c')"
proof (cases "is_recrypt e")
  case True
  with recrypt_result [OF assms(1) True] assms(3) show ?thesis by (auto intro: resanitized_step)
next
  case False
  then consider files where "e = AddFiles files" | path where "e = SetPathDownloadsDir path"
    using assms(2) by (auto simp: is_quiet_def split: config_event.splits)
  then obtain f where f: "config_op env e = edit_config env f"
    and v: "\<And>cf'. f (c_config_file c) = Ok (Some cf') \<Longrightarrow> view cf' = view (c_config_file c)"
  proof cases
    case 1
    show ?thesis
      by (rule that) (use 1 in \<open>simp_all add: add_files_def Let_def\<close>, auto simp: view_def)
  next
    case 2
    show ?thesis
      by (rule that) (use 2 in \<open>simp_all add: set_path_downloads_dir_def\<close>, auto simp: view_def)
  qed
  from edit_result [OF assms(1) [unfolded f]] assms(3) v show ?thesis
    by (auto split: if_splits intro: resanitized_step [OF assms(3) view_sanitize_cong])
qed

end
