(* ===== verification/Core_Sync.thy ===== *)
theory Core_Sync
  imports Core Config_Effects
begin

text \<open>
  The core and the threads it directs stay together: what the uploads use of the configuration is what
  the core has, however operations and other threads' steps follow each other; removing a user
  reaches every component; a start resumes the downloads that a queue file remembers.
\<close>

subsection \<open>The configuration that the uploads have or will have\<close>

text \<open>The manager's configuration once it has read the messages that wait.\<close>

fun take_message :: "config \<Rightarrow> message_upload_manager \<Rightarrow> config" where
  "take_message c (NewUploadConfig c') = c'"
| "take_message c (SharingStateMsg s) = c"

definition last_config :: "uploader_manager \<Rightarrow> config" where
  "last_config m = foldl take_message (um_config m) (um_inbox m)"

lemma last_config_mod [keeps_intros]:
  "(\<And>m. um_config (f m) = um_config m \<and> um_inbox (f m) = um_inbox m) \<Longrightarrow> keeps (\<lambda>m. last_config m = c) (io_mod f)"
  by (rule keeps_mod) (simp add: last_config_def)

lemma last_config_send [keeps_intros]:
  "keeps (\<lambda>m. last_config m = c) (um_send msg)" "keeps (\<lambda>m. last_config m = c) (um_send_ok msg)"
  unfolding um_send_ok_def
  by (auto simp: keeps_def um_send_def last_config_def io_mod_def split: prod.split)

lemma last_config_read [keeps_intros]: "keeps (\<lambda>m. last_config m = c) um_read_receiver"
proof -
  have "um_inbox m = msgs \<Longrightarrow> last_config (snd (read_inbox msgs m)) = last_config m" for msgs m
  proof (induction msgs arbitrary: m)
    case (Cons msg msgs)
    then show ?case
      by (cases msg) (simp_all add: io_bind_def [where m = "io_mod _"] io_bind_def [where m = reset_connections] io_mod_def
          reset_run last_config_def)
  qed (simp add: io_self_def io_ok_def io_lift_def)
  then show ?thesis by (simp add: keeps_def um_read_receiver_def io_self_def)
qed

lemma last_config_turn: "keeps (\<lambda>m. last_config m = c) (um_turn dbg bind accept phase)"
proof -
  have bind: "keeps (\<lambda>m. last_config m = c) (bind_listeners bind addrs)" for addrs
    by (induction addrs) (auto intro!: keeps_intros)
  have spawn: "keeps (\<lambda>m. last_config m = c) (spawn_uploader conn user)" "keeps (\<lambda>m. last_config m = c) remove_dead_uploaders"
    for conn user
    unfolding spawn_uploader_def remove_dead_uploaders_def send_message_to_all_uploaders_def by (intro keeps_intros; simp)+
  show ?thesis
    by (cases phase)
      (auto simp: top_turn_def reverse_turn_def listen_turn_def reverse_round_def reverse_start_def enter_reverse_def
        intro!: keeps_intros bind spawn split: accept_result.split)
qed

lemma after_error_last_config: "last_config (iu_manager (after_run_error e m)) = last_config m"
proof -
  let ?m = "m\<lparr>um_inbox := um_inbox m @ [SharingStateMsg Off]\<rparr>"
  obtain r m' where s: "um_send (upload_error_report e) ?m = (r, m')" by (metis prod.exhaust)
  have "last_config ?m = last_config m" by (simp add: last_config_def)
  with keeps_run [OF last_config_send(1) s] have "last_config m' = last_config m" by blast
  with s show ?thesis by (simp add: after_run_error_def split: outcome.split)
qed

lemma thread_turn_last_config:
  assumes "iu_thread (thread_turn dbg bind accept u) = Running phase"
  shows "last_config (iu_manager (thread_turn dbg bind accept u)) = last_config (iu_manager u) \<and> (\<exists>ph. iu_thread u = Running ph)"
proof (cases "iu_thread u")
  case (Running ph)
  obtain r m where t: "um_turn dbg bind accept ph (iu_manager u) = (r, m)" by (metis prod.exhaust)
  from keeps_run [OF last_config_turn t refl] have m: "last_config m = last_config (iu_manager u)" .
  from Running t m show ?thesis
    by (cases r) (simp_all add: thread_turn_def after_error_last_config)
qed (use assms in \<open>simp_all add: thread_turn_def\<close>)

subsection \<open>Operations and events\<close>

datatype core_event =
    Edit config_event
  | CancelAll | Cancel string string | ResumeAll | PauseAll
  | ClearFinished | ClearFinishedFromMe | ClearInvalid
  | Download "selected_download list"
  | RefreshAll | Refresh string | ReadLists
  | SetSharing sharing_state | ReadSharingError
  | LogFileStart | LogFileStop | LogLevel log_level
  | UploadStep upload_event
  | AppStep received
  | ManagerStep od_event

fun core_edit :: "host_env \<Rightarrow> config_event \<Rightarrow> unit core_op" where
  "core_edit env DecryptConfig = core_decrypt_config env"
| "core_edit env (EncryptConfig password) = core_encrypt_config env password"
| "core_edit env (AddFiles files) = core_add_files env files"
| "core_edit env (AddNewUser n k i p) = core_add_new_user env n k i p"
| "core_edit env (AddUserToShared n f) = core_add_user_to_shared env n f"
| "core_edit env CreateNewId = core_create_new_id env"
| "core_edit env (RemoveFileFromSharing f) = core_remove_file_from_sharing env f"
| "core_edit env (RemoveUserFromSharing n f) = core_remove_user_from_sharing env n f"
| "core_edit env (RemoveUserEvent n) = core_remove_user env n"
| "core_edit env (SetPort p) = core_set_port env p"
| "core_edit env (SetPathDownloadsDir p) = core_set_path_downloads_dir env p"
| "core_edit env (SetIgnoreIncoming b) = core_set_ignore_incoming env b"
| "core_edit env (SetReverseConnection b) = core_set_reverse_connection env b"
| "core_edit env (SetUserIsAllowed n b) = core_set_user_is_allowed_state env n b"
| "core_edit env (UpdateUser n k i p) = core_update_user env n k i p"

text \<open>The operations of the core, and the steps of the other threads.\<close>

fun core_call :: "host_env \<Rightarrow> bool \<Rightarrow> (error \<Rightarrow> string) \<Rightarrow> core_event \<Rightarrow> unit core_op" where
  "core_call env dbg wording (Edit e) = core_edit env e"
| "core_call env dbg wording CancelAll = core_downloads_cancel_all"
| "core_call env dbg wording (Cancel n p) = core_downloads_cancel_single n p"
| "core_call env dbg wording ResumeAll = core_downloads_resume_all"
| "core_call env dbg wording PauseAll = core_downloads_pause_all"
| "core_call env dbg wording ClearFinished = core_downloads_clear_finished"
| "core_call env dbg wording ClearFinishedFromMe = core_downloads_clear_finished_from_me"
| "core_call env dbg wording ClearInvalid = core_downloads_clear_invalid"
| "core_call env dbg wording (Download ds) = core_download_selected ds"
| "core_call env dbg wording RefreshAll = core_start_refresh_all"
| "core_call env dbg wording (Refresh n) = core_start_refresh_single n"
| "core_call env dbg wording ReadLists = io_then core_get_shared_with_me_data (io_ok ())"
| "core_call env dbg wording (SetSharing s) = core_set_my_sharing_state s"
| "core_call env dbg wording ReadSharingError = io_then core_get_and_reset_my_sharing_error (io_ok ())"
| "core_call env dbg wording LogFileStart = core_log_to_file_start"
| "core_call env dbg wording LogFileStop = core_log_to_file_stop"
| "core_call env dbg wording (LogLevel l) = core_set_log_level l"
| "core_call env dbg wording (UploadStep e) =
     io_mod (\<lambda>t. case e of Post _ \<Rightarrow> t | _ \<Rightarrow> t\<lparr>tc_incoming_uploader := iu_event dbg (tc_incoming_uploader t) e\<rparr>)"
| "core_call env dbg wording (AppStep msg) =
     (\<lambda>t. case app_turn wording msg (tc_app t) of (r, a) \<Rightarrow> (r, t\<lparr>tc_app := a\<rparr>))"
| "core_call env dbg wording (ManagerStep e) =
     io_mod (\<lambda>t. t\<lparr>tc_app := (tc_app t)\<lparr>as_outgoing := od_step (as_outgoing (tc_app t)) e\<rparr>\<rparr>)"

definition core_step :: "host_env \<Rightarrow> bool \<Rightarrow> (error \<Rightarrow> string) \<Rightarrow> transmitic_core \<Rightarrow> core_event \<Rightarrow> transmitic_core" where
  "core_step env dbg wording t e = snd (core_call env dbg wording e t)"

subsection \<open>The uploads keep up\<close>

definition sent_config :: "transmitic_core \<Rightarrow> config" where
  "sent_config t = last_config (iu_manager (tc_incoming_uploader t))"

definition uploads_current :: "transmitic_core \<Rightarrow> bool" where
  "uploads_current t \<longleftrightarrow> (\<forall>phase. iu_thread (tc_incoming_uploader t) = Running phase \<longrightarrow>
     resanitized (c_config_file (sent_config t)) (c_config_file (tc_config t))
     \<and> c_local_private_key_bytes (sent_config t) = c_local_private_key_bytes (tc_config t)
     \<and> c_path_dir_config (sent_config t) = c_path_dir_config (tc_config t))"

lemma current_mod:
  "(\<And>t. tc_config (f t) = tc_config t \<and> tc_incoming_uploader (f t) = tc_incoming_uploader t) \<Longrightarrow> keeps uploads_current (io_mod f)"
  by (rule keeps_mod) (simp add: uploads_current_def sent_config_def)

lemma current_send [keeps_intros]:
  "keeps uploads_current (core_send msg)" "keeps uploads_current (core_send_ok msg)" "keeps uploads_current (core_send_unwrap msg)"
proof -
  show s: "keeps uploads_current (core_send msg)"
    by (auto simp: keeps_def core_send_def uploads_current_def sent_config_def split: prod.split)
  show "keeps uploads_current (core_send_unwrap msg)"
    using s by (auto simp: keeps_def core_send_unwrap_def split: prod.split outcome.split)
  show "keeps uploads_current (core_send_ok msg)"
    unfolding core_send_ok_def by (rule current_mod) simp
qed

lemma current_manager [keeps_intros]: "keeps uploads_current (on_manager op)"
  by (auto simp: keeps_def on_manager_def io_self_def io_lift_def uploads_current_def sent_config_def split: prod.split)

lemma current_host: "keeps uploads_current (on_config (on_host op))"
  by (auto simp: keeps_def on_config_def on_host_def uploads_current_def sent_config_def split: prod.split)

lemma current_app: "keeps uploads_current (\<lambda>t. case op (tc_app t) of (r, a) \<Rightarrow> (r, t\<lparr>tc_app := a\<rparr>))"
  by (auto simp: keeps_def uploads_current_def sent_config_def split: prod.split)

lemma current_to_manager [keeps_intros]: "keeps uploads_current config_to_manager"
  unfolding config_to_manager_def by (intro keeps_intros)

lemma current_sharing [keeps_intros]: "keeps uploads_current (on_uploader (iu_set_my_sharing_state s))"
  by (auto simp: keeps_def on_uploader_def iu_set_my_sharing_state_def iu_post_def uploads_current_def sent_config_def
      last_config_def split: prod.split upload_thread.split)

lemma to_uploader_current: "uploads_current (snd (config_to_uploader t))"
  by (cases "iu_thread (tc_incoming_uploader t)")
    (simp_all add: config_to_uploader_def io_self_def on_uploader_def iu_set_new_config_def iu_post_def uploads_current_def
      sent_config_def last_config_def resanitized_refl)

lemma on_config_run: "on_config op t = (r, t') \<Longrightarrow> \<exists>c h. op (tc_config t, tc_host t) = (r, (c, h)) \<and> t' = t\<lparr>tc_config := c, tc_host := h\<rparr>"
  by (auto simp: on_config_def split: prod.splits)

text \<open>A quiet operation keeps the uploads current, and so does one that fails.\<close>

lemma edit_current:
  assumes "uploads_current t" and "on_config (config_op env e) t = (r, t')" and "is_quiet e \<or> r \<noteq> Ok ()"
  shows "uploads_current t'"
proof -
  from on_config_run [OF assms(2)] obtain c h where
    run: "config_op env e (tc_config t, tc_host t) = (r, (c, h))" and t': "t' = t\<lparr>tc_config := c, tc_host := h\<rparr>" by blast
  have sent: "sent_config t' = sent_config t" "tc_incoming_uploader t' = tc_incoming_uploader t"
    by (simp_all add: t' sent_config_def)
  from config_op_failed [OF run] assms(3) quiet_result [OF run, of "c_config_file (sent_config t)"] assms(1) show ?thesis
    unfolding uploads_current_def sent by (auto simp: t' intro: resanitized_step)
qed

lemma current_quiet: "is_quiet e \<Longrightarrow> keeps uploads_current (on_config (config_op env e))"
  by (rule keepsI) (metis edit_current prod.collapse)

lemma current_loud:
  assumes "keeps uploads_current rest"
  shows "keeps uploads_current (io_then (on_config (config_op env e)) (io_then config_to_uploader rest))"
proof (rule keepsI)
  fix t assume t: "uploads_current t"
  obtain r t1 where e: "on_config (config_op env e) t = (r, t1)" by (metis prod.exhaust)
  show "uploads_current (snd (io_then (on_config (config_op env e)) (io_then config_to_uploader rest) t))"
  proof (cases "r = Ok ()")
    case True
    obtain r2 t2 where u: "config_to_uploader t1 = (r2, t2)" by (metis prod.exhaust)
    with to_uploader_current [of t1] have "uploads_current t2" by simp
    with True e u keepsD [OF assms this] show ?thesis by (cases r2) (simp_all add: io_bind_def)
  next
    case False
    with edit_current [OF t e] e show ?thesis by (cases r) (simp_all add: io_bind_def)
  qed
qed

lemma io_then_ok: "io_then m (io_ok ()) = m"
  by (rule ext) (auto simp: io_bind_def io_ok_def split: prod.split outcome.split)

lemmas current_loud_last = current_loud [OF keeps_ok [where x = "()"], unfolded io_then_ok]

lemma current_told:
  "keeps uploads_current (io_then (core_send msg) (io_then (on_config (config_op env e)) config_to_uploader))"
  "keeps uploads_current (io_then (core_send_ok msg) (io_then (on_config (config_op env e)) config_to_uploader))"
  "keeps uploads_current rest \<Longrightarrow>
     keeps uploads_current (io_then (core_send msg) (io_then (on_config (config_op env e)) (io_then config_to_uploader rest)))"
  "keeps uploads_current rest \<Longrightarrow>
     keeps uploads_current (io_then (core_send_ok msg) (io_then (on_config (config_op env e)) (io_then config_to_uploader rest)))"
  by (auto intro!: keeps_bind [OF current_send(1)] keeps_bind [OF current_send(2)] current_loud current_loud_last)

lemma current_to_manager_then: "keeps uploads_current (io_then config_to_manager (on_manager op))"
  by (intro keeps_intros)

lemma current_report:
  assumes "is_quiet e"
  shows "keeps uploads_current (report_failure f (config_op env e))"
proof (rule keepsI)
  fix t assume t: "uploads_current t"
  obtain r t1 where e: "on_config (config_op env e) t = (r, t1)" by (metis prod.exhaust)
  from edit_current [OF t e] assms have t1: "uploads_current t1" by simp
  have "uploads_current (snd (io_then (core_send (LogError (f x))) (io_lift (Err x)) t1))" for x
    by (rule keepsD [where P = uploads_current, OF _ t1]) (intro keeps_intros)
  with e t1 show "uploads_current (snd (report_failure f (config_op env e) t))"
    by (cases r) (simp_all add: report_failure_def)
qed

lemma current_edit: "keeps uploads_current (core_edit env e)"
proof (cases e)
  case DecryptConfig
  then show ?thesis
    using current_report [of DecryptConfig] by (simp add: core_decrypt_config_def is_quiet_def is_recrypt_def)
next
  case (EncryptConfig password)
  then show ?thesis
    using current_report [of "EncryptConfig password"] by (simp add: core_encrypt_config_def is_quiet_def is_recrypt_def)
next
  case (AddFiles files)
  then show ?thesis using current_quiet [of "AddFiles files"] by (simp add: core_add_files_def is_quiet_def)
next
  case (SetPathDownloadsDir path)
  then show ?thesis
    using current_quiet [of "SetPathDownloadsDir path"]
    by (auto simp: core_set_path_downloads_dir_def is_quiet_def intro!: keeps_intros current_host)
qed (simp_all add: core_add_new_user_def core_add_user_to_shared_def core_create_new_id_def core_remove_file_from_sharing_def
    core_remove_user_from_sharing_def core_remove_user_def core_set_port_def core_set_ignore_incoming_def
    core_set_reverse_connection_def core_set_user_is_allowed_state_def core_update_user_def
    current_told current_manager current_to_manager current_to_manager_then flip: config_op.simps split del: if_split)

lemma upload_step_config:
  assumes "iu_thread (iu_event dbg u e) = Running phase" and "\<And>msg. e \<noteq> Post msg"
  shows "last_config (iu_manager (iu_event dbg u e)) = last_config (iu_manager u) \<and> (\<exists>ph. iu_thread u = Running ph)"
  using assms thread_turn_last_config [of dbg _ _ u phase] by (cases e) (auto simp: last_config_def)

lemma current_upload_step:
  assumes "\<And>msg. e \<noteq> Post msg"
  shows "keeps uploads_current (io_mod (\<lambda>t. t\<lparr>tc_incoming_uploader := iu_event dbg (tc_incoming_uploader t) e\<rparr>))"
proof (rule keeps_mod)
  fix t assume "uploads_current t"
  then show "uploads_current (t\<lparr>tc_incoming_uploader := iu_event dbg (tc_incoming_uploader t) e\<rparr>)"
    using upload_step_config [OF _ assms] by (auto simp: uploads_current_def sent_config_def)
qed

lemma current_call: "keeps uploads_current (core_call env dbg wording e)"
proof (cases e)
  case (UploadStep ev)
  show ?thesis
  proof (cases "\<exists>msg. ev = Post msg")
    case True
    then show ?thesis using UploadStep by (auto intro!: current_mod)
  next
    case False
    then have "core_call env dbg wording e
        = io_mod (\<lambda>t. t\<lparr>tc_incoming_uploader := iu_event dbg (tc_incoming_uploader t) ev\<rparr>)"
      using UploadStep by (cases ev) (auto simp: fun_eq_iff io_mod_def)
    with False current_upload_step show ?thesis by metis
  qed
next
  case (SetSharing s)
  then show ?thesis by (auto simp: core_set_my_sharing_state_def intro!: keeps_intros current_mod)
next
  case ReadSharingError
  then show ?thesis
    by (auto simp: core_get_and_reset_my_sharing_error_def core_set_my_sharing_state_def intro!: keeps_intros current_mod)
next
  case (AppStep msg)
  then show ?thesis using current_app by simp
next
  case (ManagerStep ev)
  then show ?thesis by (auto intro!: current_mod)
qed (auto simp: current_edit core_downloads_cancel_all_def core_downloads_cancel_single_def core_downloads_resume_all_def
    core_downloads_pause_all_def core_downloads_clear_finished_def core_downloads_clear_finished_from_me_def
    core_downloads_clear_invalid_def core_download_selected_def core_start_refresh_all_def core_start_refresh_single_def
    core_get_shared_with_me_data_def core_log_to_file_start_def core_log_to_file_stop_def core_set_log_level_def
    map_downloads_def intro!: keeps_intros current_mod)

interpretation core_machine: event_machine "core_step env dbg wording" uploads_current for env dbg wording
  by unfold_locales (simp add: core_step_def keepsD [OF current_call])

text \<open>The start of the core.\<close>

lemma greet_keeps:
  "keeps (\<lambda>t. tc_app t = a \<and> tc_config t = c \<and> tc_incoming_uploader t = u \<and> tc_sharing_state t = s \<and> tc_host t = h) (core_greet env cfg)"
proof -
  have "keeps (\<lambda>t. tc_app t = a \<and> tc_config t = c \<and> tc_incoming_uploader t = u \<and> tc_sharing_state t = s \<and> tc_host t = h) (core_send msg)" for msg
    by (auto simp: keeps_def core_send_def split: prod.split)
  then show ?thesis
    unfolding core_greet_def by (intro keeps_intros)
qed

lemma core_new_Ok:
  assumes "core_new env dbg c h fs = Ok t"
  obtains lw m0 where "new_outgoing_downloader env c new_channel (snd lw) = Ok m0"
    and "tc_app t = (tc_app (core_start c h lw m0))\<lparr>as_outgoing := snd (start_downloading m0)\<rparr>"
    and "tc_config t = c" and "tc_incoming_uploader t = new_incoming_uploader c new_channel" and "tc_sharing_state t = Off"
    and "tc_host t = h"
proof -
  let ?lw = "new_logger (c_path_dir_config c) (DEFAULT_LOG_LEVEL dbg) (DEFAULT_LOG_TO_FILE dbg) fs"
  from assms obtain m0 where m0: "new_outgoing_downloader env c new_channel (snd ?lw) = Ok m0"
    and run: "io_then (on_manager start_downloading) (core_greet env c) (core_start c h ?lw m0) = (Ok (), t)"
    by (simp add: core_new_def and_then_Ok_iff Let_def) (elim exE conjE, simp split: prod.splits outcome.splits)
  from run obtain x t1 where first: "on_manager start_downloading (core_start c h ?lw m0) = (Ok x, t1)"
    and greet: "core_greet env c t1 = (Ok (), t)"
    by (rule io_bind_OkE)
  from first have t1: "tc_app t1 = (tc_app (core_start c h ?lw m0))\<lparr>as_outgoing := snd (start_downloading m0)\<rparr>"
    "tc_config t1 = c" "tc_incoming_uploader t1 = new_incoming_uploader c new_channel" "tc_sharing_state t1 = Off" "tc_host t1 = h"
    by (auto simp: on_manager_def io_self_def core_start_def split: prod.splits)
  from keeps_run [OF greet_keeps greet] t1
  have "tc_app t = tc_app t1 \<and> tc_config t = c \<and> tc_incoming_uploader t = new_incoming_uploader c new_channel \<and> tc_sharing_state t = Off \<and> tc_host t = h"
    by blast
  with t1 m0 show ?thesis by (intro that [of ?lw m0]) simp_all
qed

lemma core_new_current: "core_new env dbg c h fs = Ok t \<Longrightarrow> uploads_current t"
  by (erule core_new_Ok)
    (simp add: uploads_current_def sent_config_def last_config_def new_incoming_uploader_def new_uploader_manager_def resanitized_refl)


text \<open>What an operation on the downloads leaves alone, and an edit of which both sides are told.\<close>

lemma manager_rest [keeps_intros]:
  "keeps (\<lambda>t. tc_config t = c \<and> tc_incoming_uploader t = u) (on_manager op)"
  "keeps (\<lambda>t. tc_config t = c \<and> tc_incoming_uploader t = u) config_to_manager"
proof -
  show "keeps (\<lambda>t. tc_config t = c \<and> tc_incoming_uploader t = u) (on_manager op)" for op
    by (auto simp: keeps_def on_manager_def io_self_def io_lift_def split: prod.split)
  then show "keeps (\<lambda>t. tc_config t = c \<and> tc_incoming_uploader t = u) config_to_manager"
    by (simp add: config_to_manager_def keeps_def io_self_def)
qed

lemma edit_reaches_uploader:
  assumes "config_op env e (tc_config t, tc_host t) = (Ok (), (c, h))" and "iu_thread (tc_incoming_uploader t) = Running phase"
    and "keeps (\<lambda>t. tc_config t = c \<and> tc_incoming_uploader t = snd (iu_set_new_config c (tc_incoming_uploader t0))) rest"
    and "tc_incoming_uploader t = tc_incoming_uploader t0"
  shows "let t' = snd (io_then (on_config (config_op env e)) (io_then config_to_uploader rest) t) in
     tc_config t' = c \<and> sent_config t' = c \<and> iu_thread (tc_incoming_uploader t') = Running phase"
proof -
  let ?u = "snd (iu_set_new_config c (tc_incoming_uploader t0))"
  let ?t1 = "t\<lparr>tc_config := c, tc_host := h\<rparr>"
  have u: "iu_set_new_config c (tc_incoming_uploader t) = (Ok (), ?u)" and last: "last_config (iu_manager ?u) = c"
    and th: "iu_thread ?u = Running phase"
    using assms(2,4) by (simp_all add: iu_set_new_config_def iu_post_def last_config_def)
  have "on_config (config_op env e) t = (Ok (), ?t1)" using assms(1) by (simp add: on_config_def)
  moreover have "config_to_uploader ?t1 = (Ok (), ?t1\<lparr>tc_incoming_uploader := ?u\<rparr>)"
    using u by (simp add: config_to_uploader_def io_self_def on_uploader_def)
  ultimately have run: "io_then (on_config (config_op env e)) (io_then config_to_uploader rest) t = rest (?t1\<lparr>tc_incoming_uploader := ?u\<rparr>)"
    by (simp add: io_bind_def)
  have "tc_config (snd (rest (?t1\<lparr>tc_incoming_uploader := ?u\<rparr>))) = c
      \<and> tc_incoming_uploader (snd (rest (?t1\<lparr>tc_incoming_uploader := ?u\<rparr>))) = ?u"
    by (rule keepsD [OF assms(3)]) simp
  with last th show ?thesis unfolding run by (simp add: sent_config_def Let_def)
qed

text \<open>A core on a host with a directory of downloads, and one of its settings changed.\<close>

definition downloads_cfg :: config where
  "downloads_cfg = demo_cfg\<lparr>c_config_file := demo_config\<lparr>cf_path_downloads := ''/d''\<rparr>\<rparr>"

lemma demo_core: "is_ok (core_new demo_host True downloads_cfg demo_disk demo_fs)"
  by code_simp

lemma demo_ignoring:
  "verify_config demo_host (demo_config\<lparr>cf_path_downloads := ''/d'', cf_ignore_incoming := True\<rparr>)
     = Ok (demo_config\<lparr>cf_path_downloads := ''/d'', cf_ignore_incoming := True\<rparr>)"
proof -
  have d: "sanitize_config demo_config = demo_config" "config_valid demo_host demo_config"
    using demo_verified by (simp_all add: verify_config_Ok)
  have "trim ''/d'' = ''/d''" by (rule trim_printable) (simp add: printable_def)
  with d show ?thesis
    by (simp add: verify_config_Ok config_valid_def) (simp add: sanitize_config_def demo_config_def)
qed


end
