(* ===== verification/Core_Effects.thy ===== *)
theory Core_Effects
  imports Core_Sync
begin

text \<open>
  What one operation of the core reaches: a refused edit reaches no other component, the removal of a user
  reaches all of them, a start resumes the downloads that a queue file remembers, and an error of the
  uploads is shown once and stops the sharing.
\<close>

subsection \<open>Edits that are refused\<close>

lemma refused_then:
  assumes "config_op env e (tc_config t, tc_host t) = (r, (c, h))" and "r \<noteq> Ok ()"
  shows "io_then (on_config (config_op env e)) rest t = (r, t\<lparr>tc_config := c, tc_host := h\<rparr>)"
    "on_config (config_op env e) t = (r, t\<lparr>tc_config := c, tc_host := h\<rparr>)"
  using assms by (cases r; simp add: on_config_def io_bind_def)+

lemma sent_then:
  "\<exists>ch. (io_then (core_send_ok msg) rest) t = rest (t\<lparr>tc_app_sender := ch\<rparr>)"
  "\<exists>ch. core_send msg t = (Ok (), t\<lparr>tc_app_sender := ch\<rparr>) \<or> (\<exists>x. core_send msg t = (Err x, t\<lparr>tc_app_sender := ch\<rparr>))"
proof -
  show "\<exists>ch. (io_then (core_send_ok msg) rest) t = rest (t\<lparr>tc_app_sender := ch\<rparr>)"
    by (auto simp: core_send_ok_def io_bind_def io_mod_def)
  show "\<exists>ch. core_send msg t = (Ok (), t\<lparr>tc_app_sender := ch\<rparr>) \<or> (\<exists>x. core_send msg t = (Err x, t\<lparr>tc_app_sender := ch\<rparr>))"
    by (intro exI [of _ "snd (send_app msg (tc_app_sender t))"]) (simp add: core_send_def send_app_def split: option.split)
qed

definition edit_untouched :: "transmitic_core \<Rightarrow> transmitic_core \<Rightarrow> bool" where
  "edit_untouched t t' \<longleftrightarrow> tc_incoming_uploader t' = tc_incoming_uploader t \<and> tc_app t' = tc_app t
     \<and> tc_sharing_state t' = tc_sharing_state t"

lemma refused_told:
  assumes "config_op env e (tc_config t, tc_host t) = (r, (c, h))" and "r \<noteq> Ok ()"
  shows "io_then (core_send_ok msg) (io_then (on_config (config_op env e)) rest) t = (r', t')
      \<Longrightarrow> r' \<noteq> Ok () \<and> edit_untouched t t' \<and> (tc_config t' = c \<or> tc_config t' = tc_config t)" (is "?ok \<Longrightarrow> _")
    and "io_then (core_send msg) (io_then (on_config (config_op env e)) rest) t = (r', t')
      \<Longrightarrow> r' \<noteq> Ok () \<and> edit_untouched t t' \<and> (tc_config t' = c \<or> tc_config t' = tc_config t)"
proof -
  note stop = refused_then(1) [of env e "t\<lparr>tc_app_sender := ch\<rparr>" r c h rest for ch]
  {
    assume ?ok
    moreover obtain ch where "io_then (core_send_ok msg) (io_then (on_config (config_op env e)) rest) t
        = io_then (on_config (config_op env e)) rest (t\<lparr>tc_app_sender := ch\<rparr>)"
      using sent_then(1) by blast
    ultimately show "r' \<noteq> Ok () \<and> edit_untouched t t' \<and> (tc_config t' = c \<or> tc_config t' = tc_config t)"
      using stop [of ch] assms by (auto simp: edit_untouched_def)
  next
    assume "io_then (core_send msg) (io_then (on_config (config_op env e)) rest) t = (r', t')"
    moreover obtain ch where "core_send msg t = (Ok (), t\<lparr>tc_app_sender := ch\<rparr>) \<or> (\<exists>x. core_send msg t = (Err x, t\<lparr>tc_app_sender := ch\<rparr>))"
      using sent_then(2) by blast
    ultimately show "r' \<noteq> Ok () \<and> edit_untouched t t' \<and> (tc_config t' = c \<or> tc_config t' = tc_config t)"
      using stop [of ch] assms by (auto simp: edit_untouched_def io_bind_def [where m = "core_send _"])
  }
qed

lemma refused_report:
  assumes "config_op env e (tc_config t, tc_host t) = (r, (c, h))" and "r \<noteq> Ok ()"
    and "report_failure f (config_op env e) t = (r', t')"
  shows "r' \<noteq> Ok () \<and> edit_untouched t t' \<and> (tc_config t' = c \<or> tc_config t' = tc_config t)"
proof -
  let ?t1 = "t\<lparr>tc_config := c, tc_host := h\<rparr>"
  note run = refused_then(2) [OF assms(1,2)]
  show ?thesis
  proof (cases r)
    case (Err x)
    obtain ch where ch: "core_send (LogError (f x)) ?t1 = (Ok (), ?t1\<lparr>tc_app_sender := ch\<rparr>)
        \<or> (\<exists>y. core_send (LogError (f x)) ?t1 = (Err y, ?t1\<lparr>tc_app_sender := ch\<rparr>))"
      using sent_then(2) by blast
    have "io_then (core_send (LogError (f x))) (io_lift (Err x)) ?t1 = (r', t')"
      using assms(3) run Err by (simp add: report_failure_def)
    with ch show ?thesis by (elim disjE exE) (auto simp: io_bind_def io_lift_def edit_untouched_def)
  qed (use assms(2,3) run in \<open>auto simp: report_failure_def edit_untouched_def\<close>)
qed


definition demo_running :: transmitic_core where
  "demo_running = core_start demo_cfg demo_disk (as_logger demo_app) demo_manager"

lemma demo_port_refused: "fst (config_op demo_host (SetPort ''x'') (demo_cfg, demo_disk)) \<noteq> Ok ()"
proof
  assume "fst (config_op demo_host (SetPort ''x'') (demo_cfg, demo_disk)) = Ok ()"
  then obtain c' h' where "write_and_set_config demo_host (demo_config\<lparr>cf_sharing_port := ''x''\<rparr>) (demo_cfg, demo_disk) = (Ok (), (c', h'))"
    by (cases "config_op demo_host (SetPort ''x'') (demo_cfg, demo_disk)") (simp add: set_port_def edit_config_run demo_cfg_def)
  from write_and_set_Ok [OF this] have "config_valid demo_host (sanitize_config (demo_config\<lparr>cf_sharing_port := ''x''\<rparr>))"
    by (auto simp: verify_config_Ok)
  moreover have "trim ''x'' = ''x''" by (rule trim_printable) (simp add: printable_def)
  ultimately show False
    by (simp add: config_valid_def sanitize_config_def port_ok_def parse_i32_def parse_unsigned_def parse_nat_def digit_val_def)
qed


subsection \<open>Removing a user\<close>

lemma manager_forgets:
  assumes "n \<notin> set (map su_nickname (cf_shared_users (c_config_file c)))" and "m2 = snd (od_remove_user n (snd (od_set_new_config c m)))"
  shows "od_config m2 = c" "od_refresh_data m2 n = None" "od_channel_map m2 n = None"
    "od_channel_map m n = Some (sx, rx) \<Longrightarrow> ch_alive sx
       \<Longrightarrow> (n, (sx\<lparr>ch_queue := ch_queue sx @ [NewConfig c, RemoveUser]\<rparr>, rx)) \<in> set (od_dropped m2)"
  using assms(1)
  by (auto simp: assms(2) od_set_new_config_def send_message_to_all_downloads_def od_remove_user_def send_to_def let_go_def
      io_bind_def io_mod_def set_refresh_data_def ch_send_def split: option.split prod.split)

lemma on_manager_OkE:
  assumes "on_manager op t = (Ok x, t')"
  obtains m where "op (as_outgoing (tc_app t)) = (Ok x, m)" and "t' = t\<lparr>tc_app := (tc_app t)\<lparr>as_outgoing := m\<rparr>\<rparr>"
  using assms by (auto simp: on_manager_def io_self_def io_lift_def split: prod.splits if_splits)

lemma to_uploader_OkE:
  assumes "config_to_uploader t = (Ok u, t')"
  obtains "last_config (iu_manager (tc_incoming_uploader t')) = tc_config t" and "tc_config t' = tc_config t" and "tc_app t' = tc_app t"
    and "\<exists>phase. iu_thread (tc_incoming_uploader t') = Running phase"
  using assms
  by (auto simp: config_to_uploader_def io_self_def on_uploader_def iu_set_new_config_def iu_post_def last_config_def
      split: prod.splits upload_thread.splits)


definition bob_running :: transmitic_core where
  "bob_running = core_start (demo_cfg\<lparr>c_config_file := bob_config\<rparr>) demo_disk (as_logger demo_app)
     (demo_manager\<lparr>od_channel_map := (\<lambda>_. None)(''bob'' := Some (new_channel, new_channel))\<rparr>)"


subsection \<open>Starting\<close>

text \<open>The downloader that a user with a queue file gets.\<close>

definition resumed :: "outgoing_downloader \<Rightarrow> shared_user \<Rightarrow> single_downloader" where
  "resumed m u = new_single_downloader u (queue_file_path (od_config m) (su_nickname u)) (od_app_sender m)
     (od_is_downloading_paused m) None (od_refresh_data m) (od_config m) (od_fs m)"

lemma start_one:
  "\<exists>chs dropped. start_downloading_single_user u None m =
     (Ok (), m\<lparr>od_channel_map := chs, od_dropped := dropped,
        od_started := od_started m @ map (resumed m) (filter (\<lambda>u. fs_exists (queue_file_path (od_config m) (su_nickname u)) (od_fs m)) [u])\<rparr>)
     \<and> dom chs = dom (od_channel_map m) \<union> (if fs_exists (queue_file_path (od_config m) (su_nickname u)) (od_fs m) then {su_nickname u} else {})"
proof (cases "fs_exists (queue_file_path (od_config m) (su_nickname u)) (od_fs m)")
  case True
  then show ?thesis
    by (intro exI [of _ "(od_channel_map m)(su_nickname u := Some (new_channel, new_channel))"] exI [of _ "let_go (su_nickname u) m"])
      (auto simp: start_downloading_single_user_def io_self_def spawn_downloader_def io_mod_def resumed_def)
next
  case False
  then show ?thesis
    by (intro exI [of _ "od_channel_map m"] exI [of _ "od_dropped m"])
      (simp add: start_downloading_single_user_def io_self_def io_ok_def)
qed

lemma start_users:
  "\<exists>chs dropped. io_for (\<lambda>u. start_downloading_single_user u None) us m =
     (Ok (), m\<lparr>od_channel_map := chs, od_dropped := dropped,
        od_started := od_started m @ map (resumed m) (filter (\<lambda>u. fs_exists (queue_file_path (od_config m) (su_nickname u)) (od_fs m)) us)\<rparr>)
     \<and> dom chs = dom (od_channel_map m)
         \<union> su_nickname ` {u \<in> set us. fs_exists (queue_file_path (od_config m) (su_nickname u)) (od_fs m)}"
proof (induction us arbitrary: m)
  case Nil
  show ?case by (intro exI [of _ "od_channel_map m"] exI [of _ "od_dropped m"]) (simp add: io_ok_def)
next
  case (Cons u us)
  let ?has = "\<lambda>u. fs_exists (queue_file_path (od_config m) (su_nickname u)) (od_fs m)"
  obtain chs dropped where one: "start_downloading_single_user u None m =
      (Ok (), m\<lparr>od_channel_map := chs, od_dropped := dropped, od_started := od_started m @ map (resumed m) (filter ?has [u])\<rparr>)"
    and dom: "dom chs = dom (od_channel_map m) \<union> (if ?has u then {su_nickname u} else {})"
    using start_one by blast
  let ?m1 = "m\<lparr>od_channel_map := chs, od_dropped := dropped, od_started := od_started m @ map (resumed m) (filter ?has [u])\<rparr>"
  have same: "resumed ?m1 = resumed m" by (rule ext) (simp add: resumed_def)
  from Cons.IH [of ?m1] obtain chs2 dropped2 where rest: "io_for (\<lambda>u. start_downloading_single_user u None) us ?m1 =
      (Ok (), ?m1\<lparr>od_channel_map := chs2, od_dropped := dropped2, od_started := od_started ?m1 @ map (resumed m) (filter ?has us)\<rparr>)"
    and dom2: "dom chs2 = dom chs \<union> su_nickname ` {u \<in> set us. ?has u}"
    unfolding same by auto
  have set_eq: "{x \<in> set (u # us). ?has x} = (if ?has u then {u} else {}) \<union> {x \<in> set us. ?has x}" by auto
  have "dom chs2 = dom (od_channel_map m) \<union> su_nickname ` {x \<in> set (u # us). ?has x}"
    unfolding dom2 dom set_eq by auto
  moreover have "io_for (\<lambda>u. start_downloading_single_user u None) (u # us) m =
      (Ok (), m\<lparr>od_channel_map := chs2, od_dropped := dropped2,
        od_started := od_started m @ map (resumed m) (filter ?has (u # us))\<rparr>)"
    using rest by (simp add: io_bind_Ok [where m = "start_downloading_single_user u None", OF one] del: filter.simps)
      simp
  ultimately show ?case by blast
qed

lemma new_manager:
  assumes "new_outgoing_downloader env c ch fs = Ok m0"
  shows "od_config m0 = c" "od_channel_map m0 = (\<lambda>_. None)" "od_started m0 = []" "\<not> od_is_downloading_paused m0"
proof -
  obtain path where p: "get_path_downloads_dir env c = Ok path" using assms by (auto simp: new_outgoing_downloader_def)
  obtain r fs' where f: "fs_create_dir_all path fs = (r, fs')" by (metis prod.exhaust)
  from assms p f show "od_config m0 = c" "od_channel_map m0 = (\<lambda>_. None)" "od_started m0 = []" "\<not> od_is_downloading_paused m0"
    by (cases r; auto simp: new_outgoing_downloader_def)+
qed

text \<open>
  C25. A start takes up the downloads that were waiting: a core that starts has, in the order of the
  configuration, a running downloader for exactly the users with a queue file, not paused, with the
  configuration of the core and the path of that file, and shares nothing yet.
\<close>

theorem start_resumes_downloads:
  assumes "core_new env dbg c h fs = Ok t" and "m = as_outgoing (tc_app t)"
    and "waiting = filter (\<lambda>u. fs_exists (queue_file_path c (su_nickname u)) (od_fs m)) (cf_shared_users (c_config_file c))"
  shows "map sd_shared_user (od_started m) = waiting
     \<and> (\<forall>s \<in> set (od_started m). sd_config s = c \<and> \<not> sd_is_downloading_paused s
          \<and> sd_path_queue_file s = queue_file_path c (su_nickname (sd_shared_user s)))
     \<and> dom (od_channel_map m) = su_nickname ` set waiting
     \<and> tc_sharing_state t = Off \<and> um_sharing_state (iu_manager (tc_incoming_uploader t)) = Off"
proof -
  from core_new_Ok [OF assms(1)] obtain lw m0 where m0: "new_outgoing_downloader env c new_channel (snd lw) = Ok m0"
    and app: "tc_app t = (tc_app (core_start c h lw m0))\<lparr>as_outgoing := snd (start_downloading m0)\<rparr>"
    and off: "tc_incoming_uploader t = new_incoming_uploader c new_channel" "tc_sharing_state t = Off" by metis
  note at_start = new_manager [OF m0]
  from start_users [of "od_users m0" m0] obtain chs dropped where
    run: "io_for (\<lambda>u. start_downloading_single_user u None) (od_users m0) m0 = (Ok (), m0\<lparr>od_channel_map := chs, od_dropped := dropped,
        od_started := od_started m0 @ map (resumed m0)
          (filter (\<lambda>u. fs_exists (queue_file_path (od_config m0) (su_nickname u)) (od_fs m0)) (od_users m0))\<rparr>)"
    and dom: "dom chs = dom (od_channel_map m0)
       \<union> su_nickname ` {u \<in> set (od_users m0). fs_exists (queue_file_path (od_config m0) (su_nickname u)) (od_fs m0)}" by blast
  have m: "m = m0\<lparr>od_channel_map := chs, od_dropped := dropped, od_started := map (resumed m0)
      (filter (\<lambda>u. fs_exists (queue_file_path c (su_nickname u)) (od_fs m0)) (od_users m0))\<rparr>"
    using run at_start by (simp add: assms(2) app start_downloading_def io_self_def)
  show ?thesis
    using dom at_start off unfolding assms(3)
    by (auto simp: m resumed_def new_single_downloader_def comp_def new_incoming_uploader_def new_uploader_manager_def)
qed

definition waiting_cfg :: config where
  "waiting_cfg = downloads_cfg\<lparr>c_config_file := (c_config_file downloads_cfg)\<lparr>cf_shared_users := [demo_user ''ann'' ''AA'', demo_user ''bob'' ''AAAA'']\<rparr>\<rparr>"

definition waiting_fs :: file_sys where
  "waiting_fs = demo_fs\<lparr>fs_files := (\<lambda>_. None)([''/'', ''c'', ''transmitic_config'', ''bob.txt''] := Some (as_bytes ''/a''))\<rparr>"

lemma demo_resumes:
  "case core_new demo_host True waiting_cfg demo_disk waiting_fs of
     Ok t \<Rightarrow> filter (\<lambda>u. fs_exists (queue_file_path waiting_cfg (su_nickname u)) (od_fs (as_outgoing (tc_app t))))
       [demo_user ''ann'' ''AA'', demo_user ''bob'' ''AAAA''] = [demo_user ''bob'' ''AAAA'']
   | _ \<Rightarrow> False"
  by code_simp

theorem start_resumes_downloads_witness:
  "\<exists>t. core_new demo_host True waiting_cfg demo_disk waiting_fs = Ok t
     \<and> map sd_shared_user (od_started (as_outgoing (tc_app t))) = [demo_user ''bob'' ''AAAA'']"
proof -
  obtain t where new: "core_new demo_host True waiting_cfg demo_disk waiting_fs = Ok t"
    and files: "filter (\<lambda>u. fs_exists (queue_file_path waiting_cfg (su_nickname u)) (od_fs (as_outgoing (tc_app t))))
       [demo_user ''ann'' ''AA'', demo_user ''bob'' ''AAAA''] = [demo_user ''bob'' ''AAAA'']"
    using demo_resumes by (cases "core_new demo_host True waiting_cfg demo_disk waiting_fs") auto
  have users: "cf_shared_users (c_config_file waiting_cfg) = [demo_user ''ann'' ''AA'', demo_user ''bob'' ''AAAA'']"
    by (simp add: waiting_cfg_def)
  from start_resumes_downloads [OF new refl refl] files new show ?thesis unfolding users by auto
qed

subsection \<open>Errors of the uploads\<close>

text \<open>
  C26. An error of the uploads is shown once and stops the sharing: reading it gives it and clears it, so
  that the next reading finds none; the core's state is \<open>Off\<close>, the upload thread has the message to stop as the
  last in its queue, and the downloads are not touched. When there is no error nothing changes.
\<close>

theorem sharing_error_shown_once:
  assumes "iu_thread (tc_incoming_uploader t) = Running phase"
    and "core_get_and_reset_my_sharing_error t = (r, t')"
  shows "r = Ok (as_uploader_error (tc_app t))
     \<and> (as_uploader_error (tc_app t) = None \<longrightarrow> t' = t)
     \<and> (as_uploader_error (tc_app t) \<noteq> None \<longrightarrow> tc_sharing_state t' = Off
          \<and> um_inbox (iu_manager (tc_incoming_uploader t')) = um_inbox (iu_manager (tc_incoming_uploader t)) @ [SharingStateMsg Off])
     \<and> fst (core_get_and_reset_my_sharing_error t') = Ok None \<and> as_outgoing (tc_app t') = as_outgoing (tc_app t)"
proof -
  let ?clear = "t\<lparr>tc_app := (tc_app t)\<lparr>as_uploader_error := None\<rparr>\<rparr>"
  have none: "core_get_and_reset_my_sharing_error s = (Ok None, s)" if "as_uploader_error (tc_app s) = None" for s
  proof -
    have "tc_app s = (tc_app s)\<lparr>as_uploader_error := None\<rparr>" using that by simp
    then have "s = s\<lparr>tc_app := (tc_app s)\<lparr>as_uploader_error := None\<rparr>\<rparr>" by simp
    with that show ?thesis by (simp add: core_get_and_reset_my_sharing_error_def io_bind_def io_get_def io_mod_def io_ok_def)
  qed
  show ?thesis
  proof (cases "as_uploader_error (tc_app t)")
    case None
    with none [OF None] assms(2) show ?thesis by simp
  next
    case (Some e)
    obtain t1 where off: "core_set_my_sharing_state Off ?clear = (Ok (), t1)" and t1: "tc_app t1 = tc_app ?clear"
      "tc_sharing_state t1 = Off"
      "um_inbox (iu_manager (tc_incoming_uploader t1)) = um_inbox (iu_manager (tc_incoming_uploader t)) @ [SharingStateMsg Off]"
      using assms(1)
      by (simp add: core_set_my_sharing_state_def core_send_ok_def io_bind_def io_mod_def on_uploader_def
          iu_set_my_sharing_state_def iu_post_def)
    have "core_get_and_reset_my_sharing_error t = (Ok (Some e), t1)"
      using off Some by (simp add: core_get_and_reset_my_sharing_error_def io_bind_def io_get_def io_mod_def io_ok_def)
    with assms(2) t1 Some none [of t1] show ?thesis by simp
  qed
qed

theorem sharing_error_shown_once_witness:
  "let t = demo_running\<lparr>tc_app := (tc_app demo_running)\<lparr>as_uploader_error := Some PortInUse\<rparr>\<rparr> in
     fst (core_get_and_reset_my_sharing_error t) = Ok (Some PortInUse)"
proof -
  let ?t = "demo_running\<lparr>tc_app := (tc_app demo_running)\<lparr>as_uploader_error := Some PortInUse\<rparr>\<rparr>"
  have "iu_thread (tc_incoming_uploader ?t) = Running AtTop"
    by (simp add: demo_running_def core_start_def new_incoming_uploader_def)
  from sharing_error_shown_once [OF this prod.collapse [symmetric]] show ?thesis by (simp add: Let_def)
qed

end
