(* ===== verification/Spec2Isabelle.thy ===== *)
theory Spec2Isabelle
  imports Logger Sharing File_Transfer Core_Effects
begin

text \<open>
  A verification library of transmitic-core (Rust, \<open>src/src\<close>), the core of a program with which users
  who know each other's public ids share files directly.

  \<^bold>\<open>The program.\<close> A user has a configuration (\<open>config.rs\<close>: an Ed25519 key, the other users with their public
  ids and addresses, the files shared with each) that is kept as JSON on the disk, plain or encrypted.
  \<open>TransmiticCore\<close> (\<open>transmitic_core.rs\<close>) owns it and is what the user interface calls. Three kinds of
  threads do the work and are told of every change by messages: one downloader per user
  (\<open>outgoing_downloader.rs\<close>: connects, fetches the list of what is offered, downloads the files of a
  queue that is kept in a file, continuing partial files), started and directed by
  \<open>OutgoingDownloader\<close>; the manager of uploads (\<open>incoming_uploader.rs\<close>: listens, or dials users in reverse mode) with one uploader
  per connection that serves lists and files; and the app loop (\<open>app_aggregator.rs\<close>), to which everything reports
  and which keeps what is shown. Connections start with a handshake (\<open>transmitic_stream.rs\<close>: signed X25519 keys) and
  go on in frames encrypted with AES-256-GCM (\<open>encrypted_stream.rs\<close>).

  \<^bold>\<open>How it is modelled.\<close> A fallible function returns an \<open>outcome\<close>: \<open>Ok\<close>, \<open>Err\<close>, \<open>Panic\<close> (unwrap, slices out of range)
  or \<open>Exit\<close> (\<open>std::process::exit\<close> and its code). A method with \<open>&mut self\<close> is a function from its state to
  an outcome and the new state (type \<open>io\<close>; the state changes on every outcome). Rust strings are
  lists of characters that stand for bytes, integers have their width where it matters. Threads
  are steps on explicit states: what a channel, the clock, a socket or the disk will answer is an
  input of the step, and the theorems hold for all of them. Each component's state has the end of the channel to the app
  loop that it sends to, and (downloads and core) the disk as it finds it.

  \<^bold>\<open>The theories, from the bottom.\<close>
  \<^item> \<open>Rust_Prelude\<close> (outcomes, \<open>io\<close>, invariants of methods \<open>keeps\<close>, the locales \<open>event_machine\<close> and
    \<open>codec\<close>), \<open>Rust_Strings\<close> (trim, lines, split, parse, paths), \<open>Rust_Bytes\<close> (big-endian numbers).
  \<^item> \<open>Base64\<close> (\<open>base64.rs\<close>), \<open>Core_Types\<close> (\<open>core_consts.rs\<close>, errors, channels, the TCP stream),
    \<open>Encrypted_Stream\<close>, \<open>Handshake\<close>, \<open>Net\<close> (\<open>utils.rs\<close>).
  \<^item> \<open>Path_Checks\<close> (the checks of paths and the local names of remote paths), \<open>Shared_Files\<close>
    (\<open>shared_file.rs\<close>, \<open>get_file_by_path\<close>), \<open>Host_Files\<close> (a file system with directories, files and denied
    paths), \<open>App_Types\<close> (messages to the app loop), \<open>Logger\<close> (\<open>logger.rs\<close>).
  \<^item> \<open>Config_Check\<close> (verification and sanitizing), \<open>Config\<close> (reading, writing, every edit),
    \<open>Config_Effects\<close> (what an edit leaves alone), \<open>Sharing\<close> (the tree that a user is offered).
  \<^item> \<open>Download_Queue\<close>, \<open>Download_Files\<close>, \<open>Download_Run\<close> (\<open>SingleDownloader\<close>: queue and messages; list and files; the
    loops of \<open>run\<close>), \<open>Download_Manager\<close> (\<open>OutgoingDownloader\<close>).
  \<^item> \<open>Uploader\<close> (\<open>SingleUploader\<close>), \<open>File_Transfer\<close> (an uploader and a downloader on one connection),
    \<open>Upload_Manager\<close> (\<open>UploaderManager\<close> and \<open>IncomingUploader\<close>).
  \<^item> \<open>Aggregator\<close> (the app loop), \<open>Core\<close> (\<open>TransmiticCore\<close>), \<open>Core_Sync\<close> and \<open>Core_Effects\<close> (the core with the threads
    that it directs).

  \<^bold>\<open>Interfaces.\<close> \<open>event_machine\<close> is a step with an invariant, instantiated for the configuration, the logger, the queue, the download
  manager, the manager of uploads, the app loop and the core; \<open>codec\<close> an encoder with its decoder;
  \<open>frame_link\<close> a writer and a reader of frames, from which the sequences of \<open>File_Transfer\<close> follow; \<open>stream_property\<close>,
  \<open>disk_property\<close> and \<open>work_property\<close> collect what an uploader keeps of its stream, a downloader of the
  disk, and a downloader of the work that is left.

  \<^bold>\<open>What is shown.\<close>
  \<^item> End to end: a requested list and a requested file arrive whole, with both streams in step
    (\<open>File_Transfer\<close>); a frame that is written is read; no nonce is used twice; the two roles of the handshake
    agree, and a stream exists only for a user whose id verified the key.
  \<^item> What a peer can do: get only files of its list and, from a foreign address, no byte; write
    only below the directory of its user; not end the process. What it can do in spite of the
    checks is stated too (hidden files of a node, paths without a name, oversized payloads).
  \<^item> The configuration: verification decides a declarative validity, every edit keeps it and is all or
    nothing, what is written reads back, encrypting leaves no plain text.
  \<^item> Downloads: the queue file is the queue, survives a restart, a cancelled entry is gone; a finished file
    has its size; the loops end; lists exist for exactly the users of the configuration.
  \<^item> Uploads: off means off at once; the offer is exactly what is shared.
  \<^item> The core: uploads follow its configuration, a refused edit reaches nobody, a removed user is gone from every component,
    a start resumes what was waiting; the table of downloads that is shown refines one machine per user.

  \<^bold>\<open>Fuel and termination.\<close> Loops over input end because every turn reads bytes of the wire
  (\<open>wire_left\<close>), bytes of a file, or messages and queue entries (\<open>left_to_do\<close>), and are total functions. The walk over the
  shared directories has fuel, since a link can lead back to a directory above it;
  \<open>everything_file_terminates\<close> shows that without such a link some fuel suffices and more changes nothing. The endless loops of the
  threads are one function per turn, over any sequence of turns.

  \<^bold>\<open>Parameters.\<close> serde_json, PBKDF2, AES-GCM, CRC-32, Ed25519, X25519 and the random source (records
  \<open>crypto_env\<close>, \<open>id_env\<close>, \<open>host_env\<close>), the name service and connecting (\<open>net_env\<close>), binding and accepting. What theorems
  assume of them is named there: decryption inverts encryption, a signature of the own key
  verifies, the two shared secrets are equal, JSON that was printed parses back.

  \<^bold>\<open>Not modelled.\<close> Locks other than their being poisoned, and data races below the steps; sleeps and clocks;
  \<open>run_app_loop\<close> and the spawning of threads beyond the state that they start with; \<open>get_download_state\<close> and
  \<open>get_upload_state\<close>, which hand out shared tables; message texts of \<open>Display\<close> instances; standard output;
  the Windows branches of the configuration; \<open>lib.rs\<close>, which only lists the modules.
\<close>

end
